(* ===== verification/Prelude.thy ===== *)
theory Prelude
  imports Main "HOL-Library.Word"
begin

unbundle bit_operations_syntax

text \<open>
  Shared vocabulary of the development: the machine integer types of the C sources, the
  ways a C statement can go wrong, a generic runner for step functions with its
  invariant locale, and the word and list lemmas that several components use.

  A definition that models C code returns \<open>fault + result\<close>: \<open>Inl\<close> when the source
  dereferences a null pointer, indexes outside an object, divides by zero or calls a
  function that does not return, \<open>Inr\<close> otherwise.
\<close>

section \<open>Types\<close>

type_synonym u8 = "8 word"
type_synonym u16 = "16 word"
type_synonym u32 = "32 word"

datatype fault =
    NullDeref      \<comment> \<open>dereference of a null pointer\<close>
  | OutOfBounds    \<comment> \<open>access outside an array\<close>
  | DivByZero      \<comment> \<open>integer division by zero\<close>
  | Overflow       \<comment> \<open>overflow of a signed integer\<close>
  | Fatal          \<comment> \<open>\<open>rtems_fatal_error_occurred\<close>, a failed \<open>assert\<close>: no return\<close>

type_synonym 'a res = "fault + 'a"

section \<open>Lemma collections\<close>

named_theorems inv_intros \<open>preservation of the component invariants\<close>
named_theorems mask_simps \<open>bits of masks and of mask unions\<close>

section \<open>Bytes and multi-byte values\<close>

definition be16 :: "u8 \<Rightarrow> u8 \<Rightarrow> u16" where
  \<comment> \<open>the halfword stored at two consecutive bytes\<close>
  "be16 a b = push_bit 8 (ucast a) OR ucast b"

definition be32 :: "u8 \<Rightarrow> u8 \<Rightarrow> u8 \<Rightarrow> u8 \<Rightarrow> u32" where
  \<comment> \<open>\<open>ntohl\<close> of the 32-bit word stored at four consecutive bytes\<close>
  "be32 a b c d = push_bit 24 (ucast a) OR push_bit 16 (ucast b) OR push_bit 8 (ucast c) OR ucast d"

definition bytes16 :: "u16 \<Rightarrow> u8 list" where
  "bytes16 w = [ucast (drop_bit 8 w), ucast w]"

definition bytes32 :: "u32 \<Rightarrow> u8 list" where
  "bytes32 w = [ucast (drop_bit 24 w), ucast (drop_bit 16 w), ucast (drop_bit 8 w), ucast w]"

lemma be16_bytes16: "be16 (bytes16 w ! 0) (bytes16 w ! 1) = w"
  by (rule bit_word_eqI) (auto simp: be16_def bytes16_def bit_simps)

lemma be32_bytes32: "be32 (bytes32 w ! 0) (bytes32 w ! 1) (bytes32 w ! 2) (bytes32 w ! 3) = w"
proof (rule bit_word_eqI)
  fix n assume "n < LENGTH(32)"
  then have "n < 8 \<or> 8 \<le> n \<and> n < 16 \<or> 16 \<le> n \<and> n < 24 \<or> 24 \<le> n \<and> n < 32" by auto
  then show "bit (be32 (bytes32 w ! 0) (bytes32 w ! 1) (bytes32 w ! 2) (bytes32 w ! 3)) n = bit w n"
    by (elim disjE) (auto simp: be32_def bytes32_def bit_simps)
qed

lemma uint_u8_bounds: "0 \<le> uint (b :: u8)" "uint (b :: u8) < 256"
  using uint_lt2p [of b] by auto

lemma uint_u16_bounds: "0 \<le> uint (w :: u16)" "uint (w :: u16) < 65536"
  using uint_lt2p [of w] by auto

lemma be32_zero_iff: "be32 a b c d = 0 \<longleftrightarrow> a = 0 \<and> b = 0 \<and> c = 0 \<and> d = 0"
proof
  assume h: "be32 a b c d = 0"
  have z: "\<not> bit (be32 a b c d) n" for n
    using h by simp
  have "\<not> bit a n" for n
    using z [of "n + 24"] by (auto simp: be32_def bit_simps dest: bit_imp_le_length)
  moreover have "\<not> bit b n" for n
    using z [of "n + 16"] by (auto simp: be32_def bit_simps dest: bit_imp_le_length)
  moreover have "\<not> bit c n" for n
    using z [of "n + 8"] by (auto simp: be32_def bit_simps dest: bit_imp_le_length)
  moreover have "\<not> bit d n" for n
    using z [of n] by (auto simp: be32_def bit_simps dest: bit_imp_le_length)
  ultimately show "a = 0 \<and> b = 0 \<and> c = 0 \<and> d = 0"
    by (auto intro!: bit_word_eqI)
qed (simp add: be32_def)

lemma upt_split: "i \<le> j \<Longrightarrow> j \<le> k \<Longrightarrow> [i..<k] = [i..<j] @ [j..<k]"
  by (metis le_Suc_ex upt_add_eq_append)

section \<open>Running a step function\<close>

text \<open>
  A machine consumes one input at a time, and each step yields an output and the next
  state. Several components are such machines: the telnet decoder, the password prompt
  and the accept loop of the daemon.
\<close>

fun run :: "('s \<Rightarrow> 'i \<Rightarrow> 'o \<times> 's) \<Rightarrow> 's \<Rightarrow> 'i list \<Rightarrow> 'o list \<times> 's" where
  "run step s [] = ([], s)"
| "run step s (i # is) =
     (let (out, s') = step s i; (os, t) = run step s' is in (out # os, t))"

lemma run_append:
  "run step s (xs @ ys) =
     (let (os, t) = run step s xs; (os', u) = run step t ys in (os @ os', u))"
  by (induction xs arbitrary: s) (simp_all add: Let_def split_beta)

lemma length_run [simp]: "length (fst (run step s is)) = length is"
  by (induction "is" arbitrary: s) (simp_all add: Let_def split_beta)

locale machine =
  fixes step :: "'s \<Rightarrow> 'i \<Rightarrow> 'o \<times> 's"
    and inv :: "'s \<Rightarrow> bool"
  assumes step_inv: "inv s \<Longrightarrow> inv (snd (step s i))"
begin

lemma run_inv: "inv s \<Longrightarrow> inv (snd (run step s is))"
  by (induction "is" arbitrary: s) (simp_all add: Let_def split_beta step_inv)

text \<open>Every state a run passes through satisfies the invariant.\<close>

lemma run_prefix_inv: "inv s \<Longrightarrow> is = xs @ ys \<Longrightarrow> inv (snd (run step s xs))"
  by (simp add: run_inv)

end

text \<open>
  A machine that simulates an abstract machine through an abstraction function, on every
  state of its invariant and every input the abstract side admits in its state.
\<close>

fun admits :: "('a \<Rightarrow> 'i \<Rightarrow> bool) \<Rightarrow> ('a \<Rightarrow> 'i \<Rightarrow> 'p \<times> 'a) \<Rightarrow> 'a \<Rightarrow> 'i list \<Rightarrow> bool" where
  "admits ok astep a [] = True"
| "admits ok astep a (i # is) = (ok a i \<and> admits ok astep (snd (astep a i)) is)"

locale refined_machine = machine step inv
  for step :: "'s \<Rightarrow> 'i \<Rightarrow> 'o \<times> 's" and inv :: "'s \<Rightarrow> bool" +
  fixes astep :: "'a \<Rightarrow> 'i \<Rightarrow> 'p \<times> 'a"
    and ok :: "'a \<Rightarrow> 'i \<Rightarrow> bool"
    and abs :: "'s \<Rightarrow> 'a"
    and aout :: "'o \<Rightarrow> 'p"
  assumes simulates: "inv s \<Longrightarrow> ok (abs s) i \<Longrightarrow>
    astep (abs s) i = (aout (fst (step s i)), abs (snd (step s i)))"
begin

lemma run_simulates:
  "inv s \<Longrightarrow> admits ok astep (abs s) is \<Longrightarrow>
     run astep (abs s) is = (map aout (fst (run step s is)), abs (snd (run step s is)))"
proof (induction "is" arbitrary: s)
  case Nil
  then show ?case by simp
next
  case (Cons i "is")
  from Cons.prems have "inv (snd (step s i))" by (simp add: step_inv)
  from Cons.IH [OF this] Cons.prems simulates [of s i] show ?case
    by (simp add: Let_def split_beta)
qed

end

section \<open>Masks\<close>

text \<open>
  The loops of the sources that set bits one at a time are folds that OR a mask into an
  accumulator under a condition; the bit lemma below reads such a fold.
\<close>

definition or_masks :: "('i \<Rightarrow> bool) \<Rightarrow> ('i \<Rightarrow> 'a::len word) \<Rightarrow> 'i list \<Rightarrow> 'a word \<Rightarrow> 'a word" where
  "or_masks P m xs a = fold (\<lambda>j acc. if P j then acc OR m j else acc) xs a"

lemma or_masks_Nil [simp]: "or_masks P m [] a = a"
  by (simp add: or_masks_def)

lemma or_masks_Cons [simp]:
  "or_masks P m (x # xs) a = or_masks P m xs (if P x then a OR m x else a)"
  by (simp add: or_masks_def)

lemma bit_or_masks [mask_simps]:
  "bit (or_masks P m xs a) n \<longleftrightarrow> bit a n \<or> (\<exists>j \<in> set xs. P j \<and> bit (m j) n)"
  by (induction xs arbitrary: a) (auto simp: bit_simps)

section \<open>Alignment\<close>

lemma align_down: "uint ((w :: u32) AND NOT (mask n)) = uint w - uint w mod 2 ^ n"
proof -
  have self: "take_bit 32 (uint w) = uint w"
    using uint_lt2p [of w] by (intro take_bit_int_eq_self) simp_all
  have "w AND NOT (mask n) = push_bit n (drop_bit n w)"
    by (rule bit_word_eqI) (auto simp: bit_simps)
  moreover have "uint (push_bit n (drop_bit n w)) = take_bit 32 (push_bit n (drop_bit n (uint w)))"
    by (simp add: unsigned_push_bit_eq unsigned_drop_bit_eq take_bit_push_bit self)
  moreover have "push_bit n (drop_bit n (uint w)) = uint w - uint w mod 2 ^ n"
    by (simp add: push_bit_eq_mult drop_bit_eq_div minus_mod_eq_div_mult)
  moreover have "take_bit 32 (uint w - uint w mod 2 ^ n) = uint w - uint w mod 2 ^ n"
  proof (rule take_bit_int_eq_self)
    have "0 \<le> uint w mod 2 ^ n" by simp
    moreover have "uint w < 2 ^ 32" using uint_lt2p [of w] by simp
    ultimately show "uint w - uint w mod 2 ^ n < 2 ^ 32" by linarith
  qed (simp add: zmod_le_nonneg_dividend)
  ultimately show ?thesis by simp
qed

lemma align_16: "uint ((w :: u32) AND NOT 15) = uint w - uint w mod 16"
  using align_down [of w 4] by (simp add: mask_eq_exp_minus_1)

lemma align_32: "uint ((w :: u32) AND NOT 31) = uint w - uint w mod 32"
  using align_down [of w 5] by (simp add: mask_eq_exp_minus_1)

lemma uint_u32_bounds: "0 \<le> uint (w :: u32)" "uint (w :: u32) < 2 ^ 32"
  using uint_lt2p [of w] by auto

lemma uint_plus_u32: "uint (a :: u32) + uint b < 2 ^ 32 \<Longrightarrow> uint (a + b) = uint a + uint b"
  using uint_u32_bounds [of a] uint_u32_bounds [of b] by (simp add: uint_word_ariths)

lemma unat_u32_bound: "unat (w :: u32) < 2 ^ 32"
  using unsigned_less [of w] by simp

lemma unat_plus_1: "(p :: u32) < e \<Longrightarrow> unat (p + 1) = Suc (unat p)"
  using unat_u32_bound [of e] by (simp add: unat_word_ariths word_less_nat_alt)

lemma unat_plus_nat: "unat (b :: u32) + n < 2 ^ 32 \<Longrightarrow> unat (b + word_of_nat n) = unat b + n"
  by (simp add: unat_word_ariths unsigned_of_nat take_bit_eq_mod)

section \<open>C strings\<close>

text \<open>
  A C string is the list of its bytes before the terminating zero. \<open>c_char s i\<close> reads the
  byte at index \<open>i\<close>, the terminator included.
\<close>

type_synonym cstring = "u8 list"

definition c_char :: "cstring \<Rightarrow> nat \<Rightarrow> u8" where
  "c_char s i = (if i < length s then s ! i else 0)"

definition cstring_ok :: "cstring \<Rightarrow> bool" where
  "cstring_ok s \<longleftrightarrow> 0 \<notin> set s"

definition of_string :: "string \<Rightarrow> cstring" where
  "of_string s = map (\<lambda>c. word_of_nat (of_char c)) s"

lemma c_char_Nil [simp]: "c_char [] i = 0"
  by (simp add: c_char_def)

lemma c_char_0_Cons [simp]: "c_char (c # s) 0 = c"
  by (simp add: c_char_def)

lemma length_of_string [simp]: "length (of_string s) = length s"
  by (simp add: of_string_def)

end
