(* ===== verification/Pty.thy ===== *)
theory Pty
  imports Prelude
begin

unbundle bit_operations_syntax

text \<open>
  The pseudo-terminal driver of the telnet daemon, \<^verbatim>\<open>telnetd/pty.c\<close>.

  The state is the static data of the file: the table \<open>telnet_ptys\<close> of \<open>MAX_PTYS\<close>
  slots, the flag \<open>telnet_pty_inited\<close>, and the termios control blocks the slots point
  to. Every function of the file that reads or changes that state is a definition here.
  The results of the system calls a function makes (the byte a \<open>read()\<close> delivered,
  whether \<open>rtems_io_register_name\<close> succeeded) are arguments of its definition; the
  calls whose results the source discards (\<open>write\<close> of a reply, \<open>close\<close>, \<open>chown\<close>) are
  collected in a trace of type \<open>sysop list\<close>, in the order the source makes them.

  The invariant of the driver and its slot accounting are in \<open>Pty_Slots\<close>, the properties of the byte
  machine in \<open>Pty_Protocol\<close>.
\<close>

section \<open>Data\<close>

abbreviation IAC_ESC :: u8 where "IAC_ESC \<equiv> 255"
abbreviation IAC_DONT :: u8 where "IAC_DONT \<equiv> 254"
abbreviation IAC_DO :: u8 where "IAC_DO \<equiv> 253"
abbreviation IAC_WONT :: u8 where "IAC_WONT \<equiv> 252"
abbreviation IAC_WILL :: u8 where "IAC_WILL \<equiv> 251"
abbreviation IAC_SB :: u8 where "IAC_SB \<equiv> 250"
abbreviation IAC_GA :: u8 where "IAC_GA \<equiv> 249"
abbreviation IAC_EL :: u8 where "IAC_EL \<equiv> 248"
abbreviation IAC_EC :: u8 where "IAC_EC \<equiv> 247"
abbreviation IAC_AYT :: u8 where "IAC_AYT \<equiv> 246"
abbreviation IAC_AO :: u8 where "IAC_AO \<equiv> 245"
abbreviation IAC_IP :: u8 where "IAC_IP \<equiv> 244"
abbreviation IAC_BRK :: u8 where "IAC_BRK \<equiv> 243"
abbreviation IAC_DMARK :: u8 where "IAC_DMARK \<equiv> 242"
abbreviation IAC_NOP :: u8 where "IAC_NOP \<equiv> 241"
abbreviation IAC_SE :: u8 where "IAC_SE \<equiv> 240"
abbreviation IAC_EOR :: u8 where "IAC_EOR \<equiv> 239"

abbreviation SB_MAX :: nat where "SB_MAX \<equiv> 16"
abbreviation MAX_PTYS :: nat where "MAX_PTYS \<equiv> 5"
  \<comment> \<open>defined as 8, then capped to 5 by the \<open>#if MAX_PTYS > 5\<close>\<close>

text \<open>
  The termios control block belongs to RTEMS; these are the members the driver touches.
\<close>

record rtems_termios_tty =
  cindex :: int
  ccount :: int
  c_cc_VEOF :: u8

text \<open>A pointer to the device name: null before the first initialisation, dangling after
  \<open>free\<close>.\<close>

datatype devptr = DevNull | DevName string | DevFreed

record pty_t =
  devname :: devptr
  ttyp :: "nat option"        \<comment> \<open>address of the termios block, \<open>None\<close> for \<open>NULL\<close>\<close>
  c_cflag :: u32
  opened :: bool
  socket :: int
  last_cr :: bool
  iac_mode :: u32
  sb_buf :: "u8 list"         \<comment> \<open>\<open>SB_MAX\<close> bytes\<close>
  sb_ind :: nat
  width :: int
  height :: int

record driver =
  telnet_pty_inited :: bool
  telnet_ptys :: "pty_t list"                     \<comment> \<open>\<open>MAX_PTYS\<close> slots\<close>
  ttys :: "nat \<Rightarrow> rtems_termios_tty"               \<comment> \<open>the termios blocks, by address\<close>

datatype sysop =
    Close int
  | Set_rcvtimeo int int       \<comment> \<open>socket, seconds\<close>
  | Write int "u8 list"
  | Chmod devptr
  | Chown devptr
  | Unlink devptr
  | Unregister_driver

text \<open>What a one-byte \<open>read()\<close> from the socket returns.\<close>

datatype rd = Rd_err | Rd_eof | Rd_byte u8

section \<open>Slots\<close>

definition pty_at :: "int \<Rightarrow> driver \<Rightarrow> pty_t res" where
  \<comment> \<open>\<open>telnet_ptys[minor]\<close>\<close>
  "pty_at minor d =
     (if 0 \<le> minor \<and> nat minor < length (telnet_ptys d)
      then Inr (telnet_ptys d ! nat minor) else Inl OutOfBounds)"

definition set_pty :: "int \<Rightarrow> pty_t \<Rightarrow> driver \<Rightarrow> driver" where
  "set_pty minor p d = d\<lparr>telnet_ptys := (telnet_ptys d)[nat minor := p]\<rparr>"

fun find_free :: "nat \<Rightarrow> pty_t list \<Rightarrow> nat option" where
  \<comment> \<open>the search loop of \<open>telnet_get_pty\<close>\<close>
  "find_free ndx [] = None"
| "find_free ndx (p # ps) = (if socket p < 0 then Some ndx else find_free (Suc ndx) ps)"

definition telnet_get_pty :: "int \<Rightarrow> driver \<Rightarrow> devptr option \<times> sysop list \<times> driver" where
  "telnet_get_pty sock d =
     (case (if telnet_pty_inited d then find_free 0 (telnet_ptys d) else None) of
        Some ndx \<Rightarrow>
          (let p = telnet_ptys d ! ndx in
           (Some (devname p), [Set_rcvtimeo sock 2],
            set_pty (int ndx) (p\<lparr>socket := sock\<rparr>) d))
      | None \<Rightarrow> (None, [Close sock], d))"

section \<open>The telnet byte machine\<close>

definition IAC_AYT_RSP :: "u8 list" where
  "IAC_AYT_RSP = [13, 10] @ of_string ''AYT? Yes, RTEMS-SHELL is here'' @ [13, 10]"

definition IAC_BRK_RSP :: "u8 list" where
  "IAC_BRK_RSP = of_string ''<*Break*>''"

definition IAC_IP_RSP :: "u8 list" where
  "IAC_IP_RSP = of_string ''<*Interrupt*>''"

definition send_iac :: "pty_t \<Rightarrow> u8 \<Rightarrow> u8 \<Rightarrow> sysop" where
  "send_iac p mode option = Write (socket p) [IAC_ESC, mode, option]"

definition handleSB :: "pty_t \<Rightarrow> pty_t" where
  "handleSB p =
     (if sb_buf p ! 0 = 31 \<comment> \<open>NAWS\<close>
      then p\<lparr>width := uint (sb_buf p ! 1) * 256 + uint (sb_buf p ! 2),
              height := uint (sb_buf p ! 3) * 256 + uint (sb_buf p ! 4)\<rparr>
      else p)"

text \<open>
  \<open>read_pty\<close> after a byte was read. The state \<open>p\<close> of the case functions already has
  \<open>iac_mode\<close> reset to 0, and \<open>omod\<close> is its value before.
\<close>

definition read_pty_esc :: "pty_t \<Rightarrow> u32 \<Rightarrow> u8 \<Rightarrow> int \<times> sysop list \<times> pty_t" where
  "read_pty_esc p omod value =
     (if value = IAC_ESC then (255, [], p\<lparr>iac_mode := drop_bit 8 omod\<rparr>)
      else if value \<in> {IAC_DONT, IAC_DO, IAC_WONT, IAC_WILL}
        then (-1, [], p\<lparr>iac_mode := ucast value\<rparr>)
      else if value = IAC_SB then (-100, [], p\<lparr>iac_mode := ucast value, sb_ind := 0\<rparr>)
      else if value = IAC_GA then (-1, [], p)
      else if value = IAC_EL then (3, [], p)
      else if value = IAC_EC then (8, [], p)
      else if value = IAC_AYT then (-1, [Write (socket p) IAC_AYT_RSP], p)
      else if value = IAC_AO then (-1, [], p)
      else if value = IAC_IP then (-1, [Write (socket p) IAC_IP_RSP], p)
      else if value = IAC_BRK then (-1, [Write (socket p) IAC_BRK_RSP], p)
      else if value = IAC_DMARK then (-2, [], p)
      else if value = IAC_NOP then (-1, [], p)
      else if value = IAC_SE then (-101, [], handleSB p)
      else if value = IAC_EOR then (-102, [], p)
      else (-1, [], p))"

definition sb_store :: "u8 \<Rightarrow> pty_t \<Rightarrow> pty_t res" where
  \<comment> \<open>\<open>pty->sb_buf[pty->sb_ind++] = value\<close>\<close>
  "sb_store value p =
     (if sb_ind p < length (sb_buf p)
      then Inr (p\<lparr>sb_buf := (sb_buf p)[sb_ind p := value], sb_ind := Suc (sb_ind p)\<rparr>)
      else Inl OutOfBounds)"

definition read_pty_sb :: "pty_t \<Rightarrow> u32 \<Rightarrow> u8 \<Rightarrow> (int \<times> sysop list \<times> pty_t) res" where
  "read_pty_sb p omod value =
     (let p = p\<lparr>iac_mode := omod\<rparr> in
      if value = IAC_ESC then Inr (-1, [], p\<lparr>iac_mode := push_bit 8 omod OR ucast value\<rparr>)
      else if sb_ind p < SB_MAX then (case sb_store value p of Inl e \<Rightarrow> Inl e | Inr p \<Rightarrow> Inr (-1, [], p))
      else Inr (-1, [], p))"

definition read_pty_will :: "pty_t \<Rightarrow> u8 \<Rightarrow> int \<times> sysop list \<times> pty_t" where
  "read_pty_will p value =
     (-1,
      (if value = 34 then [send_iac p IAC_DONT 34, send_iac p IAC_DO 1]
       else if value = 31 then [send_iac p IAC_DO 31]
       else [send_iac p IAC_DONT value]), p)"

definition read_pty_do :: "pty_t \<Rightarrow> u8 \<Rightarrow> int \<times> sysop list \<times> pty_t" where
  "read_pty_do p value =
     (-1,
      (if value = 3 then [send_iac p IAC_WILL 3]
       else if value = 1 then []
       else [send_iac p IAC_WONT value]), p)"

definition read_pty_wont :: "pty_t \<Rightarrow> u8 \<Rightarrow> int \<times> sysop list \<times> pty_t" where
  "read_pty_wont p value =
     (-1, [if value = 1 then send_iac p IAC_WILL 1 else send_iac p IAC_WONT value], p)"

definition read_pty_data :: "pty_t \<Rightarrow> u8 \<Rightarrow> int \<times> sysop list \<times> pty_t" where
  "read_pty_data p value =
     (if value = IAC_ESC then (-1, [], p\<lparr>iac_mode := ucast value\<rparr>)
      else (if value = 0 \<and> last_cr p then -1 else uint value, [],
            p\<lparr>last_cr := (value = 13)\<rparr>))"

definition read_pty_byte :: "pty_t \<Rightarrow> u8 \<Rightarrow> (int \<times> sysop list \<times> pty_t) res" where
  "read_pty_byte p value =
     (let omod = iac_mode p; p = p\<lparr>iac_mode := 0\<rparr>; m = omod AND 0xff in
      if m = ucast IAC_ESC then Inr (read_pty_esc p omod value)
      else if m = ucast IAC_SB then read_pty_sb p omod value
      else if m = ucast IAC_WILL then Inr (read_pty_will p value)
      else if m = ucast IAC_DONT then Inr (-1, [], p)
      else if m = ucast IAC_DO then Inr (read_pty_do p value)
      else if m = ucast IAC_WONT then Inr (read_pty_wont p value)
      else Inr (read_pty_data p value))"

definition read_pty :: "int \<Rightarrow> rd \<Rightarrow> driver \<Rightarrow> (int \<times> sysop list \<times> driver) res" where
  "read_pty minor r d =
     (case pty_at minor d of Inl e \<Rightarrow> Inl e | Inr p \<Rightarrow>
        (case r of
           Rd_err \<Rightarrow> Inr (-1, [], d)
         | Rd_eof \<Rightarrow>
             (case ttyp p of None \<Rightarrow> Inl NullDeref | Some a \<Rightarrow>
                (let t = ttys d a in
                 Inr (uint (c_cc_VEOF t), [],
                      d\<lparr>ttys := (ttys d)(a := t\<lparr>cindex := ccount t + 1\<rparr>)\<rparr>)))
         | Rd_byte value \<Rightarrow>
             (case read_pty_byte p value of Inl e \<Rightarrow> Inl e
              | Inr (result, ops, p') \<Rightarrow> Inr (result, ops, set_pty minor p' d))))"

section \<open>The termios callbacks\<close>

definition ptySetAttributes :: "int \<Rightarrow> u32 \<Rightarrow> driver \<Rightarrow> (int \<times> driver) res" where
  "ptySetAttributes minor cflag d =
     (if minor < int MAX_PTYS then
        (case pty_at minor d of Inl e \<Rightarrow> Inl e | Inr p \<Rightarrow>
           Inr (0, set_pty minor (p\<lparr>c_cflag := cflag\<rparr>) d))
      else Inr (-1, d))"

definition ptyPollInitialize ::
  "int \<Rightarrow> nat \<Rightarrow> u32 \<Rightarrow> driver \<Rightarrow> (int \<times> driver) res" where
  \<comment> \<open>\<open>tty\<close> is \<open>args->iop->data1\<close>; \<open>dflt\<close> is \<open>B9600|CS8\<close>\<close>
  "ptyPollInitialize minor tty dflt d =
     (if minor < int MAX_PTYS then
        (case pty_at minor d of Inl e \<Rightarrow> Inl e | Inr p \<Rightarrow>
           (if socket p < 0 then Inr (-1, d)
            else ptySetAttributes minor dflt
                   (set_pty minor (p\<lparr>opened := True, ttyp := Some tty, iac_mode := 0,
                                     sb_ind := 0, width := 0, height := 0\<rparr>) d)))
      else Inr (-1, d))"

definition ptyShutdown :: "int \<Rightarrow> driver \<Rightarrow> (int \<times> sysop list \<times> driver) res" where
  "ptyShutdown minor d =
     (if minor < int MAX_PTYS then
        (case pty_at minor d of Inl e \<Rightarrow> Inl e | Inr p \<Rightarrow>
           Inr (0, (if 0 \<le> socket p then [Close (socket p)] else []) @ [Chown (devname p)],
                set_pty minor (p\<lparr>opened := False, socket := -1\<rparr>) d))
      else Inr (-1, [], d))"

definition ptyPollWrite ::
  "int \<Rightarrow> u8 list \<Rightarrow> int \<Rightarrow> driver \<Rightarrow> (int \<times> sysop list) res" where
  \<comment> \<open>\<open>written\<close> is what \<open>write()\<close> returns\<close>
  "ptyPollWrite minor buf written d =
     (if minor < int MAX_PTYS then
        (case pty_at minor d of Inl e \<Rightarrow> Inl e | Inr p \<Rightarrow>
           (if socket p < 0 then Inr (-1, []) else Inr (written, [Write (socket p) buf])))
      else Inr (-1, []))"

definition ptyPollRead :: "int \<Rightarrow> rd \<Rightarrow> driver \<Rightarrow> (int \<times> sysop list \<times> driver) res" where
  "ptyPollRead minor r d =
     (if minor < int MAX_PTYS then
        (case pty_at minor d of Inl e \<Rightarrow> Inl e | Inr p \<Rightarrow>
           (if socket p < 0 then Inr (-1, [], d) else read_pty minor r d))
      else Inr (-1, [], d))"

section \<open>Driver initialisation, finalisation and control\<close>

definition hex_digit :: "nat \<Rightarrow> char" where
  \<comment> \<open>\<open>sprintf("%X")\<close> of a one-digit number\<close>
  "hex_digit n = (if n < 10 then char_of (48 + n) else char_of (55 + n))"

definition dev_name :: "nat \<Rightarrow> devptr" where
  "dev_name ndx = DevName (''/dev/pty'' @ [hex_digit ndx])"

definition init_slot :: "u32 \<Rightarrow> nat \<Rightarrow> pty_t \<Rightarrow> pty_t" where
  "init_slot dflt ndx p =
     p\<lparr>devname := dev_name ndx, ttyp := None, c_cflag := dflt, socket := -1,
       opened := False, sb_ind := 0, width := 0, height := 0\<rparr>"

definition init_slots :: "u32 \<Rightarrow> driver \<Rightarrow> driver" where
  "init_slots dflt d =
     d\<lparr>telnet_ptys := map (\<lambda>(ndx, p). init_slot dflt ndx p)
                          (zip [0..<MAX_PTYS] (telnet_ptys d))\<rparr>"

definition my_pty_initialize ::
  "u32 \<Rightarrow> (nat \<Rightarrow> bool) \<Rightarrow> (nat \<Rightarrow> bool) \<Rightarrow> driver \<Rightarrow> (sysop list \<times> driver) res" where
  \<comment> \<open>\<open>mem n\<close>: the \<open>n\<close>-th \<open>malloc\<close> succeeds; \<open>reg n\<close>: registering the \<open>n\<close>-th name does\<close>
  "my_pty_initialize dflt mem reg d =
     (if \<not> list_all mem [0..<MAX_PTYS] then Inl NullDeref
      else if \<not> list_all reg [0..<MAX_PTYS] then Inl Fatal
      else Inr (concat (map (\<lambda>ndx. [Chmod (dev_name ndx), Chown (dev_name ndx)]) [0..<MAX_PTYS]),
                init_slots dflt d))"

definition free_name :: "(nat \<Rightarrow> bool) \<Rightarrow> nat \<Rightarrow> pty_t \<Rightarrow> pty_t" where
  "free_name unlinked ndx p = (if unlinked ndx then p\<lparr>devname := DevFreed\<rparr> else p)"

definition pty_do_finalize ::
  "bool \<Rightarrow> (nat \<Rightarrow> bool) \<Rightarrow> driver \<Rightarrow> int \<times> sysop list \<times> driver" where
  \<comment> \<open>\<open>unreg\<close>: \<open>rtems_io_unregister_driver\<close> succeeds; \<open>unlinked n\<close>: the \<open>n\<close>-th \<open>unlink\<close> does\<close>
  "pty_do_finalize unreg unlinked d =
     (if \<not> telnet_pty_inited d then (0, [], d)
      else if list_ex opened (telnet_ptys d) then (-1, [], d)
      else if \<not> unreg then (-1, [Unregister_driver], d)
      else (0, Unregister_driver # map (\<lambda>p. Unlink (devname p)) (telnet_ptys d),
            d\<lparr>telnet_ptys := map (\<lambda>(ndx, p). free_name unlinked ndx p)
                                  (zip [0..<MAX_PTYS] (telnet_ptys d)),
              telnet_pty_inited := False\<rparr>))"

definition pty_do_initialize :: "(driver \<Rightarrow> bool \<times> driver) \<Rightarrow> driver \<Rightarrow> bool \<times> driver" where
  \<comment> \<open>\<open>register\<close> is \<open>rtems_io_register_driver(0, &drvPty, &pty_major)\<close>\<close>
  "pty_do_initialize register d =
     (if telnet_pty_inited d then (True, d)
      else (let (ok, d') = register d in
            if ok then (True, d'\<lparr>telnet_pty_inited := True\<rparr>)
            else (telnet_pty_inited d', d')))"

datatype ioctl_cmd = TIOCGWINSZ | TIOCSWINSZ u16 u16 | Ioctl_other
  \<comment> \<open>the window size is given as rows, columns\<close>

datatype ioctl_res = Winsize u16 u16 | Ioctl_done | Termios_ioctl
  \<comment> \<open>\<open>Termios_ioctl\<close>: delegated to \<open>rtems_termios_ioctl\<close>\<close>

definition my_pty_control :: "u32 \<Rightarrow> ioctl_cmd \<Rightarrow> driver \<Rightarrow> (ioctl_res \<times> driver) res" where
  "my_pty_control minor cmd d =
     (case cmd of
        TIOCGWINSZ \<Rightarrow>
          (case pty_at (uint minor) d of Inl e \<Rightarrow> Inl e | Inr p \<Rightarrow>
             Inr (Winsize (word_of_int (height p)) (word_of_int (width p)), d))
      | TIOCSWINSZ row col \<Rightarrow>
          (case pty_at (uint minor) d of Inl e \<Rightarrow> Inl e | Inr p \<Rightarrow>
             Inr (Ioctl_done, set_pty (uint minor) (p\<lparr>height := uint row, width := uint col\<rparr>) d))
      | Ioctl_other \<Rightarrow> Inr (Termios_ioctl, d))"

section \<open>The driver as a state machine\<close>

text \<open>
  The static data at program start: all zero, so no slot is free (\<open>socket\<close> is 0) until
  the driver is registered.
\<close>

definition zero_pty :: pty_t where
  "zero_pty = \<lparr>devname = DevNull, ttyp = None, c_cflag = 0, opened = False, socket = 0,
     last_cr = False, iac_mode = 0, sb_buf = replicate SB_MAX 0, sb_ind = 0,
     width = 0, height = 0\<rparr>"

definition zero_driver :: "(nat \<Rightarrow> rtems_termios_tty) \<Rightarrow> driver" where
  "zero_driver ts = \<lparr>telnet_pty_inited = False, telnet_ptys = replicate MAX_PTYS zero_pty, ttys = ts\<rparr>"

definition slot_opened :: "int \<Rightarrow> driver \<Rightarrow> bool" where
  "slot_opened minor d \<longleftrightarrow> (case pty_at minor d of Inl e \<Rightarrow> False | Inr p \<Rightarrow> opened p)"

text \<open>
  One rule per entry point. The premises are what RTEMS guarantees of its callers: the
  registration runs the driver's own initialisation routine, \<open>accept()\<close> yields a
  non-negative descriptor, a minor number names a slot, a device can be opened only while
  the driver is registered, and termios polls a device only
  between its first open and its last close. Termios may change its blocks at any time.
\<close>

inductive pty_step :: "driver \<Rightarrow> driver \<Rightarrow> bool" where
  initialize: "register d = (True, d1) \<Longrightarrow> my_pty_initialize dflt mem reg d = Inr (ops, d1) \<Longrightarrow>
     pty_do_initialize register d = (ok, d') \<Longrightarrow> pty_step d d'"
| register_fails: "register d = (False, d) \<Longrightarrow>
     pty_do_initialize register d = (ok, d') \<Longrightarrow> pty_step d d'"
| finalize: "pty_do_finalize unreg unlinked d = (r, ops, d') \<Longrightarrow> pty_step d d'"
| get_pty: "0 \<le> sock \<Longrightarrow> telnet_get_pty sock d = (nm, ops, d') \<Longrightarrow> pty_step d d'"
| first_open: "telnet_pty_inited d \<Longrightarrow> 0 \<le> minor \<Longrightarrow> ptyPollInitialize minor tty dflt d = Inr (r, d') \<Longrightarrow> pty_step d d'"
| set_attributes: "0 \<le> minor \<Longrightarrow> ptySetAttributes minor cflag d = Inr (r, d') \<Longrightarrow> pty_step d d'"
| poll_read: "slot_opened minor d \<Longrightarrow> ptyPollRead minor rd d = Inr (r, ops, d') \<Longrightarrow> pty_step d d'"
| last_close: "0 \<le> minor \<Longrightarrow> ptyShutdown minor d = Inr (r, ops, d') \<Longrightarrow> pty_step d d'"
| control: "unat minor < MAX_PTYS \<Longrightarrow> my_pty_control minor cmd d = Inr (res, d') \<Longrightarrow> pty_step d d'"
| termios: "pty_step d (d\<lparr>ttys := ts\<rparr>)"

inductive pty_reach :: "driver \<Rightarrow> bool" where
  start: "pty_reach (zero_driver ts)"
| step: "pty_reach d \<Longrightarrow> pty_step d d' \<Longrightarrow> pty_reach d'"

end
