(* ===== verification/Interfaces.thy ===== *)
theory Interfaces
  imports Prelude
begin

text \<open>
  The contracts between components, as locales.

  \<^item> \<open>slot_pool\<close>: a fixed set of handles, each free or holding a resource; what the
    pty driver promises the telnet daemon about its slots;
  \<^item> \<open>feistel\<close>: a round function combined by a self-cancelling operation; all that
    decryption needs to know about the DES round function;
  \<^item> \<open>discipline\<close>: which traces of events take and give back semaphores, or the right to be
    dispatched, in the proper order; what the utilities that enter the kernel promise.
\<close>

section \<open>A pool of slots\<close>

locale slot_pool =
  fixes alloc :: "'r \<Rightarrow> 'd \<Rightarrow> 'h option \<times> 'd"
    and release :: "'h \<Rightarrow> 'd \<Rightarrow> 'd"
    and held :: "'d \<Rightarrow> 'h \<Rightarrow> 'r option"
    and handles :: "'h set"
    and valid :: "'r \<Rightarrow> bool"
    and inv :: "'d \<Rightarrow> bool"
  assumes finite_handles: "finite handles"
    and held_handles: "inv d \<Longrightarrow> dom (held d) \<subseteq> handles"
    and alloc_Some: "inv d \<Longrightarrow> valid r \<Longrightarrow> alloc r d = (Some h, d') \<Longrightarrow>
      h \<in> handles \<and> held d h = None \<and> held d' = (held d)(h \<mapsto> r) \<and> inv d'"
    and alloc_None: "inv d \<Longrightarrow> valid r \<Longrightarrow> alloc r d = (None, d') \<Longrightarrow>
      d' = d \<and> dom (held d) = handles"
    and release: "inv d \<Longrightarrow> h \<in> handles \<Longrightarrow>
      held (release h d) = (held d)(h := None) \<and> inv (release h d)"
begin

lemma alloc_fails_iff_full:
  assumes "inv d" and "valid r"
  shows "fst (alloc r d) = None \<longleftrightarrow> dom (held d) = handles"
proof
  assume "fst (alloc r d) = None"
  then have "alloc r d = (None, snd (alloc r d))" by (simp add: prod_eq_iff)
  with assms alloc_None show "dom (held d) = handles" by blast
next
  assume full: "dom (held d) = handles"
  show "fst (alloc r d) = None"
  proof (rule ccontr)
    assume "fst (alloc r d) \<noteq> None"
    then obtain h where "alloc r d = (Some h, snd (alloc r d))" by (auto simp: prod_eq_iff)
    with assms alloc_Some have "h \<in> handles" "held d h = None" by blast+
    with full show False by blast
  qed
qed

lemma alloc_release:
  assumes "inv d" and "valid r" and "alloc r d = (Some h, d')"
  shows "held (release h d') = held d"
  using alloc_Some [OF assms] release [of d' h] by auto

lemma release_then_alloc:
  assumes "inv d" and "valid r" and "h \<in> handles"
  shows "fst (alloc r (release h d)) \<noteq> None"
proof -
  from release [OF assms(1,3)] have "inv (release h d)" "h \<notin> dom (held (release h d))"
    by auto
  with assms alloc_fails_iff_full show ?thesis by blast
qed

text \<open>No resource is ever in two slots, provided fresh ones are handed in.\<close>

lemma alloc_injective:
  assumes "inv d" and "valid r" and "alloc r d = (Some h, d')"
    and "inj_on (held d) (dom (held d))" and "r \<notin> ran (held d)"
  shows "inj_on (held d') (dom (held d'))"
  using alloc_Some [OF assms(1-3)] assms(4,5)
  by (auto simp: inj_on_def ran_def dom_def split: if_splits)

lemma held_le_capacity: "inv d \<Longrightarrow> card (dom (held d)) \<le> card handles"
  by (rule card_mono [OF finite_handles held_handles])

lemma alloc_card:
  assumes "inv d" and "valid r" and "alloc r d = (Some h, d')"
  shows "card (dom (held d')) = Suc (card (dom (held d)))"
proof -
  note a = alloc_Some [OF assms]
  from assms(1) have "finite (dom (held d))"
    using held_handles finite_handles by (blast intro: finite_subset)
  with a show ?thesis by (simp add: card_insert_disjoint domIff)
qed

end

section \<open>Feistel networks\<close>

locale feistel =
  fixes f :: "'k \<Rightarrow> 'w \<Rightarrow> 'w"
    and mix :: "'w \<Rightarrow> 'w \<Rightarrow> 'w"
  assumes mix_cancel: "mix x (mix x y) = y"
begin

definition round where
  "round k lr = (snd lr, mix (f k (snd lr)) (fst lr))"

definition rounds where
  "rounds ks lr = prod.swap (fold round ks lr)"

lemma round_swap_round: "round k (prod.swap (round k lr)) = prod.swap lr"
  by (cases lr) (simp add: round_def mix_cancel)

lemma rounds_rev: "rounds (rev ks) (rounds ks lr) = lr"
proof (induction ks arbitrary: lr)
  case Nil
  show ?case by (simp add: rounds_def)
next
  case (Cons k ks)
  have "fold round (rev ks) (prod.swap (fold round ks (round k lr))) = prod.swap (round k lr)"
    using Cons.IH [of "round k lr"] by (simp add: rounds_def prod_eq_iff)
  then show ?case
    by (simp add: rounds_def round_swap_round)
qed

lemma rounds_pow_rev: "(rounds (rev ks) ^^ n) ((rounds ks ^^ n) lr) = lr"
proof (induction n arbitrary: lr)
  case 0
  show ?case by simp
next
  case (Suc n)
  have "(rounds ks ^^ Suc n) lr = rounds ks ((rounds ks ^^ n) lr)" by simp
  moreover have "(rounds (rev ks) ^^ Suc n) x = (rounds (rev ks) ^^ n) (rounds (rev ks) x)" for x
    by (simp only: funpow_Suc_right o_apply)
  ultimately show ?case by (simp only: rounds_rev Suc.IH)
qed

end

section \<open>Locking disciplines\<close>

primrec accept :: "('e \<Rightarrow> 's \<Rightarrow> 's option) \<Rightarrow> 'e list \<Rightarrow> 's \<Rightarrow> 's option" where
  \<comment> \<open>the state a discipline reaches over a trace, \<open>None\<close> if the trace violates it\<close>
  "accept step [] s = Some s"
| "accept step (e # es) s = (case step e s of None \<Rightarrow> None | Some s' \<Rightarrow> accept step es s')"

locale discipline =
  fixes step :: "'e \<Rightarrow> 's \<Rightarrow> 's option"
    and idle :: 's
    and takes :: "'e \<Rightarrow> nat"
    and gives :: "'e \<Rightarrow> nat"
    and level :: "'s \<Rightarrow> nat"
  assumes idle_level: "level s = 0 \<longleftrightarrow> s = idle"
    and step_level: "step e s = Some s' \<Longrightarrow> level s' + gives e = level s + takes e"
begin

lemma accept_append: "accept step (xs @ ys) s = (case accept step xs s of None \<Rightarrow> None | Some s' \<Rightarrow> accept step ys s')"
  by (induction xs arbitrary: s) (auto split: option.splits)

lemma accept_idle_append:
  "accept step xs idle = Some idle \<Longrightarrow> accept step ys idle = Some idle \<Longrightarrow> accept step (xs @ ys) idle = Some idle"
  by (simp add: accept_append)

lemma accept_level:
  "accept step es s = Some s' \<Longrightarrow> level s' + sum_list (map gives es) = level s + sum_list (map takes es)"
proof (induction es arbitrary: s)
  case (Cons e es)
  then obtain u where u: "step e s = Some u" "accept step es u = Some s'" by (auto split: option.splits)
  show ?case using Cons.IH [OF u(2)] step_level [OF u(1)] by simp
qed simp

text \<open>A trace that keeps the discipline ends with everything given back exactly when it gives as much as it takes.\<close>

lemma accept_balanced:
  "accept step es idle = Some s \<Longrightarrow> s = idle \<longleftrightarrow> sum_list (map takes es) = sum_list (map gives es)"
  using accept_level [of es idle s] idle_level [of s] idle_level [of idle] by auto

end

end
