(* ===== verification/Pty_Slots.thy ===== *)
theory Pty_Slots
  imports Pty Interfaces
begin

unbundle bit_operations_syntax

text \<open>
  The driver invariant of \<^verbatim>\<open>telnetd/pty.c\<close>, its preservation by every entry point and
  hence in every reachable state, the absence of faults on an opened slot, and the slot
  table as an implementation of the \<open>slot_pool\<close> interface that the telnet daemon uses.
\<close>

section \<open>The invariant\<close>

definition valid_mode :: "u32 \<Rightarrow> bool" where
  \<comment> \<open>the values \<open>iac_mode\<close> takes: no command pending, after IAC, after a negotiation
    verb, in a subnegotiation, after IAC in a subnegotiation\<close>
  "valid_mode m \<longleftrightarrow> m \<in> {0, 255, 254, 253, 252, 251, 250, 0xfaff}"

definition decoder_wf :: "pty_t \<Rightarrow> bool" where
  "decoder_wf p \<longleftrightarrow> length (sb_buf p) = SB_MAX \<and> sb_ind p \<le> SB_MAX \<and> valid_mode (iac_mode p) \<and>
     0 \<le> width p \<and> width p < 65536 \<and> 0 \<le> height p \<and> height p < 65536"

definition slot_wf :: "pty_t \<Rightarrow> bool" where
  "slot_wf p \<longleftrightarrow> decoder_wf p \<and> (opened p \<longrightarrow> 0 \<le> socket p \<and> ttyp p \<noteq> None)"

definition driver_wf :: "driver \<Rightarrow> bool" where
  "driver_wf d \<longleftrightarrow> length (telnet_ptys d) = MAX_PTYS \<and> list_all slot_wf (telnet_ptys d) \<and>
     (\<not> telnet_pty_inited d \<longrightarrow> \<not> list_ex opened (telnet_ptys d))"

lemma pty_at_Inr [simp]:
  "pty_at minor d = Inr p \<longleftrightarrow>
     0 \<le> minor \<and> nat minor < length (telnet_ptys d) \<and> p = telnet_ptys d ! nat minor"
  by (auto simp: pty_at_def)

lemma pty_at_Inl [simp]:
  "pty_at minor d = Inl e \<longleftrightarrow>
     e = OutOfBounds \<and> \<not> (0 \<le> minor \<and> nat minor < length (telnet_ptys d))"
  by (auto simp: pty_at_def)

lemma driver_wf_length: "driver_wf d \<Longrightarrow> length (telnet_ptys d) = MAX_PTYS"
  by (simp add: driver_wf_def)

lemma driver_wf_slot: "driver_wf d \<Longrightarrow> n < MAX_PTYS \<Longrightarrow> slot_wf (telnet_ptys d ! n)"
  by (simp add: driver_wf_def list_all_length)

lemma driver_wf_opened: "driver_wf d \<Longrightarrow> n < MAX_PTYS \<Longrightarrow> opened (telnet_ptys d ! n) \<Longrightarrow>
    telnet_pty_inited d"
  by (auto simp: driver_wf_def list_ex_length)

lemma set_pty_simps [simp]:
  "telnet_pty_inited (set_pty minor p d) = telnet_pty_inited d"
  "ttys (set_pty minor p d) = ttys d"
  "telnet_ptys (set_pty minor p d) = (telnet_ptys d)[nat minor := p]"
  by (simp_all add: set_pty_def)

lemma driver_wf_set_pty [inv_intros]:
  assumes "driver_wf d" and "slot_wf p" and "opened p \<longrightarrow> telnet_pty_inited d"
  shows "driver_wf (set_pty minor p d)"
proof -
  have wf: "slot_wf x" and op: "opened x \<Longrightarrow> telnet_pty_inited d"
    if "x \<in> set ((telnet_ptys d)[nat minor := p])" for x
  proof -
    from that have "x = p \<or> x \<in> set (telnet_ptys d)"
      using set_update_subset_insert [of "telnet_ptys d" "nat minor" p] by blast
    with assms show "slot_wf x" "opened x \<Longrightarrow> telnet_pty_inited d"
      unfolding driver_wf_def list_all_iff list_ex_iff by blast+
  qed
  show ?thesis
    unfolding driver_wf_def list_all_iff list_ex_iff set_pty_simps length_list_update
    using driver_wf_length [OF assms(1)] wf op by blast
qed

section \<open>The decoder keeps it\<close>

lemma decoder_wf_mode: "decoder_wf p \<Longrightarrow> valid_mode m \<Longrightarrow> decoder_wf (p\<lparr>iac_mode := m\<rparr>)"
  by (simp add: decoder_wf_def)

lemma handleSB_bounds: "decoder_wf p \<Longrightarrow> decoder_wf (handleSB p)"
  using uint_u8_bounds [of "sb_buf p ! 1"] uint_u8_bounds [of "sb_buf p ! 2"]
    uint_u8_bounds [of "sb_buf p ! 3"] uint_u8_bounds [of "sb_buf p ! 4"]
  by (auto simp: handleSB_def decoder_wf_def)

lemma handleSB_frame [simp]:
  "opened (handleSB p) = opened p" "socket (handleSB p) = socket p" "ttyp (handleSB p) = ttyp p"
  "devname (handleSB p) = devname p" "iac_mode (handleSB p) = iac_mode p"
  "last_cr (handleSB p) = last_cr p" "sb_buf (handleSB p) = sb_buf p" "sb_ind (handleSB p) = sb_ind p"
  by (simp_all add: handleSB_def)

text \<open>The case functions of \<open>read_pty\<close> as one bundle.\<close>

lemmas read_pty_cases_def = read_pty_esc_def read_pty_sb_def read_pty_will_def read_pty_do_def
  read_pty_wont_def read_pty_data_def sb_store_def

text \<open>The outer switch, resolved for each value the mode takes.\<close>

lemma read_pty_byte_modes:
  "iac_mode p = 0 \<Longrightarrow> read_pty_byte p v = Inr (read_pty_data (p\<lparr>iac_mode := 0\<rparr>) v)"
  "iac_mode p = 255 \<Longrightarrow> read_pty_byte p v = Inr (read_pty_esc (p\<lparr>iac_mode := 0\<rparr>) 255 v)"
  "iac_mode p = 0xfaff \<Longrightarrow> read_pty_byte p v = Inr (read_pty_esc (p\<lparr>iac_mode := 0\<rparr>) 0xfaff v)"
  "iac_mode p = 250 \<Longrightarrow> read_pty_byte p v = read_pty_sb (p\<lparr>iac_mode := 0\<rparr>) 250 v"
  "iac_mode p = 251 \<Longrightarrow> read_pty_byte p v = Inr (read_pty_will (p\<lparr>iac_mode := 0\<rparr>) v)"
  "iac_mode p = 252 \<Longrightarrow> read_pty_byte p v = Inr (read_pty_wont (p\<lparr>iac_mode := 0\<rparr>) v)"
  "iac_mode p = 253 \<Longrightarrow> read_pty_byte p v = Inr (read_pty_do (p\<lparr>iac_mode := 0\<rparr>) v)"
  "iac_mode p = 254 \<Longrightarrow> read_pty_byte p v = Inr (-1, [], p\<lparr>iac_mode := 0\<rparr>)"
  by (simp_all add: read_pty_byte_def Let_def)

lemma valid_mode_cases:
  assumes "valid_mode m"
  obtains "m = 0" | "m = 255" | "m = 0xfaff" | "m = 250" | "m = 251" | "m = 252" | "m = 253" | "m = 254"
  using assms by (auto simp: valid_mode_def)

text \<open>A byte received in a well-formed slot is handled without a store outside the buffer, and leaves the slot
  well formed.\<close>

lemma read_pty_byte_ok:
  assumes "decoder_wf p"
  shows "\<exists>r ops p'. read_pty_byte p value = Inr (r, ops, p') \<and> decoder_wf p'"
proof -
  have base: "decoder_wf (p\<lparr>iac_mode := 0\<rparr>)"
    using assms by (simp add: decoder_wf_def valid_mode_def)
  have esc: "decoder_wf (snd (snd (read_pty_esc (p\<lparr>iac_mode := 0\<rparr>) omod value)))"
    if "omod = 255 \<or> omod = 0xfaff" for omod
    using that base handleSB_bounds [OF base]
    by (auto simp: read_pty_esc_def decoder_wf_def valid_mode_def)
  have sb: "\<exists>r ops p'. read_pty_sb (p\<lparr>iac_mode := 0\<rparr>) 250 value = Inr (r, ops, p') \<and> decoder_wf p'"
    using base by (auto simp: read_pty_sb_def sb_store_def decoder_wf_def valid_mode_def Let_def)
  have pair: "\<exists>r ops p'. Inr x = Inr (r, ops, p') \<and> decoder_wf p'" if "decoder_wf (snd (snd x))" for x
    using that by (cases x) auto
  have "valid_mode (iac_mode p)"
    using assms by (simp add: decoder_wf_def)
  then show ?thesis
  proof (cases rule: valid_mode_cases)
    case 2
    then show ?thesis using pair [OF esc [of 255]] by (simp add: read_pty_byte_modes)
  next
    case 3
    then show ?thesis using pair [OF esc [of "0xfaff"]] by (simp add: read_pty_byte_modes)
  qed (insert base sb, simp_all add: read_pty_byte_modes read_pty_will_def read_pty_do_def
        read_pty_wont_def read_pty_data_def decoder_wf_def valid_mode_def)
qed

text \<open>What a byte does, where it does not fault.\<close>

definition read_byte :: "pty_t \<Rightarrow> u8 \<Rightarrow> int \<times> sysop list \<times> pty_t" where
  "read_byte p v = (case read_pty_byte p v of Inr out \<Rightarrow> out | Inl e \<Rightarrow> (-1, [], p))"

lemma read_byte_eq: "decoder_wf p \<Longrightarrow> read_pty_byte p v = Inr (read_byte p v)"
  using read_pty_byte_ok [of p v] by (auto simp: read_byte_def)

lemma read_byte_eqD: "read_pty_byte p v = Inr out \<Longrightarrow> read_byte p v = out"
  by (simp add: read_byte_def)

lemma read_byte_decoder_wf: "decoder_wf p \<Longrightarrow> decoder_wf (snd (snd (read_byte p v)))"
  using read_pty_byte_ok [of p v] by (auto simp: read_byte_def)

lemma read_byte_frame:
  "opened (snd (snd (read_byte p value))) = opened p"
  "socket (snd (snd (read_byte p value))) = socket p"
  "ttyp (snd (snd (read_byte p value))) = ttyp p"
  "devname (snd (snd (read_byte p value))) = devname p"
  by (simp_all add: read_byte_def read_pty_byte_def read_pty_cases_def Let_def)

lemma read_byte_slot_wf: "slot_wf p \<Longrightarrow> slot_wf (snd (snd (read_byte p value)))"
  by (simp add: slot_wf_def read_byte_decoder_wf read_byte_frame)

section \<open>Every entry point keeps it\<close>

lemma slot_wf_sock: "slot_wf p \<Longrightarrow> 0 \<le> s \<Longrightarrow> slot_wf (p\<lparr>socket := s\<rparr>)"
  by (simp add: slot_wf_def decoder_wf_def)

lemma find_free_Some:
  "find_free k ps = Some n \<Longrightarrow>
     k \<le> n \<and> n < k + length ps \<and> socket (ps ! (n - k)) < 0 \<and>
     (\<forall>i < n - k. 0 \<le> socket (ps ! i))"
proof (induction k ps rule: find_free.induct)
  case (1 k)
  then show ?case by simp
next
  case (2 k p ps)
  show ?case
  proof (cases "socket p < 0")
    case True
    with "2.prems" show ?thesis by simp
  next
    case False
    with "2.prems" have "find_free (Suc k) ps = Some n" by simp
    with "2.IH" False have ih: "Suc k \<le> n" "n < Suc k + length ps" "socket (ps ! (n - Suc k)) < 0"
      "\<forall>i < n - Suc k. 0 \<le> socket (ps ! i)"
      by auto
    then have "n - k = Suc (n - Suc k)" by simp
    with ih False show ?thesis by (auto simp: less_Suc_eq_0_disj)
  qed
qed

lemma find_free_None: "find_free k ps = None \<longleftrightarrow> (\<forall>p \<in> set ps. 0 \<le> socket p)"
  by (induction k ps rule: find_free.induct) auto

lemma find_free_0:
  "find_free 0 ps = Some n \<Longrightarrow> n < length ps \<and> socket (ps ! n) < 0 \<and> (\<forall>i<n. 0 \<le> socket (ps ! i))"
  using find_free_Some [of 0 ps n] by simp

lemma telnet_get_pty_wf [inv_intros]:
  assumes wf: "driver_wf d" and sock: "0 \<le> sock" and g: "telnet_get_pty sock d = (nm, ops, d')"
  shows "driver_wf d'"
proof (cases "if telnet_pty_inited d then find_free 0 (telnet_ptys d) else None")
  case None
  with g wf show ?thesis by (simp add: telnet_get_pty_def)
next
  case (Some ndx)
  then have i: "telnet_pty_inited d" and "find_free 0 (telnet_ptys d) = Some ndx"
    by (simp_all split: if_splits)
  then have "ndx < MAX_PTYS" using find_free_0 driver_wf_length [OF wf] by metis
  with wf have "slot_wf (telnet_ptys d ! ndx)" by (rule driver_wf_slot)
  with g Some wf i sock show ?thesis
    by (auto simp: telnet_get_pty_def Let_def intro!: driver_wf_set_pty slot_wf_sock)
qed

lemma ptySetAttributes_wf [inv_intros]:
  assumes "driver_wf d" and "ptySetAttributes minor cflag d = Inr (r, d')"
  shows "driver_wf d'"
proof (cases "minor < int MAX_PTYS")
  case True
  with assms have n: "nat minor < MAX_PTYS" "d' = set_pty minor ((telnet_ptys d ! nat minor)\<lparr>c_cflag := cflag\<rparr>) d"
    by (auto simp: ptySetAttributes_def driver_wf_length split: sum.splits)
  have "slot_wf ((telnet_ptys d ! nat minor)\<lparr>c_cflag := cflag\<rparr>)"
    using driver_wf_slot [OF assms(1) n(1)] by (simp add: slot_wf_def decoder_wf_def)
  then show ?thesis
    unfolding n(2) using driver_wf_opened [OF assms(1) n(1)] assms(1)
    by (intro driver_wf_set_pty) auto
next
  case False
  with assms show ?thesis by (simp add: ptySetAttributes_def)
qed

lemma ptyPollInitialize_wf [inv_intros]:
  assumes wf: "driver_wf d" and i: "telnet_pty_inited d"
    and g: "ptyPollInitialize minor tty dflt d = Inr (r, d')"
  shows "driver_wf d'"
proof (cases "minor < int MAX_PTYS")
  case True
  let ?p = "telnet_ptys d ! nat minor"
  let ?q = "?p\<lparr>opened := True, ttyp := Some tty, iac_mode := 0, sb_ind := 0, width := 0, height := 0\<rparr>"
  show ?thesis
  proof (cases "socket ?p < 0")
    case sock: False
    with True g wf have n: "nat minor < MAX_PTYS"
      and s: "ptySetAttributes minor dflt (set_pty minor ?q d) = Inr (r, d')"
      by (auto simp: ptyPollInitialize_def driver_wf_length split: sum.splits)
    have "slot_wf ?q"
      using driver_wf_slot [OF wf n] sock by (simp add: slot_wf_def decoder_wf_def valid_mode_def)
    with wf i have "driver_wf (set_pty minor ?q d)"
      by (intro driver_wf_set_pty) auto
    then show ?thesis using s by (rule ptySetAttributes_wf)
  next
    case sock: True
    with True g wf show ?thesis
      by (auto simp: ptyPollInitialize_def split: sum.splits)
  qed
next
  case False
  with g wf show ?thesis by (simp add: ptyPollInitialize_def)
qed

lemma ptyShutdown_wf [inv_intros]:
  assumes wf: "driver_wf d" and g: "ptyShutdown minor d = Inr (r, ops, d')"
  shows "driver_wf d'"
proof (cases "minor < int MAX_PTYS")
  case True
  let ?q = "(telnet_ptys d ! nat minor)\<lparr>opened := False, socket := -1\<rparr>"
  from True g wf have n: "nat minor < MAX_PTYS" and d': "d' = set_pty minor ?q d"
    by (auto simp: ptyShutdown_def driver_wf_length split: sum.splits)
  have "slot_wf ?q"
    using driver_wf_slot [OF wf n] by (simp add: slot_wf_def decoder_wf_def)
  with wf show ?thesis unfolding d' by (intro driver_wf_set_pty) auto
next
  case False
  with g wf show ?thesis by (simp add: ptyShutdown_def)
qed

lemma driver_wf_ttys [simp]: "driver_wf (d\<lparr>ttys := ts\<rparr>) = driver_wf d"
  by (simp add: driver_wf_def)

lemma ptyPollRead_wf [inv_intros]:
  assumes wf: "driver_wf d" and g: "ptyPollRead minor rd d = Inr (r, ops, d')"
  shows "driver_wf d'"
proof (cases "ptyPollRead minor rd d = Inr (-1, [], d) \<or> \<not> minor < int MAX_PTYS")
  case True
  with g wf show ?thesis by (auto simp: ptyPollRead_def)
next
  case False
  let ?p = "telnet_ptys d ! nat minor"
  from False g wf have n: "nat minor < MAX_PTYS" and rp: "read_pty minor rd d = Inr (r, ops, d')"
    by (auto simp: ptyPollRead_def driver_wf_length split: sum.splits if_splits)
  note p = driver_wf_slot [OF wf n]
  show ?thesis
  proof (cases rd)
    case (Rd_byte v)
    from rp Rd_byte have "d' = set_pty minor (snd (snd (read_byte ?p v))) d"
      by (auto simp: read_pty_def dest!: read_byte_eqD split: sum.splits prod.splits)
    with wf p n driver_wf_opened [OF wf n] show ?thesis
      by (auto simp: read_byte_frame intro!: driver_wf_set_pty read_byte_slot_wf)
  qed (use rp wf in \<open>auto simp: read_pty_def Let_def split: sum.splits option.splits\<close>)
qed

lemma my_pty_control_wf [inv_intros]:
  assumes wf: "driver_wf d" and n: "unat minor < MAX_PTYS"
    and g: "my_pty_control minor cmd d = Inr (res, d')"
  shows "driver_wf d'"
proof (cases cmd)
  case (TIOCSWINSZ row col)
  let ?q = "(telnet_ptys d ! nat (uint minor))\<lparr>height := uint row, width := uint col\<rparr>"
  from n have n': "nat (uint minor) < MAX_PTYS" by simp
  from TIOCSWINSZ g have d': "d' = set_pty (uint minor) ?q d"
    by (auto simp: my_pty_control_def split: sum.splits)
  have "slot_wf ?q"
    using driver_wf_slot [OF wf n'] uint_u16_bounds [of row] uint_u16_bounds [of col]
    by (simp add: slot_wf_def decoder_wf_def)
  with wf driver_wf_opened [OF wf n'] show ?thesis
    unfolding d' by (intro driver_wf_set_pty) auto
qed (use g wf in \<open>auto simp: my_pty_control_def split: sum.splits\<close>)

lemma map_zip_upt:
  "length xs = n \<Longrightarrow> map (\<lambda>(i, x). f i x) (zip [0..<n] xs) = map (\<lambda>i. f i (xs ! i)) [0..<n]"
  by (rule nth_equalityI) simp_all

lemma init_slots_wf: "driver_wf d \<Longrightarrow> driver_wf (init_slots dflt d\<lparr>telnet_pty_inited := b\<rparr>)"
  by (simp add: driver_wf_def init_slots_def map_zip_upt list_all_length list_ex_length
      init_slot_def slot_wf_def decoder_wf_def)

lemma pty_do_initialize_wf [inv_intros]:
  assumes "driver_wf d" and "register d = (True, d1)"
    and "my_pty_initialize dflt mem reg d = Inr (ops, d1)"
    and "pty_do_initialize register d = (ok, d')"
  shows "driver_wf d'"
proof (cases "telnet_pty_inited d")
  case True
  with assms show ?thesis by (simp add: pty_do_initialize_def)
next
  case False
  with assms(2-4) have "d' = init_slots dflt d\<lparr>telnet_pty_inited := True\<rparr>"
    by (auto simp: pty_do_initialize_def my_pty_initialize_def split: if_splits)
  with assms(1) show ?thesis by (simp add: init_slots_wf)
qed

lemma pty_do_finalize_wf [inv_intros]:
  assumes "driver_wf d" and "pty_do_finalize unreg unlinked d = (r, ops, d')"
  shows "driver_wf d'"
  using assms
  by (auto simp: pty_do_finalize_def driver_wf_def map_zip_upt list_all_length list_ex_length
      free_name_def slot_wf_def decoder_wf_def split: if_splits)

lemma pty_step_wf: "pty_step d d' \<Longrightarrow> driver_wf d \<Longrightarrow> driver_wf d'"
proof (induction rule: pty_step.induct)
  case (register_fails register d ok d')
  then show ?case by (auto simp: pty_do_initialize_def split: if_splits)
qed (auto intro: inv_intros)

lemma zero_driver_wf: "driver_wf (zero_driver ts)"
  by (simp add: zero_driver_def driver_wf_def zero_pty_def slot_wf_def decoder_wf_def valid_mode_def
      list_all_length list_ex_length)

lemma pty_reach_wf: "pty_reach d \<Longrightarrow> driver_wf d"
  by (induction rule: pty_reach.induct) (auto intro: zero_driver_wf pty_step_wf)

section \<open>Device names\<close>

text \<open>While the driver is registered, slot \<open>n\<close> is named \<open>/dev/ptyn\<close>.\<close>

definition names_wf :: "driver \<Rightarrow> bool" where
  "names_wf d \<longleftrightarrow> (telnet_pty_inited d \<longrightarrow> map devname (telnet_ptys d) = map dev_name [0..<MAX_PTYS])"

lemma dev_name_inj: "m < MAX_PTYS \<Longrightarrow> n < MAX_PTYS \<Longrightarrow> dev_name m = dev_name n \<longleftrightarrow> m = n"
  by (simp add: dev_name_def hex_digit_def char_of_eq_iff take_bit_eq_mod)

lemma map_devname_set_pty:
  "devname p = devname (telnet_ptys d ! nat minor) \<Longrightarrow>
     map devname (telnet_ptys (set_pty minor p d)) = map devname (telnet_ptys d)"
  by (metis list_update_beyond list_update_id map_update not_le set_pty_simps(3) nth_map length_map)

lemma names_wf_set_pty:
  "names_wf d \<Longrightarrow> devname p = devname (telnet_ptys d ! nat minor) \<Longrightarrow> names_wf (set_pty minor p d)"
  by (simp add: names_wf_def map_devname_set_pty del: set_pty_simps(3))

lemma names_wf_slot:
  "names_wf d \<Longrightarrow> telnet_pty_inited d \<Longrightarrow> n < length (telnet_ptys d) \<Longrightarrow> devname (telnet_ptys d ! n) = dev_name n"
  by (metis length_map length_upt diff_zero names_wf_def nth_map nth_upt add.left_neutral)

lemma ptySetAttributes_names:
  "ptySetAttributes minor cflag d = Inr (r, d') \<Longrightarrow> names_wf d \<Longrightarrow> names_wf d'"
  by (auto simp: ptySetAttributes_def intro!: names_wf_set_pty split: sum.splits if_splits)

lemma ptyPollRead_names:
  assumes "ptyPollRead minor rd d = Inr (r, ops, d')" "names_wf d"
  shows "names_wf d'"
proof (cases "d' = d")
  case False
  then have rp: "read_pty minor rd d = Inr (r, ops, d')"
    using assms(1) by (auto simp: ptyPollRead_def split: sum.splits if_splits)
  show ?thesis
  proof (cases rd)
    case (Rd_byte v)
    then obtain p' where "read_pty_byte (telnet_ptys d ! nat minor) v = Inr (r, ops, p')" "d' = set_pty minor p' d"
      using rp by (auto simp: read_pty_def split: sum.splits)
    then show ?thesis
      using assms(2) read_byte_frame(4) [of "telnet_ptys d ! nat minor" v] by (auto dest!: read_byte_eqD intro!: names_wf_set_pty)
  qed (use rp assms(2) in \<open>auto simp: read_pty_def Let_def names_wf_def split: sum.splits option.splits\<close>)
qed (use assms(2) in simp)

lemma pty_step_names: "pty_step d d' \<Longrightarrow> driver_wf d \<Longrightarrow> names_wf d \<Longrightarrow> names_wf d'"
proof (induction rule: pty_step.induct)
  case (initialize register d d1 dflt mem reg ops ok d')
  show ?case
  proof (cases "telnet_pty_inited d")
    case False
    with initialize have "d' = init_slots dflt d\<lparr>telnet_pty_inited := True\<rparr>"
      by (auto simp: pty_do_initialize_def my_pty_initialize_def split: if_splits)
    with initialize.prems(1) show ?thesis
      by (simp add: names_wf_def init_slots_def map_zip_upt driver_wf_length init_slot_def)
  qed (use initialize in \<open>simp add: pty_do_initialize_def\<close>)
next
  case (register_fails register d ok d')
  then show ?case by (auto simp: pty_do_initialize_def split: if_splits)
next
  case (finalize unreg unlinked d r ops d')
  then show ?case by (auto simp: pty_do_finalize_def names_wf_def split: if_splits)
next
  case (get_pty sock d nm ops d')
  then show ?case
    by (auto simp: telnet_get_pty_def Let_def intro!: names_wf_set_pty split: option.splits if_splits)
next
  case (first_open d minor tty dflt r d')
  then show ?case
    by (auto simp: ptyPollInitialize_def intro!: names_wf_set_pty elim!: ptySetAttributes_names
        split: sum.splits if_splits)
next
  case (set_attributes minor cflag d r d')
  then show ?case by (blast intro: ptySetAttributes_names)
next
  case (poll_read minor d rd r ops d')
  then show ?case
    by (blast intro: ptyPollRead_names)
next
  case (last_close minor d r ops d')
  then show ?case
    by (auto simp: ptyShutdown_def intro!: names_wf_set_pty split: sum.splits if_splits)
next
  case (control minor cmd d res d')
  then show ?case
    by (auto simp: my_pty_control_def intro!: names_wf_set_pty split: sum.splits ioctl_cmd.splits)
next
  case (termios d ts)
  then show ?case by (simp add: names_wf_def)
qed

lemma pty_reach_names: "pty_reach d \<Longrightarrow> names_wf d"
proof (induction rule: pty_reach.induct)
  case (start ts)
  show ?case by (simp add: names_wf_def zero_driver_def)
next
  case (step d d')
  then show ?case using pty_step_names pty_reach_wf by blast
qed

section \<open>The slot table as a pool\<close>

definition pty_ready :: "driver \<Rightarrow> bool" where
  "pty_ready d \<longleftrightarrow> driver_wf d \<and> names_wf d \<and> telnet_pty_inited d"

definition slot_of :: "devptr \<Rightarrow> nat option" where
  "slot_of h = find (\<lambda>n. dev_name n = h) [0..<MAX_PTYS]"

definition pty_handles :: "devptr set" where
  "pty_handles = dev_name ` {..<MAX_PTYS}"

definition pool_alloc :: "int \<Rightarrow> driver \<Rightarrow> devptr option \<times> driver" where
  "pool_alloc sock d = (let (nm, ops, d') = telnet_get_pty sock d in (nm, d'))"

definition pool_release :: "devptr \<Rightarrow> driver \<Rightarrow> driver" where
  "pool_release h d =
     (case slot_of h of None \<Rightarrow> d | Some n \<Rightarrow>
        (case ptyShutdown (int n) d of Inl e \<Rightarrow> d | Inr (r, ops, d') \<Rightarrow> d'))"

definition pool_held :: "driver \<Rightarrow> devptr \<Rightarrow> int option" where
  "pool_held d h =
     (case slot_of h of None \<Rightarrow> None | Some n \<Rightarrow>
        (let s = socket (telnet_ptys d ! n) in if s < 0 then None else Some s))"

lemma slot_of_dev_name [simp]: "n < MAX_PTYS \<Longrightarrow> slot_of (dev_name n) = Some n"
  using dev_name_inj [of _ n]
  by (auto simp: slot_of_def find_Some_iff intro!: exI [of _ n])

lemma slot_of_Some: "slot_of h = Some n \<longleftrightarrow> n < MAX_PTYS \<and> h = dev_name n"
proof
  assume "slot_of h = Some n"
  then show "n < MAX_PTYS \<and> h = dev_name n"
    by (auto simp: slot_of_def find_Some_iff)
qed auto

lemma slot_of_None: "slot_of h = None \<longleftrightarrow> h \<notin> pty_handles"
  by (auto simp: slot_of_def find_None_iff pty_handles_def)

lemma pool_held_dev_name:
  "n < MAX_PTYS \<Longrightarrow> pool_held d (dev_name n) =
     (let s = socket (telnet_ptys d ! n) in if s < 0 then None else Some s)"
  by (simp add: pool_held_def)

lemma pool_held_update:
  assumes "length (telnet_ptys d) = MAX_PTYS" and "n < MAX_PTYS"
  shows "pool_held (set_pty (int n) p d) =
     (pool_held d)(dev_name n := (if socket p < 0 then None else Some (socket p)))"
proof
  fix h
  show "pool_held (set_pty (int n) p d) h =
     ((pool_held d)(dev_name n := (if socket p < 0 then None else Some (socket p)))) h"
    using assms by (cases "slot_of h") (auto simp: pool_held_def slot_of_Some Let_def dev_name_inj)
qed

lemma pty_ready_length [simp]: "pty_ready d \<Longrightarrow> length (telnet_ptys d) = MAX_PTYS"
  by (simp add: pty_ready_def driver_wf_length)

lemma telnet_get_pty_Some:
  assumes rdy: "pty_ready d" and sock: "0 \<le> sock" and g: "telnet_get_pty sock d = (Some h, ops, d')"
  obtains n where "n < MAX_PTYS" "h = dev_name n" "socket (telnet_ptys d ! n) < 0"
    "\<forall>i<n. 0 \<le> socket (telnet_ptys d ! i)" "ops = [Set_rcvtimeo sock 2]"
    "d' = set_pty (int n) ((telnet_ptys d ! n)\<lparr>socket := sock\<rparr>) d"
proof -
  from rdy have i: "telnet_pty_inited d" by (simp add: pty_ready_def)
  with g obtain n where n: "find_free 0 (telnet_ptys d) = Some n"
    by (auto simp: telnet_get_pty_def Let_def split: option.splits)
  note f = find_free_0 [OF n]
  from rdy f have nm: "devname (telnet_ptys d ! n) = dev_name n"
    by (simp add: pty_ready_def names_wf_slot)
  show thesis
  proof
    show "n < MAX_PTYS" using f rdy by simp
    show "h = dev_name n" "ops = [Set_rcvtimeo sock 2]"
      "d' = set_pty (int n) ((telnet_ptys d ! n)\<lparr>socket := sock\<rparr>) d"
      using g n i nm by (auto simp: telnet_get_pty_def Let_def)
  qed (use f in auto)
qed

lemma telnet_get_pty_None:
  assumes rdy: "pty_ready d" and g: "telnet_get_pty sock d = (None, ops, d')"
  shows "ops = [Close sock]" "d' = d" "\<forall>n < MAX_PTYS. 0 \<le> socket (telnet_ptys d ! n)"
proof -
  from assms have "find_free 0 (telnet_ptys d) = None"
    by (auto simp: telnet_get_pty_def pty_ready_def Let_def split: option.splits)
  then show "\<forall>n < MAX_PTYS. 0 \<le> socket (telnet_ptys d ! n)"
    using rdy by (simp add: find_free_None)
qed (use assms in \<open>auto simp: telnet_get_pty_def pty_ready_def Let_def split: option.splits\<close>)

lemma pty_ready_set_pty:
  assumes "pty_ready d" and "slot_wf p" and "devname p = devname (telnet_ptys d ! nat minor)"
  shows "pty_ready (set_pty minor p d)"
  using assms by (auto simp: pty_ready_def intro!: driver_wf_set_pty names_wf_set_pty)

lemma pty_ready_slot: "pty_ready d \<Longrightarrow> n < MAX_PTYS \<Longrightarrow> slot_wf (telnet_ptys d ! n)"
  by (simp add: pty_ready_def driver_wf_slot)

interpretation pty_pool: slot_pool pool_alloc pool_release pool_held pty_handles "\<lambda>s. 0 \<le> s" pty_ready
proof
  show "finite pty_handles" by (simp add: pty_handles_def)
next
  fix d show "dom (pool_held d) \<subseteq> pty_handles"
    by (auto simp: pool_held_def slot_of_Some pty_handles_def split: option.splits)
next
  fix d d' h and r :: int
  assume rdy: "pty_ready d" and r: "0 \<le> r" and a: "pool_alloc r d = (Some h, d')"
  then obtain ops where "telnet_get_pty r d = (Some h, ops, d')"
    by (auto simp: pool_alloc_def Let_def split: prod.splits)
  from telnet_get_pty_Some [OF rdy r this] obtain n where n: "n < MAX_PTYS" "h = dev_name n"
    "socket (telnet_ptys d ! n) < 0" "d' = set_pty (int n) ((telnet_ptys d ! n)\<lparr>socket := r\<rparr>) d"
    by metis
  with rdy r show "h \<in> pty_handles \<and> pool_held d h = None \<and> pool_held d' = (pool_held d)(h \<mapsto> r) \<and> pty_ready d'"
    by (auto simp: pty_handles_def pool_held_dev_name pool_held_update
        intro!: pty_ready_set_pty slot_wf_sock pty_ready_slot)
next
  fix d d' and r :: int
  assume rdy: "pty_ready d" and r: "0 \<le> r" and a: "pool_alloc r d = (None, d')"
  then obtain ops where "telnet_get_pty r d = (None, ops, d')"
    by (auto simp: pool_alloc_def Let_def split: prod.splits)
  note f = telnet_get_pty_None [OF rdy this]
  then have "pty_handles \<subseteq> dom (pool_held d)"
    by (auto simp: pty_handles_def pool_held_dev_name Let_def dom_def)
  then show "d' = d \<and> dom (pool_held d) = pty_handles"
    using f by (auto simp: pool_held_def slot_of_Some pty_handles_def split: option.splits)
next
  fix d h assume rdy: "pty_ready d" and "h \<in> pty_handles"
  then obtain n where n: "n < MAX_PTYS" "h = dev_name n" by (auto simp: pty_handles_def)
  let ?q = "(telnet_ptys d ! n)\<lparr>opened := False, socket := -1\<rparr>"
  from n rdy have "pool_release h d = set_pty (int n) ?q d"
    by (simp add: pool_release_def ptyShutdown_def pty_at_def)
  moreover have "slot_wf ?q"
    using pty_ready_slot [OF rdy n(1)] by (simp add: slot_wf_def decoder_wf_def)
  ultimately show "pool_held (pool_release h d) = (pool_held d)(h := None) \<and> pty_ready (pool_release h d)"
    using n rdy by (auto simp: pool_held_update intro!: pty_ready_set_pty)
qed

section \<open>A sample session\<close>

text \<open>
  The driver after registration, after a connection on descriptor 7 and after the first
  open of its device: the concrete states at which the properties are instantiated.
\<close>

definition sample_ttys :: "nat \<Rightarrow> rtems_termios_tty" where
  "sample_ttys = (\<lambda>_. \<lparr>cindex = 0, ccount = 3, c_cc_VEOF = 4\<rparr>)"

definition sample_registered :: driver where
  "sample_registered = init_slots 13 (zero_driver sample_ttys)\<lparr>telnet_pty_inited := True\<rparr>"

definition sample_connected :: driver where
  "sample_connected = snd (snd (telnet_get_pty 7 sample_registered))"

definition sample_opened :: driver where
  "sample_opened = (case ptyPollInitialize 0 1 13 sample_connected of Inr (r, d) \<Rightarrow> d | Inl e \<Rightarrow> sample_connected)"

lemma sample_registered_reach: "pty_reach sample_registered"
proof (rule pty_reach.step [OF pty_reach.start [of sample_ttys]])
  let ?reg = "\<lambda>d. (True, init_slots 13 d)"
  show "pty_step (zero_driver sample_ttys) sample_registered"
    by (rule pty_step.initialize [where register = ?reg and mem = "\<lambda>_. True" and reg = "\<lambda>_. True" and dflt = 13])
      (simp_all add: my_pty_initialize_def pty_do_initialize_def sample_registered_def zero_driver_def
        list_all_length)
qed

lemmas sample_defs = sample_registered_def sample_connected_def sample_opened_def init_slots_def
  zero_driver_def init_slot_def zero_pty_def upt_rec numeral_eq_Suc telnet_get_pty_def
  ptyPollInitialize_def ptySetAttributes_def pty_at_def set_pty_def

lemma sample_connected_reach: "pty_reach sample_connected"
  by (rule pty_reach.step [OF sample_registered_reach], rule pty_step.get_pty [where sock = 7])
    (auto simp: sample_connected_def prod_eq_iff)

lemma sample_connected_slot:
  "telnet_pty_inited sample_connected" "telnet_ptys sample_connected \<noteq> []"
  "socket (telnet_ptys sample_connected ! 0) = 7"
  by (simp_all add: sample_defs Let_def)

lemma sample_opened_eq:
  "ptyPollInitialize 0 1 13 sample_connected = Inr (0, sample_opened)"
  using sample_connected_slot
  by (simp add: sample_opened_def ptyPollInitialize_def ptySetAttributes_def pty_at_def)

lemma sample_opened_reach: "pty_reach sample_opened"
  by (rule pty_reach.step [OF sample_connected_reach],
      rule pty_step.first_open [OF _ _ sample_opened_eq])
    (simp_all add: sample_connected_slot)

lemma sample_opened_slot: "slot_opened 0 sample_opened"
  using sample_connected_slot
  by (simp add: slot_opened_def sample_opened_def ptyPollInitialize_def ptySetAttributes_def pty_at_def)

lemma sample_connected_ready: "pty_ready sample_connected"
  by (simp add: pty_ready_def pty_reach_wf pty_reach_names sample_connected_reach sample_connected_slot)

section \<open>Properties of the driver\<close>

text \<open>C10: In every state the driver can reach through its entry points there are five slots;
  in each the subnegotiation index stays within the 16-byte buffer, the decoder mode is one
  of the eight it knows, the window size fits 16 bits, and an opened slot has a socket and a
  termios block; while the driver is registered, slot n is named /dev/ptyn.\<close>

theorem pty_reachable_invariant:
  assumes "pty_reach d"
  shows "driver_wf d \<and> names_wf d"
  using assms by (simp add: pty_reach_wf pty_reach_names)

theorem pty_reachable_invariant_witness:
  "pty_reach sample_opened \<and> driver_wf sample_opened \<and> names_wf sample_opened"
  using pty_reachable_invariant [OF sample_opened_reach] sample_opened_reach by simp

text \<open>C15: Polling never faults: in every reachable state, for every minor number, and whatever the socket delivers
  (an error, end of file, any byte), \<open>ptyPollRead\<close> returns, without an access outside the slot table, a store
  outside the 16 bytes of the subnegotiation buffer or an access through a null termios pointer. A minor number
  beyond the table gives -1 and changes nothing; a device of the table is only polled while it is open, which is
  what termios guarantees.\<close>

theorem pty_poll_read_no_fault:
  assumes "pty_reach d" and "0 \<le> minor" and "minor < int MAX_PTYS \<longrightarrow> slot_opened minor d"
  shows "\<exists>r ops d'. ptyPollRead minor rd d = Inr (r, ops, d') \<and> (int MAX_PTYS \<le> minor \<longrightarrow> r = -1 \<and> d' = d)"
proof (cases "minor < int MAX_PTYS")
  case True
  note wf = pty_reach_wf [OF assms(1)]
  from True assms(3) have m: "nat minor < length (telnet_ptys d)" "opened (telnet_ptys d ! nat minor)"
    by (auto simp: slot_opened_def split: sum.splits)
  then have "nat minor < MAX_PTYS" using driver_wf_length [OF wf] by simp
  note slot = driver_wf_slot [OF wf this]
  then obtain a where "ttyp (telnet_ptys d ! nat minor) = Some a" using m(2) by (auto simp: slot_wf_def)
  moreover have "decoder_wf (telnet_ptys d ! nat minor)" using slot by (simp add: slot_wf_def)
  ultimately show ?thesis
    using assms(2) m(1) True
    by (cases rd) (auto simp: ptyPollRead_def read_pty_def pty_at_def Let_def read_byte_eq split_beta)
next
  case False
  then show ?thesis by (simp add: ptyPollRead_def)
qed

theorem pty_poll_read_no_fault_witness:
  "pty_reach sample_opened \<and> slot_opened 0 sample_opened \<and>
   (\<exists>r ops d'. ptyPollRead 0 Rd_eof sample_opened = Inr (r, ops, d')) \<and>
   (\<exists>ops. ptyPollRead 9 (Rd_byte 65) sample_opened = Inr (-1, ops, sample_opened))"
  using pty_poll_read_no_fault [OF sample_opened_reach, of 0 Rd_eof] pty_poll_read_no_fault [OF sample_opened_reach, of 9 "Rd_byte 65"]
    sample_opened_reach sample_opened_slot by auto

text \<open>\<open>telnet_get_pty\<close> on a registered driver either binds the socket to the lowest free
  slot and returns that slot's device name, leaving every other slot alone and the socket
  open, or, exactly when all five slots are taken, closes the socket and changes nothing.\<close>

theorem telnet_get_pty_correct:
  assumes "pty_reach d" and "telnet_pty_inited d" and "0 \<le> sock"
  shows "case telnet_get_pty sock d of
     (Some h, ops, d') \<Rightarrow> \<exists>n < MAX_PTYS. h = dev_name n \<and> socket (telnet_ptys d ! n) < 0 \<and>
        (\<forall>i < n. 0 \<le> socket (telnet_ptys d ! i)) \<and> ops = [Set_rcvtimeo sock 2] \<and>
        telnet_ptys d' = (telnet_ptys d)[n := (telnet_ptys d ! n)\<lparr>socket := sock\<rparr>]
   | (None, ops, d') \<Rightarrow> ops = [Close sock] \<and> d' = d \<and> (\<forall>n < MAX_PTYS. 0 \<le> socket (telnet_ptys d ! n))"
proof -
  from assms have rdy: "pty_ready d" by (simp add: pty_ready_def pty_reach_wf pty_reach_names)
  obtain nm ops d' where g: "telnet_get_pty sock d = (nm, ops, d')" by (cases "telnet_get_pty sock d")
  show ?thesis
  proof (cases nm)
    case None
    with g telnet_get_pty_None [OF rdy] show ?thesis by auto
  next
    case (Some h)
    with g have "telnet_get_pty sock d = (Some h, ops, d')" by simp
    from telnet_get_pty_Some [OF rdy assms(3) this] obtain n where
      "n < MAX_PTYS" "h = dev_name n" "socket (telnet_ptys d ! n) < 0"
      "\<forall>i<n. 0 \<le> socket (telnet_ptys d ! i)" "ops = [Set_rcvtimeo sock 2]"
      "d' = set_pty (int n) ((telnet_ptys d ! n)\<lparr>socket := sock\<rparr>) d"
      by blast
    then show ?thesis unfolding g Some by (auto intro!: exI [of _ n])
  qed
qed

theorem telnet_get_pty_correct_witness:
  "\<exists>n < MAX_PTYS. fst (telnet_get_pty 9 sample_connected) = Some (dev_name n) \<and> 0 < n"
proof -
  have "fst (telnet_get_pty 9 sample_connected) = Some (dev_name 1)"
    by (simp add: sample_defs Let_def)
  then obtain ops d' where g: "telnet_get_pty 9 sample_connected = (Some (dev_name 1), ops, d')"
    by (metis prod.collapse)
  show ?thesis
    using telnet_get_pty_correct [OF sample_connected_reach sample_connected_slot(1), of 9]
      sample_connected_slot(3) g
    by (auto simp: dev_name_inj)
qed

text \<open>Slots are not lost. A connection that is bound and then shut down leaves the pool as
  it was; and after the last close of any device the next connection finds a slot.\<close>

theorem pty_slot_reuse:
  assumes "pty_ready d" and "0 \<le> sock"
  shows "(pool_alloc sock d = (Some h, d') \<longrightarrow> pool_held (pool_release h d') = pool_held d) \<and>
    (h \<in> pty_handles \<longrightarrow> fst (pool_alloc sock (pool_release h d)) \<noteq> None)"
  using pty_pool.alloc_release [OF assms] pty_pool.release_then_alloc [OF assms] by blast

theorem pty_slot_reuse_witness:
  "pty_ready sample_connected \<and> dev_name 0 \<in> pty_handles \<and>
   fst (pool_alloc 9 (pool_release (dev_name 0) sample_connected)) \<noteq> None"
  using pty_slot_reuse [OF sample_connected_ready, of 9 "dev_name 0"] sample_connected_ready
  by (auto simp: pty_handles_def)

text \<open>No socket is ever bound to two slots: if the sockets held are pairwise different
  and \<open>accept()\<close> hands in one that is not among them, they are different afterwards, and the
  number of busy slots grows by one.\<close>

theorem pty_sockets_distinct:
  assumes "pty_ready d" and "0 \<le> sock" and "pool_alloc sock d = (Some h, d')"
    and "inj_on (pool_held d) (dom (pool_held d))" and "sock \<notin> ran (pool_held d)"
  shows "inj_on (pool_held d') (dom (pool_held d')) \<and>
    card (dom (pool_held d')) = Suc (card (dom (pool_held d)))"
  using pty_pool.alloc_injective [OF assms] pty_pool.alloc_card [OF assms(1-3)] by blast

lemma sample_connected_held: "pool_held sample_connected = [dev_name 0 \<mapsto> 7]"
proof -
  have "telnet_ptys sample_registered ! n = init_slot 13 n zero_pty" if "n < MAX_PTYS" for n
    using that by (simp add: sample_registered_def init_slots_def zero_driver_def)
  then have free: "pool_held sample_registered = Map.empty"
    by (auto simp: pool_held_def slot_of_Some init_slot_def split: option.splits)
  have "pool_alloc 7 sample_registered = (Some (dev_name 0), sample_connected)"
    by (simp add: pool_alloc_def sample_connected_def split_beta) (simp add: sample_defs Let_def)
  moreover have "pty_ready sample_registered"
    by (simp add: pty_ready_def pty_reach_wf pty_reach_names sample_registered_reach)
      (simp add: sample_registered_def)
  ultimately show ?thesis
    using pty_pool.alloc_Some [of sample_registered 7 "dev_name 0" sample_connected] free by simp
qed

theorem pty_sockets_distinct_witness:
  "\<exists>h d'. pool_alloc 9 sample_connected = (Some h, d') \<and>
     inj_on (pool_held d') (dom (pool_held d')) \<and> card (dom (pool_held d')) = 2"
proof -
  have "dom (pool_held sample_connected) \<noteq> pty_handles"
    by (auto simp: sample_connected_held pty_handles_def set_eq_iff intro!: exI [of _ "dev_name 1"])
      (auto simp: dev_name_inj)
  then have "fst (pool_alloc 9 sample_connected) \<noteq> None"
    using pty_pool.alloc_fails_iff_full [OF sample_connected_ready, of 9] by simp
  then obtain h d' where a: "pool_alloc 9 sample_connected = (Some h, d')"
    by (metis not_None_eq prod.collapse)
  show ?thesis
    using pty_sockets_distinct [OF sample_connected_ready _ a] a
    by (auto simp: sample_connected_held)
qed

text \<open>The window size set through \<open>TIOCSWINSZ\<close> is the one \<open>TIOCGWINSZ\<close> reports, on any
  slot of any reachable state, and setting it changes no other slot.\<close>

theorem pty_winsize_roundtrip:
  assumes "pty_reach d" and "unat minor < MAX_PTYS"
  shows "\<exists>d'. my_pty_control minor (TIOCSWINSZ row col) d = Inr (Ioctl_done, d') \<and>
     my_pty_control minor TIOCGWINSZ d' = Inr (Winsize row col, d') \<and>
     (\<forall>n. n \<noteq> unat minor \<longrightarrow> telnet_ptys d' ! n = telnet_ptys d ! n)"
  using assms driver_wf_length [OF pty_reach_wf [OF assms(1)]]
  by (simp add: my_pty_control_def pty_at_def)

theorem pty_winsize_roundtrip_witness:
  "\<exists>d'. my_pty_control 3 (TIOCSWINSZ 24 80) sample_opened = Inr (Ioctl_done, d') \<and>
     my_pty_control 3 TIOCGWINSZ d' = Inr (Winsize 24 80, d')"
  using pty_winsize_roundtrip [OF sample_opened_reach, of 3 24 80] by auto

text \<open>Unloading is safe: finalisation of a driver with an opened slot fails and changes
  nothing, and when it succeeds on a registered driver no slot was opened, every device node
  has been unlinked, and no later connection is bound to a slot.\<close>

theorem pty_finalize_safe:
  assumes "pty_reach d" and "telnet_pty_inited d" and "pty_do_finalize unreg unlinked d = (r, ops, d')"
  shows "(list_ex opened (telnet_ptys d) \<longrightarrow> r = -1 \<and> d' = d) \<and>
    (r = 0 \<longrightarrow> \<not> list_ex opened (telnet_ptys d) \<and>
       (\<forall>n < MAX_PTYS. Unlink (dev_name n) \<in> set ops) \<and>
       telnet_get_pty sock d' = (None, [Close sock], d'))"
proof -
  have "Unlink (dev_name n) \<in> (\<lambda>p. Unlink (devname p)) ` set (telnet_ptys d)" if "n < MAX_PTYS" for n
    using that names_wf_slot [OF pty_reach_names [OF assms(1)] assms(2), of n]
      driver_wf_length [OF pty_reach_wf [OF assms(1)]] by (metis image_eqI nth_mem)
  with assms(2,3) show ?thesis
    by (auto simp: pty_do_finalize_def telnet_get_pty_def split: if_splits)
qed

theorem pty_finalize_safe_witness:
  "list_ex opened (telnet_ptys sample_opened) \<and>
   pty_do_finalize True (\<lambda>_. True) sample_opened = (-1, [], sample_opened)"
proof -
  have o: "list_ex opened (telnet_ptys sample_opened)"
    using sample_opened_slot by (auto simp: slot_opened_def list_ex_iff split: sum.splits)
  have "telnet_pty_inited sample_opened"
    using driver_wf_opened [OF pty_reach_wf [OF sample_opened_reach], of 0] sample_opened_slot
    by (auto simp: slot_opened_def split: sum.splits)
  moreover obtain r ops d' where "pty_do_finalize True (\<lambda>_. True) sample_opened = (r, ops, d')"
    by (metis prod_cases3)
  ultimately show ?thesis
    using pty_finalize_safe [OF sample_opened_reach, of True "\<lambda>_. True" r ops d'] o
    by (auto simp: pty_do_finalize_def)
qed

end
