(* ===== verification/Pty_Protocol.thy ===== *)
theory Pty_Protocol
  imports Pty_Slots
begin

unbundle bit_operations_syntax

text \<open>
  What the byte machine of \<open>read_pty\<close> (\<^verbatim>\<open>telnetd/pty.c\<close>) promises about a byte stream.

  The abstract side is the receiving half of the network virtual terminal (RFC 854 and 855): a mode and the
  carriage return flag, delivering at most one byte per byte received. The characters that a terminal produces
  for the erase functions are a parameter of it. The driver simulates it on every stream in which an IAC inside
  a subnegotiation is followed by SE; a byte 255 inside a subnegotiation, which the protocol doubles, is the
  remaining conforming case, and the last section shows what the driver does then.
\<close>

section \<open>The protocol automaton\<close>

datatype nvt_mode = Data | Iac | Neg u8 | Sub | Sub_iac

definition nvt_cmd :: "(u8 \<Rightarrow> u8 option) \<Rightarrow> bool \<Rightarrow> u8 \<Rightarrow> u8 option \<times> (nvt_mode \<times> bool)" where
  \<comment> \<open>a command byte after IAC; \<open>ctl\<close> gives the character the terminal produces for it\<close>
  "nvt_cmd ctl cr v =
     (if v \<in> {IAC_DONT, IAC_DO, IAC_WONT, IAC_WILL} then (None, (Neg v, cr))
      else if v = IAC_SB then (None, (Sub, cr))
      else (ctl v, (Data, cr)))"

fun nvt_automaton :: "(u8 \<Rightarrow> u8 option) \<Rightarrow> nvt_mode \<times> bool \<Rightarrow> u8 \<Rightarrow> u8 option \<times> (nvt_mode \<times> bool)" where
  "nvt_automaton ctl (Data, cr) v =
     (if v = IAC_ESC then (None, (Iac, cr))
      else if v = 0 \<and> cr then (None, (Data, False))
      else (Some v, (Data, v = 13)))"
| "nvt_automaton ctl (Iac, cr) v = (if v = IAC_ESC then (Some 255, (Data, cr)) else nvt_cmd ctl cr v)"
| "nvt_automaton ctl (Neg c, cr) v = (None, (Data, cr))"
| "nvt_automaton ctl (Sub, cr) v = (None, (if v = IAC_ESC then Sub_iac else Sub, cr))"
| "nvt_automaton ctl (Sub_iac, cr) v =
     (None, (if v = IAC_SE then Data else Sub, cr)) \<comment> \<open>a doubled IAC is a data byte 255 of the subnegotiation\<close>"

definition driver_ctl :: "u8 \<Rightarrow> u8 option" where
  \<comment> \<open>the driver's characters: backspace to erase a character, and Ctrl-C for erase line\<close>
  "driver_ctl = [IAC_EC \<mapsto> 8, IAC_EL \<mapsto> 3]"

abbreviation nvt_step :: "nvt_mode \<times> bool \<Rightarrow> u8 \<Rightarrow> u8 option \<times> (nvt_mode \<times> bool)" where
  "nvt_step \<equiv> nvt_automaton driver_ctl"

definition nvt_ok :: "nvt_mode \<times> bool \<Rightarrow> u8 \<Rightarrow> bool" where
  \<comment> \<open>in a subnegotiation IAC is followed by SE\<close>
  "nvt_ok s v \<longleftrightarrow> (fst s = Sub_iac \<longrightarrow> v = IAC_SE)"

definition nvt_abs :: "pty_t \<Rightarrow> nvt_mode \<times> bool" where
  "nvt_abs p =
     (let m = iac_mode p in
      (if m = 0 then Data else if m = 255 then Iac else if m = 250 then Sub
       else if m = 0xfaff then Sub_iac else Neg (ucast m), last_cr p))"

lemma read_byte_modes:
  "iac_mode p = 0 \<Longrightarrow> read_byte p v = read_pty_data (p\<lparr>iac_mode := 0\<rparr>) v"
  "iac_mode p = 255 \<Longrightarrow> read_byte p v = read_pty_esc (p\<lparr>iac_mode := 0\<rparr>) 255 v"
  "iac_mode p = 0xfaff \<Longrightarrow> read_byte p v = read_pty_esc (p\<lparr>iac_mode := 0\<rparr>) 0xfaff v"
  "iac_mode p = 251 \<Longrightarrow> read_byte p v = read_pty_will (p\<lparr>iac_mode := 0\<rparr>) v"
  "iac_mode p = 252 \<Longrightarrow> read_byte p v = read_pty_wont (p\<lparr>iac_mode := 0\<rparr>) v"
  "iac_mode p = 253 \<Longrightarrow> read_byte p v = read_pty_do (p\<lparr>iac_mode := 0\<rparr>) v"
  "iac_mode p = 254 \<Longrightarrow> read_byte p v = (-1, [], p\<lparr>iac_mode := 0\<rparr>)"
  by (simp_all add: read_byte_def read_pty_byte_modes)

lemma read_byte_sub:
  "iac_mode p = 250 \<Longrightarrow> v = 255 \<Longrightarrow> read_byte p v = (-1, [], p\<lparr>iac_mode := 0xfaff\<rparr>)"
  "iac_mode p = 250 \<Longrightarrow> v \<noteq> 255 \<Longrightarrow> length (sb_buf p) = SB_MAX \<Longrightarrow> read_byte p v =
     (-1, [], if sb_ind p < SB_MAX then p\<lparr>sb_buf := (sb_buf p)[sb_ind p := v], sb_ind := Suc (sb_ind p)\<rparr> else p)"
  by (simp_all add: read_byte_def read_pty_byte_modes read_pty_sb_def sb_store_def Let_def)

definition rx_step :: "pty_t \<Rightarrow> u8 \<Rightarrow> (int \<times> sysop list) \<times> pty_t" where
  "rx_step p v = (let (r, ops, p') = read_byte p v in ((r, ops), p'))"

definition rx_out :: "int \<times> sysop list \<Rightarrow> u8 option" where
  \<comment> \<open>termios takes a non-negative result of the poll routine as a received character\<close>
  "rx_out out = (if fst out < 0 then None else Some (word_of_int (fst out)))"

definition delivered :: "(int \<times> sysop list) list \<Rightarrow> u8 list" where
  "delivered outs = concat (map (\<lambda>out. case rx_out out of None \<Rightarrow> [] | Some b \<Rightarrow> [b]) outs)"

lemma rx_step_simp [simp]:
  "fst (rx_step p v) = (fst (read_byte p v), fst (snd (read_byte p v)))"
  "snd (rx_step p v) = snd (snd (read_byte p v))"
  by (simp_all add: rx_step_def split_beta)

lemma rx_out_simps [simp]:
  "rx_out (-1, ops) = None" "rx_out (-2, ops) = None" "rx_out (-100, ops) = None"
  "rx_out (-101, ops) = None" "rx_out (-102, ops) = None"
  "rx_out (3, ops) = Some 3" "rx_out (8, ops) = Some 8" "rx_out (255, ops) = Some 255"
  "rx_out (13, ops) = Some 13" "rx_out (uint b, ops) = Some b"
  by (simp_all add: rx_out_def uint_u8_bounds not_less)

lemma nvt_abs_modes:
  "nvt_abs (p\<lparr>iac_mode := 0\<rparr>) = (Data, last_cr p)"
  "nvt_abs (p\<lparr>iac_mode := 255\<rparr>) = (Iac, last_cr p)"
  "nvt_abs (p\<lparr>iac_mode := 250\<rparr>) = (Sub, last_cr p)"
  "nvt_abs (p\<lparr>iac_mode := 0xfaff\<rparr>) = (Sub_iac, last_cr p)"
  by (simp_all add: nvt_abs_def)

lemma nvt_abs_eq:
  "iac_mode p = 0 \<Longrightarrow> nvt_abs p = (Data, last_cr p)"
  "iac_mode p = 255 \<Longrightarrow> nvt_abs p = (Iac, last_cr p)"
  "iac_mode p = 250 \<Longrightarrow> nvt_abs p = (Sub, last_cr p)"
  "iac_mode p = 0xfaff \<Longrightarrow> nvt_abs p = (Sub_iac, last_cr p)"
  "iac_mode p = 251 \<Longrightarrow> nvt_abs p = (Neg 251, last_cr p)"
  "iac_mode p = 252 \<Longrightarrow> nvt_abs p = (Neg 252, last_cr p)"
  "iac_mode p = 253 \<Longrightarrow> nvt_abs p = (Neg 253, last_cr p)"
  "iac_mode p = 254 \<Longrightarrow> nvt_abs p = (Neg 254, last_cr p)"
  by (simp_all add: nvt_abs_def)

lemma read_pty_esc_nvt:
  assumes "v \<noteq> IAC_ESC"
  shows "nvt_cmd driver_ctl (last_cr p) v =
    (rx_out (fst (read_pty_esc (p\<lparr>iac_mode := 0\<rparr>) m v), fst (snd (read_pty_esc (p\<lparr>iac_mode := 0\<rparr>) m v))),
     nvt_abs (snd (snd (read_pty_esc (p\<lparr>iac_mode := 0\<rparr>) m v))))"
  using assms by (simp add: read_pty_esc_def nvt_cmd_def driver_ctl_def nvt_abs_eq)

lemma rx_step_simulates:
  assumes wf: "decoder_wf p" and ok: "nvt_ok (nvt_abs p) v"
  shows "nvt_step (nvt_abs p) v = (rx_out (fst (rx_step p v)), nvt_abs (snd (rx_step p v)))"
proof -
  from wf have "valid_mode (iac_mode p)" by (simp add: decoder_wf_def)
  then show ?thesis
  proof (cases rule: valid_mode_cases)
    case 1
    then show ?thesis
      by (simp add: read_byte_modes nvt_abs_eq read_pty_data_def)
  next
    case 2
    then show ?thesis
      using read_pty_esc_nvt [of v p 255]
      by (cases "v = IAC_ESC") (simp_all add: read_byte_modes nvt_abs_eq, simp add: read_pty_esc_def nvt_abs_eq)
  next
    case 3
    with ok have v: "v = IAC_SE" by (simp add: nvt_ok_def nvt_abs_eq)
    with 3 show ?thesis
      by (simp add: read_byte_modes nvt_abs_eq read_pty_esc_def)
  next
    case 4
    with wf show ?thesis
      by (cases "v = IAC_ESC") (simp_all add: read_byte_sub nvt_abs_eq decoder_wf_def)
  qed (simp_all add: read_byte_modes nvt_abs_eq read_pty_will_def read_pty_wont_def read_pty_do_def)
qed

interpretation telnet_rx: refined_machine rx_step decoder_wf nvt_step nvt_ok nvt_abs rx_out
proof
  show "decoder_wf (snd (rx_step p v))" if "decoder_wf p" for p v
    using that by (simp add: read_byte_decoder_wf)
  show "nvt_step (nvt_abs p) v = (rx_out (fst (rx_step p v)), nvt_abs (snd (rx_step p v)))"
    if "decoder_wf p" and "nvt_ok (nvt_abs p) v" for p v
    using that by (rule rx_step_simulates)
qed

section \<open>Symbolic execution of the decoder\<close>

text \<open>One equation per transition, so that a run over given bytes evaluates by rewriting.\<close>

lemma rx_eval:
  "iac_mode p = 0 \<Longrightarrow> rx_step p 255 = ((-1, []), p\<lparr>iac_mode := 255\<rparr>)"
  "iac_mode p = 255 \<Longrightarrow> rx_step p 255 = ((255, []), p\<lparr>iac_mode := 0\<rparr>)"
  "iac_mode p = 255 \<Longrightarrow> rx_step p 251 = ((-1, []), p\<lparr>iac_mode := 251\<rparr>)"
  "iac_mode p = 255 \<Longrightarrow> rx_step p 252 = ((-1, []), p\<lparr>iac_mode := 252\<rparr>)"
  "iac_mode p = 255 \<Longrightarrow> rx_step p 253 = ((-1, []), p\<lparr>iac_mode := 253\<rparr>)"
  "iac_mode p = 255 \<Longrightarrow> rx_step p 254 = ((-1, []), p\<lparr>iac_mode := 254\<rparr>)"
  "iac_mode p = 255 \<Longrightarrow> rx_step p 250 = ((-100, []), p\<lparr>iac_mode := 250, sb_ind := 0\<rparr>)"
  "iac_mode p = 250 \<Longrightarrow> rx_step p 255 = ((-1, []), p\<lparr>iac_mode := 0xfaff\<rparr>)"
  "iac_mode p = 0xfaff \<Longrightarrow> rx_step p 255 = ((255, []), p\<lparr>iac_mode := 250\<rparr>)"
  "iac_mode p = 0xfaff \<Longrightarrow> rx_step p 240 = ((-101, []), handleSB (p\<lparr>iac_mode := 0\<rparr>))"
  by (simp_all add: rx_step_def read_byte_modes read_byte_sub read_pty_data_def read_pty_esc_def)

lemma rx_eval_sub:
  "iac_mode p = 250 \<Longrightarrow> v \<noteq> 255 \<Longrightarrow> sb_ind p < SB_MAX \<Longrightarrow> length (sb_buf p) = SB_MAX \<Longrightarrow>
     rx_step p v = ((-1, []), p\<lparr>sb_buf := (sb_buf p)[sb_ind p := v], sb_ind := Suc (sb_ind p)\<rparr>)"
  by (simp add: rx_step_def read_byte_sub)

lemma rx_eval_neg:
  "iac_mode p = 254 \<Longrightarrow> rx_step p v = ((-1, []), p\<lparr>iac_mode := 0\<rparr>)"
  "iac_mode p = 251 \<Longrightarrow> rx_step p v =
     ((-1, fst (snd (read_pty_will p v))), p\<lparr>iac_mode := 0\<rparr>)"
  "iac_mode p = 252 \<Longrightarrow> rx_step p v =
     ((-1, fst (snd (read_pty_wont p v))), p\<lparr>iac_mode := 0\<rparr>)"
  "iac_mode p = 253 \<Longrightarrow> rx_step p v =
     ((-1, fst (snd (read_pty_do p v))), p\<lparr>iac_mode := 0\<rparr>)"
  by (simp_all add: rx_step_def read_byte_modes read_pty_will_def read_pty_wont_def
      read_pty_do_def send_iac_def)

section \<open>Properties\<close>



text \<open>The sender's side of the network virtual terminal: 255 is doubled, and a carriage
  return that is not part of an end of line is followed by NUL.\<close>

definition nvt_encode :: "u8 list \<Rightarrow> u8 list" where
  "nvt_encode data = concat (map (\<lambda>b. if b = 255 then [255, 255] else if b = 13 then [13, 0] else [b]) data)"

lemma nvt_encode_Cons:
  "nvt_encode (b # data) = (if b = 255 then [255, 255] else if b = 13 then [13, 0] else [b]) @ nvt_encode data"
  by (simp add: nvt_encode_def)

lemma rx_encode_one:
  assumes "iac_mode p = 0" and "\<not> last_cr p"
  shows "delivered (fst (run rx_step p (nvt_encode [b]))) = [b] \<and> snd (run rx_step p (nvt_encode [b])) = p"
  using assms
  by (simp add: nvt_encode_def delivered_def Let_def split_beta read_byte_modes read_pty_data_def
      read_pty_esc_def)

lemma delivered_append: "delivered (xs @ ys) = delivered xs @ delivered ys"
  by (simp add: delivered_def)

text \<open>C11: Transparency: any data whatsoever, sent in the network virtual terminal encoding,
  is delivered unchanged, and the slot is back in the state it started from.\<close>

theorem telnet_transparent:
  assumes "iac_mode p = 0" and "\<not> last_cr p"
  shows "delivered (fst (run rx_step p (nvt_encode data))) = data \<and>
    snd (run rx_step p (nvt_encode data)) = p"
proof (induction data)
  case Nil
  show ?case by (simp add: nvt_encode_def delivered_def)
next
  case (Cons b data)
  have "nvt_encode (b # data) = nvt_encode [b] @ nvt_encode data"
    by (simp add: nvt_encode_def)
  with rx_encode_one [OF assms, of b] Cons.IH show ?case
    by (simp add: run_append Let_def split_beta delivered_append)
qed

theorem telnet_transparent_witness:
  "iac_mode zero_pty = 0 \<and> \<not> last_cr zero_pty \<and>
   delivered (fst (run rx_step zero_pty [13, 0, 255, 255, 0])) = [13, 255, 0]"
  using telnet_transparent [of zero_pty "[13, 255, 0]"] by (simp add: zero_pty_def nvt_encode_def)

lemma rx_naws_bytes:
  assumes "iac_mode p = 250" and "list_all (\<lambda>b. b \<noteq> 255) bs" and "sb_ind p + length bs \<le> SB_MAX"
    and "length (sb_buf p) = SB_MAX"
  shows "delivered (fst (run rx_step p bs)) = [] \<and>
    snd (run rx_step p bs) =
      p\<lparr>sb_buf := take (sb_ind p) (sb_buf p) @ bs @ drop (sb_ind p + length bs) (sb_buf p),
        sb_ind := sb_ind p + length bs\<rparr>"
  using assms
proof (induction bs arbitrary: p)
  case Nil
  then show ?case by (simp add: delivered_def)
next
  case (Cons b bs)
  let ?q = "p\<lparr>sb_buf := (sb_buf p)[sb_ind p := b], sb_ind := Suc (sb_ind p)\<rparr>"
  from Cons.prems have st: "rx_step p b = ((-1, []), ?q)"
    by (simp add: rx_step_def read_byte_sub)
  from Cons.prems have ih: "delivered (fst (run rx_step ?q bs)) = []"
    "snd (run rx_step ?q bs) =
      ?q\<lparr>sb_buf := take (sb_ind ?q) (sb_buf ?q) @ bs @ drop (sb_ind ?q + length bs) (sb_buf ?q),
        sb_ind := sb_ind ?q + length bs\<rparr>"
    using Cons.IH [of ?q] by simp_all
  have "take (Suc (sb_ind p)) ((sb_buf p)[sb_ind p := b]) = take (sb_ind p) (sb_buf p) @ [b]"
    using Cons.prems by (simp add: take_Suc_conv_app_nth)
  with st ih show ?case by (simp add: delivered_def Let_def split_beta)
qed

text \<open>Window size negotiation: the subnegotiation IAC SB NAWS w1 w0 h1 h0 IAC SE, received
  between data bytes and with no size byte equal to 255, sets the slot's width and height to
  the two big-endian values, delivers nothing to the terminal and returns to data mode.\<close>

theorem telnet_naws:
  assumes "decoder_wf p" and "iac_mode p = 0"
    and "w1 \<noteq> 255" and "w0 \<noteq> 255" and "h1 \<noteq> 255" and "h0 \<noteq> 255"
  defines "q \<equiv> snd (run rx_step p [255, 250, 31, w1, w0, h1, h0, 255, 240])"
  shows "width q = uint w1 * 256 + uint w0 \<and> height q = uint h1 * 256 + uint h0 \<and>
    iac_mode q = 0 \<and> last_cr q = last_cr p \<and>
    delivered (fst (run rx_step p [255, 250, 31, w1, w0, h1, h0, 255, 240])) = []"
proof -
  let ?p2 = "p\<lparr>iac_mode := 250, sb_ind := 0\<rparr>"
  let ?bs = "[31, w1, w0, h1, h0]"
  let ?p3 = "?p2\<lparr>sb_buf := ?bs @ drop (length ?bs) (sb_buf p), sb_ind := length ?bs\<rparr>"
  have split: "[255, 250, 31, w1, w0, h1, h0, 255, 240] = [255, 250] @ ?bs @ [255, 240]" by simp
  have a: "run rx_step p [255, 250] = ([(-1, []), (-100, [])], ?p2)"
    using assms(2) by (simp add: rx_eval)
  have b: "delivered (fst (run rx_step ?p2 ?bs)) = []" "snd (run rx_step ?p2 ?bs) = ?p3"
    using rx_naws_bytes [of ?p2 ?bs] assms by (simp_all add: decoder_wf_def del: run.simps)
  have c: "run rx_step ?p3 [255, 240] = ([(-1, []), (-101, [])], handleSB (?p3\<lparr>iac_mode := 0\<rparr>))"
    by (simp add: rx_eval)
  have "q = handleSB (?p3\<lparr>iac_mode := 0\<rparr>)"
    unfolding q_def split run_append a Let_def split_beta fst_conv snd_conv b(2) c ..
  moreover have "delivered (fst (run rx_step p [255, 250, 31, w1, w0, h1, h0, 255, 240])) = []"
    unfolding split run_append a Let_def split_beta fst_conv snd_conv b(2) c delivered_append b(1)
    by (simp add: delivered_def)
  ultimately show ?thesis by (simp add: handleSB_def)
qed

theorem telnet_naws_witness:
  "width (snd (run rx_step zero_pty [255, 250, 31, 0, 132, 1, 4, 255, 240])) = 132 \<and>
   height (snd (run rx_step zero_pty [255, 250, 31, 0, 132, 1, 4, 255, 240])) = 260"
proof -
  have wf: "decoder_wf zero_pty" by (simp add: zero_pty_def decoder_wf_def valid_mode_def)
  from telnet_naws [OF wf, of 0 132 1 4] show ?thesis by (simp add: zero_pty_def)
qed

text \<open>What is written to the peer.\<close>

definition replies :: "(int \<times> sysop list) list \<Rightarrow> sysop list" where
  "replies outs = concat (map snd outs)"

text \<open>C17: Option negotiation: the three-byte request IAC verb option, received in data mode,
  is answered with one or two three-byte replies as the driver's policy has it (WILL is
  answered DO for NAWS, DONT plus DO ECHO for LINEMODE and DONT otherwise; DO is answered WILL
  for option 3, nothing for ECHO, WONT otherwise; WONT is answered WILL ECHO or WONT; DONT is
  not answered), nothing is delivered to the terminal, and the slot is unchanged.\<close>

theorem telnet_negotiation:
  assumes "iac_mode p = 0"
  shows "let reply = (\<lambda>verb opt. Write (socket p) [255, verb, opt]);
             outcome = (\<lambda>verb opt. (delivered (fst (run rx_step p [255, verb, opt])),
                replies (fst (run rx_step p [255, verb, opt])), snd (run rx_step p [255, verb, opt]))) in
    outcome IAC_WILL opt = ([], if opt = 34 then [reply IAC_DONT 34, reply IAC_DO 1]
       else if opt = 31 then [reply IAC_DO 31] else [reply IAC_DONT opt], p) \<and>
    outcome IAC_DO opt = ([], if opt = 3 then [reply IAC_WILL 3]
       else if opt = 1 then [] else [reply IAC_WONT opt], p) \<and>
    outcome IAC_WONT opt = ([], [if opt = 1 then reply IAC_WILL 1 else reply IAC_WONT opt], p) \<and>
    outcome IAC_DONT opt = ([], [], p)"
  using assms
  by (simp add: rx_eval rx_eval_neg Let_def delivered_def replies_def del: rx_step_simp)
    (simp add: read_pty_will_def read_pty_do_def read_pty_wont_def send_iac_def)

theorem telnet_negotiation_witness:
  "iac_mode zero_pty = 0 \<and>
   replies (fst (run rx_step (zero_pty\<lparr>socket := 7\<rparr>) [255, 251, 31])) = [Write 7 [255, 253, 31]]"
  using telnet_negotiation [of "zero_pty\<lparr>socket := 7\<rparr>" 31]
  by (simp add: Let_def zero_pty_def del: run.simps)

section \<open>Where the driver departs from the protocol\<close>

text \<open>A window of 255 columns and 24 rows, announced as the protocol demands with the byte
  255 doubled, is not understood: the driver hands a character 255 to the terminal, drops
  the byte from the subnegotiation, and sets the width to 0 and the height to a value whose
  low byte is left over from an earlier subnegotiation.\<close>

theorem telnet_naws_escaped_defect:
  assumes "decoder_wf p" and "iac_mode p = 0"
  defines "bs \<equiv> [255, 250, 31, 0, 255, 255, 0, 24, 255, 240]"
  shows "delivered (fst (run rx_step p bs)) = [255] \<and> width (snd (run rx_step p bs)) = 0 \<and>
    height (snd (run rx_step p bs)) = 24 * 256 + uint (sb_buf p ! 4)"
proof -
  from assms(1) have "length (sb_buf p) = SB_MAX" by (simp add: decoder_wf_def)
  with assms(2) show ?thesis
    by (simp add: bs_def rx_eval rx_eval_sub delivered_def handleSB_def del: rx_step_simp)
      (simp add: nth_list_update flip: numeral_2_eq_2 numeral_3_eq_3)
qed

theorem telnet_naws_escaped_defect_witness:
  "delivered (fst (run rx_step zero_pty [255, 250, 31, 0, 255, 255, 0, 24, 255, 240])) = [255] \<and>
   width (snd (run rx_step zero_pty [255, 250, 31, 0, 255, 255, 0, 24, 255, 240])) = 0"
proof -
  have wf: "decoder_wf zero_pty" by (simp add: zero_pty_def decoder_wf_def valid_mode_def)
  from telnet_naws_escaped_defect [OF wf] show ?thesis by (simp add: zero_pty_def del: run.simps)
qed

text \<open>A new session inherits the carriage return flag of the previous one on the same slot:
  if the last data byte of the old session was CR, the first byte NUL of the new one is
  swallowed, because neither the shutdown, nor the allocation, nor the first open resets
  \<open>last_cr\<close>.\<close>

theorem telnet_last_cr_survives_session:
  assumes "pty_ready d" and "telnet_ptys d ! 0 = p" and "last_cr p" and "0 \<le> sock"
    and "ptyShutdown 0 d = Inr (r1, ops1, d1)"
    and "telnet_get_pty sock d1 = (Some nm, ops2, d2)"
    and "ptyPollInitialize 0 tty dflt d2 = Inr (r3, d3)"
  shows "nm = dev_name 0 \<and> r3 = 0 \<and>
    (\<exists>d4. ptyPollRead 0 (Rd_byte 0) d3 = Inr (-1, [], d4))"
proof -
  have len: "length (telnet_ptys d) = MAX_PTYS" using assms(1) by simp
  let ?q = "p\<lparr>opened := False, socket := -1\<rparr>"
  have d1: "d1 = set_pty 0 ?q d"
    using assms(2,5) len by (auto simp: ptyShutdown_def pty_at_def)
  have ne: "telnet_ptys d \<noteq> []" using len by auto
  then obtain x xs where ptys: "telnet_ptys d = x # xs" by (cases "telnet_ptys d") auto
  have "find_free 0 (telnet_ptys d1) = Some 0"
    unfolding d1 using ptys by simp
  moreover have "telnet_pty_inited d1"
    using assms(1) unfolding d1 by (simp add: pty_ready_def)
  ultimately have d2: "d2 = set_pty 0 (?q\<lparr>socket := sock\<rparr>) d1" "nm = devname p"
    using assms(6) ptys unfolding d1 by (auto simp: telnet_get_pty_def Let_def)
  have nm: "nm = dev_name 0"
    using d2(2) assms(1,2) names_wf_slot [of d 0] ne by (simp add: pty_ready_def)
  have p2: "telnet_ptys d2 = ?q\<lparr>socket := sock\<rparr> # xs"
    unfolding d2(1) d1 using ptys by simp
  then have "r3 = 0" and d3: "telnet_ptys d3 = ?q\<lparr>socket := sock, opened := True, ttyp := Some tty, iac_mode := 0,
        sb_ind := 0, width := 0, height := 0, c_cflag := dflt\<rparr> # xs"
    using assms(4,7) by (auto simp: ptyPollInitialize_def ptySetAttributes_def pty_at_def)
  with nm assms(3,4) show ?thesis
    by (simp add: ptyPollRead_def read_pty_def pty_at_def read_pty_byte_modes read_pty_data_def Let_def)
qed

lemma ptyShutdown_total: "pty_ready d \<Longrightarrow> 0 \<le> m \<Longrightarrow> \<exists>r ops d'. ptyShutdown m d = Inr (r, ops, d')"
  by (auto simp: ptyShutdown_def pty_at_def)

lemma ptyPollInitialize_total:
  assumes "pty_ready d" and "0 \<le> m"
  shows "\<exists>r d'. ptyPollInitialize m tty dflt d = Inr (r, d')"
proof (cases "m < int MAX_PTYS \<and> \<not> socket (telnet_ptys d ! nat m) < 0")
  case True
  with assms show ?thesis
    by (simp add: ptyPollInitialize_def ptySetAttributes_def pty_at_def nat_less_iff)
next
  case False
  with assms show ?thesis by (auto simp: ptyPollInitialize_def pty_at_def)
qed

theorem telnet_last_cr_survives_session_witness:
  "\<exists>d d1 d2 d3 d4 r1 ops1 ops2.
     pty_ready d \<and> last_cr (telnet_ptys d ! 0) \<and> ptyShutdown 0 d = Inr (r1, ops1, d1) \<and>
     telnet_get_pty 9 d1 = (Some (dev_name 0), ops2, d2) \<and>
     ptyPollInitialize 0 1 13 d2 = Inr (0, d3) \<and> ptyPollRead 0 (Rd_byte 0) d3 = Inr (-1, [], d4)"
proof -
  let ?p = "(telnet_ptys sample_connected ! 0)\<lparr>last_cr := True\<rparr>"
  let ?d = "set_pty 0 ?p sample_connected"
  have "slot_wf ?p"
    using pty_ready_slot [OF sample_connected_ready, of 0] by (simp add: slot_wf_def decoder_wf_def)
  then have rdy: "pty_ready ?d"
    by (intro pty_ready_set_pty sample_connected_ready) simp_all
  have p: "telnet_ptys ?d ! 0 = ?p" using sample_connected_slot(2) by simp
  obtain r1 ops1 d1 where sd: "ptyShutdown 0 ?d = Inr (r1, ops1, d1)"
    using ptyShutdown_total [OF rdy, of 0] by auto
  have h: "dev_name 0 \<in> pty_handles" and rel: "pool_release (dev_name 0) ?d = d1"
    using sd by (simp_all add: pool_release_def pty_handles_def)
  have rdy1: "pty_ready d1"
    using pty_pool.release [OF rdy h] rel by simp
  have "fst (pool_alloc 9 d1) \<noteq> None"
    using pty_pool.release_then_alloc [OF rdy _ h, of 9] rel by simp
  then obtain nm ops2 d2 where g: "telnet_get_pty 9 d1 = (Some nm, ops2, d2)"
    by (auto simp: pool_alloc_def split: prod.splits)
  have rdy2: "pty_ready d2"
    using pty_pool.alloc_Some [OF rdy1, of 9 nm d2] g by (simp add: pool_alloc_def)
  then obtain r3 d3 where i: "ptyPollInitialize 0 1 13 d2 = Inr (r3, d3)"
    using ptyPollInitialize_total [of d2 0 1 13] by auto
  from telnet_last_cr_survives_session [OF rdy p _ _ sd g i] rdy p sd g i show ?thesis
    by auto
qed

text \<open>A refusal is answered with the same refusal, where the protocol asks for no answer or for DONT.
  Each side receives in turn what the other has written; against a peer that works like this driver a
  single WONT goes back and forth without end.\<close>

fun write_bytes :: "sysop \<Rightarrow> u8 list" where
  "write_bytes (Write sock bs) = bs"
| "write_bytes _ = []"

fun exchange :: "nat \<Rightarrow> pty_t \<Rightarrow> pty_t \<Rightarrow> u8 list \<Rightarrow> u8 list" where
  "exchange 0 p q bs = bs"
| "exchange (Suc n) p q bs =
     (let (outs, p') = run rx_step p bs in exchange n q p' (concat (map write_bytes (replies outs))))"

theorem telnet_wont_loops:
  "iac_mode p = 0 \<Longrightarrow> iac_mode q = 0 \<Longrightarrow> opt \<noteq> 1 \<Longrightarrow> exchange n p q [255, 252, opt] = [255, 252, opt]"
proof (induction n arbitrary: p q)
  case (Suc n)
  then have "run rx_step p [255, 252, opt] = ([(-1, []), (-1, []), (-1, [Write (socket p) [255, 252, opt]])], p)"
    by (simp add: rx_eval rx_eval_neg del: rx_step_simp) (simp add: read_pty_wont_def send_iac_def)
  with Suc show ?case by (simp add: replies_def Let_def del: run.simps)
qed simp

theorem telnet_wont_loops_witness:
  "exchange 1000 zero_pty zero_pty [255, 252, 5] = [255, 252, 5]"
  by (rule telnet_wont_loops) (simp_all add: zero_pty_def)

section \<open>Output\<close>

text \<open>What a client decodes from bytes sent without any encoding.\<close>

definition nvt_decode :: "u8 list \<Rightarrow> u8 list" where
  "nvt_decode bs = List.map_filter (\<lambda>x. x) (fst (run nvt_step (Data, False) bs))"

fun plain :: "bool \<Rightarrow> u8 list \<Rightarrow> bool" where
  "plain cr [] = True"
| "plain cr (b # bs) = (b \<noteq> 255 \<and> \<not> (b = 0 \<and> cr) \<and> plain (b = 13) bs)"

lemma decoded_length: "length (List.map_filter (\<lambda>x. x) (fst (run st s bs))) \<le> length bs"
  by (metis length_filter_le length_map length_run List.map_filter_def)

lemma decoded_plain: "List.map_filter (\<lambda>x. x) (fst (run nvt_step (Data, cr) bs)) = bs \<longleftrightarrow> plain cr bs"
proof (induction bs arbitrary: cr)
  case (Cons b bs)
  have short: "List.map_filter (\<lambda>x. x) (fst (run nvt_step s bs)) \<noteq> c # bs" for s c
    using decoded_length [of nvt_step s bs] by auto
  show ?case using Cons.IH short by (simp add: Let_def split_beta List.map_filter_simps)
qed simp

text \<open>The driver hands output to the socket as it is. A client that follows the protocol shows it as
  it was written exactly when it contains neither the byte 255 nor a CR followed by NUL: the driver
  undoes the encoding of the network virtual terminal on input and does not apply it to output.\<close>

theorem pty_output_plain:
  assumes "n < MAX_PTYS" "length (telnet_ptys d) = MAX_PTYS" "0 \<le> socket (telnet_ptys d ! n)"
  shows "\<exists>bs. ptyPollWrite (int n) data w d = Inr (w, [Write (socket (telnet_ptys d ! n)) bs]) \<and>
    (nvt_decode bs = data \<longleftrightarrow> plain False data)"
  using assms by (auto simp: ptyPollWrite_def pty_at_def nvt_decode_def decoded_plain)

theorem pty_output_plain_witness:
  "ptyPollWrite 0 [255, 65] 2 sample_connected = Inr (2, [Write 7 [255, 65]]) \<and> nvt_decode [255, 65] \<noteq> [255, 65]"
  using pty_output_plain [of 0 sample_connected "[255, 65]" 2] sample_connected_ready sample_connected_slot
  by (auto simp: nvt_decode_def decoded_plain ptyPollWrite_def pty_at_def)

end
