(* ===== verification/Des.thy ===== *)
theory Des
  imports Prelude
begin

unbundle bit_operations_syntax

text \<open>
  The password encryption of the telnet daemon, \<^verbatim>\<open>telnetd/des.c\<close> (FreeSec DES).

  The constant tables are the source's. The tables that \<open>des_init\<close> computes are the lists
  its loops leave behind, one definition per table: a cell is the value the innermost loop
  gives it, and a row is the list of its cells in index order. They do not change after the
  first call of \<open>des_init\<close>, which every public entry point makes first, so the model has
  them as constants. The per-call data of \<open>struct Des_Context\<close> are passed explicitly, and
  what a fresh \<open>malloc\<close> block contains is an argument.

  32-bit values are words; table indices are naturals, obtained with \<open>unat\<close> from the
  shifted and masked words the source indexes with.
\<close>

section \<open>Constant tables\<close>

definition ascii64 :: cstring where
  "ascii64 = of_string ''./0123456789ABCDEFGHIJKLMNOPQRSTUVWXYZabcdefghijklmnopqrstuvwxyz''"

definition IP :: "nat list" where
  "IP = [
   58, 50, 42, 34, 26, 18, 10, 2, 60, 52, 44, 36, 28, 20, 12, 4,
   62, 54, 46, 38, 30, 22, 14, 6, 64, 56, 48, 40, 32, 24, 16, 8,
   57, 49, 41, 33, 25, 17, 9, 1, 59, 51, 43, 35, 27, 19, 11, 3,
   61, 53, 45, 37, 29, 21, 13, 5, 63, 55, 47, 39, 31, 23, 15, 7]"

definition key_perm :: "nat list" where
  "key_perm = [
   57, 49, 41, 33, 25, 17, 9, 1, 58, 50, 42, 34, 26, 18,
   10, 2, 59, 51, 43, 35, 27, 19, 11, 3, 60, 52, 44, 36,
   63, 55, 47, 39, 31, 23, 15, 7, 62, 54, 46, 38, 30, 22,
   14, 6, 61, 53, 45, 37, 29, 21, 13, 5, 28, 20, 12, 4]"

definition key_shifts :: "nat list" where
  "key_shifts = [
   1, 1, 2, 2, 2, 2, 2, 2, 1, 2, 2, 2, 2, 2, 2, 1]"

definition comp_perm :: "nat list" where
  "comp_perm = [
   14, 17, 11, 24, 1, 5, 3, 28, 15, 6, 21, 10,
   23, 19, 12, 4, 26, 8, 16, 7, 27, 20, 13, 2,
   41, 52, 31, 37, 47, 55, 30, 40, 51, 45, 33, 48,
   44, 49, 39, 56, 34, 53, 46, 42, 50, 36, 29, 32]"

definition pbox :: "nat list" where
  "pbox = [
   16, 7, 20, 21, 29, 12, 28, 17, 1, 15, 23, 26, 5, 18, 31, 10,
   2, 8, 24, 14, 32, 27, 3, 9, 19, 13, 30, 6, 22, 11, 4, 25]"

definition sbox :: "nat list list" where
  "sbox = [
   [14, 4, 13, 1, 2, 15, 11, 8, 3, 10, 6, 12, 5, 9, 0, 7,
    0, 15, 7, 4, 14, 2, 13, 1, 10, 6, 12, 11, 9, 5, 3, 8,
    4, 1, 14, 8, 13, 6, 2, 11, 15, 12, 9, 7, 3, 10, 5, 0,
    15, 12, 8, 2, 4, 9, 1, 7, 5, 11, 3, 14, 10, 0, 6, 13],
   [15, 1, 8, 14, 6, 11, 3, 4, 9, 7, 2, 13, 12, 0, 5, 10,
    3, 13, 4, 7, 15, 2, 8, 14, 12, 0, 1, 10, 6, 9, 11, 5,
    0, 14, 7, 11, 10, 4, 13, 1, 5, 8, 12, 6, 9, 3, 2, 15,
    13, 8, 10, 1, 3, 15, 4, 2, 11, 6, 7, 12, 0, 5, 14, 9],
   [10, 0, 9, 14, 6, 3, 15, 5, 1, 13, 12, 7, 11, 4, 2, 8,
    13, 7, 0, 9, 3, 4, 6, 10, 2, 8, 5, 14, 12, 11, 15, 1,
    13, 6, 4, 9, 8, 15, 3, 0, 11, 1, 2, 12, 5, 10, 14, 7,
    1, 10, 13, 0, 6, 9, 8, 7, 4, 15, 14, 3, 11, 5, 2, 12],
   [7, 13, 14, 3, 0, 6, 9, 10, 1, 2, 8, 5, 11, 12, 4, 15,
    13, 8, 11, 5, 6, 15, 0, 3, 4, 7, 2, 12, 1, 10, 14, 9,
    10, 6, 9, 0, 12, 11, 7, 13, 15, 1, 3, 14, 5, 2, 8, 4,
    3, 15, 0, 6, 10, 1, 13, 8, 9, 4, 5, 11, 12, 7, 2, 14],
   [2, 12, 4, 1, 7, 10, 11, 6, 8, 5, 3, 15, 13, 0, 14, 9,
    14, 11, 2, 12, 4, 7, 13, 1, 5, 0, 15, 10, 3, 9, 8, 6,
    4, 2, 1, 11, 10, 13, 7, 8, 15, 9, 12, 5, 6, 3, 0, 14,
    11, 8, 12, 7, 1, 14, 2, 13, 6, 15, 0, 9, 10, 4, 5, 3],
   [12, 1, 10, 15, 9, 2, 6, 8, 0, 13, 3, 4, 14, 7, 5, 11,
    10, 15, 4, 2, 7, 12, 9, 5, 6, 1, 13, 14, 0, 11, 3, 8,
    9, 14, 15, 5, 2, 8, 12, 3, 7, 0, 4, 10, 1, 13, 11, 6,
    4, 3, 2, 12, 9, 5, 15, 10, 11, 14, 1, 7, 6, 0, 8, 13],
   [4, 11, 2, 14, 15, 0, 8, 13, 3, 12, 9, 7, 5, 10, 6, 1,
    13, 0, 11, 7, 4, 9, 1, 10, 14, 3, 5, 12, 2, 15, 8, 6,
    1, 4, 11, 13, 12, 3, 7, 14, 10, 15, 6, 8, 0, 5, 9, 2,
    6, 11, 13, 8, 1, 4, 10, 7, 9, 5, 0, 15, 14, 2, 3, 12],
   [13, 2, 8, 4, 6, 15, 11, 1, 10, 9, 3, 14, 5, 0, 12, 7,
    1, 15, 13, 8, 10, 3, 7, 4, 12, 5, 6, 11, 0, 14, 9, 2,
    7, 11, 4, 1, 9, 12, 14, 2, 0, 6, 10, 13, 15, 3, 5, 8,
    2, 1, 14, 7, 4, 10, 8, 13, 15, 12, 9, 0, 3, 5, 6, 11]]"

definition bits32 :: "u32 list" where
  "bits32 = [
   0x80000000, 0x40000000, 0x20000000, 0x10000000,
   0x08000000, 0x04000000, 0x02000000, 0x01000000,
   0x00800000, 0x00400000, 0x00200000, 0x00100000,
   0x00080000, 0x00040000, 0x00020000, 0x00010000,
   0x00008000, 0x00004000, 0x00002000, 0x00001000,
   0x00000800, 0x00000400, 0x00000200, 0x00000100,
   0x00000080, 0x00000040, 0x00000020, 0x00000010,
   0x00000008, 0x00000004, 0x00000002, 0x00000001]"

definition bits8 :: "nat list" where
  "bits8 = [0x80, 0x40, 0x20, 0x10, 0x08, 0x04, 0x02, 0x01]"

section \<open>The tables of des\_init\<close>

text \<open>The S-boxes with the six input bits reordered, and combined in pairs into four tables
  of 4096 bytes.\<close>

definition u_sbox :: "nat \<Rightarrow> nat list" where
  "u_sbox i = map (\<lambda>j. let b = (j AND 0x20) OR push_bit 4 (j AND 1) OR (drop_bit 1 j AND 0xf)
                       in sbox ! i ! b) [0..<64]"

definition m_sbox_cell :: "nat \<Rightarrow> nat \<Rightarrow> nat \<Rightarrow> u8" where
  "m_sbox_cell b i j = word_of_nat (push_bit 4 (u_sbox (push_bit 1 b) ! i) OR u_sbox (push_bit 1 b + 1) ! j)"

definition m_sbox :: "nat \<Rightarrow> u8 list" where
  \<comment> \<open>row-major in \<open>i\<close> and \<open>j\<close>: index \<open>(i << 6) | j\<close>\<close>
  "m_sbox b = concat (map (\<lambda>i. map (\<lambda>j. m_sbox_cell b i j) [0..<64]) [0..<64])"

definition final_perm :: "nat list" where
  "final_perm = map (\<lambda>i. IP ! i - 1) [0..<64]"

definition invert :: "nat list \<Rightarrow> nat list \<Rightarrow> nat list" where
  \<comment> \<open>the loops \<open>a[t[i] - 1] = i\<close>\<close>
  "invert t a = fold (\<lambda>i a. a[t ! i - 1 := i]) [0..<length t] a"

definition init_perm :: "nat list" where
  "init_perm = invert IP (replicate 64 0)"

definition inv_key_perm :: "nat list" where
  "inv_key_perm = invert key_perm (replicate 64 255)"

definition inv_comp_perm :: "nat list" where
  "inv_comp_perm = invert comp_perm (replicate 56 255)"

definition un_pbox :: "nat list" where
  "un_pbox = invert pbox (replicate 32 0)"

text \<open>The OR-masks. In \<open>hit\<close>, bit \<open>j\<close> of the index counts from the most significant of the
  8 (or 7) bits.\<close>

definition hit :: "nat \<Rightarrow> nat \<Rightarrow> bool" where
  "hit i j \<longleftrightarrow> i AND bits8 ! j \<noteq> 0"

definition perm_maskl :: "nat list \<Rightarrow> nat \<Rightarrow> nat \<Rightarrow> u32" where
  "perm_maskl perm k i =
     or_masks (\<lambda>j. hit i j \<and> perm ! (8 * k + j) < 32) (\<lambda>j. bits32 ! (perm ! (8 * k + j))) [0..<8] 0"

definition perm_maskr :: "nat list \<Rightarrow> nat \<Rightarrow> nat \<Rightarrow> u32" where
  "perm_maskr perm k i =
     or_masks (\<lambda>j. hit i j \<and> \<not> perm ! (8 * k + j) < 32) (\<lambda>j. bits32 ! (perm ! (8 * k + j) - 32)) [0..<8] 0"

definition ip_maskl :: "nat \<Rightarrow> u32 list" where "ip_maskl k = map (perm_maskl init_perm k) [0..<256]"
definition ip_maskr :: "nat \<Rightarrow> u32 list" where "ip_maskr k = map (perm_maskr init_perm k) [0..<256]"
definition fp_maskl :: "nat \<Rightarrow> u32 list" where "fp_maskl k = map (perm_maskl final_perm k) [0..<256]"
definition fp_maskr :: "nat \<Rightarrow> u32 list" where "fp_maskr k = map (perm_maskr final_perm k) [0..<256]"

definition key_perm_maskl :: "nat \<Rightarrow> u32 list" where
  "key_perm_maskl k = map (\<lambda>i.
     or_masks (\<lambda>j. hit i (j + 1) \<and> inv_key_perm ! (8 * k + j) \<noteq> 255 \<and> inv_key_perm ! (8 * k + j) < 28)
       (\<lambda>j. bits32 ! (4 + inv_key_perm ! (8 * k + j))) [0..<7] 0) [0..<128]"

definition key_perm_maskr :: "nat \<Rightarrow> u32 list" where
  "key_perm_maskr k = map (\<lambda>i.
     or_masks (\<lambda>j. hit i (j + 1) \<and> inv_key_perm ! (8 * k + j) \<noteq> 255 \<and> \<not> inv_key_perm ! (8 * k + j) < 28)
       (\<lambda>j. bits32 ! (4 + (inv_key_perm ! (8 * k + j) - 28))) [0..<7] 0) [0..<128]"

definition comp_maskl :: "nat \<Rightarrow> u32 list" where
  "comp_maskl k = map (\<lambda>i.
     or_masks (\<lambda>j. hit i (j + 1) \<and> inv_comp_perm ! (7 * k + j) \<noteq> 255 \<and> inv_comp_perm ! (7 * k + j) < 24)
       (\<lambda>j. bits32 ! (8 + inv_comp_perm ! (7 * k + j))) [0..<7] 0) [0..<128]"

definition comp_maskr :: "nat \<Rightarrow> u32 list" where
  "comp_maskr k = map (\<lambda>i.
     or_masks (\<lambda>j. hit i (j + 1) \<and> inv_comp_perm ! (7 * k + j) \<noteq> 255 \<and> \<not> inv_comp_perm ! (7 * k + j) < 24)
       (\<lambda>j. bits32 ! (8 + (inv_comp_perm ! (7 * k + j) - 24))) [0..<7] 0) [0..<128]"

definition psbox :: "nat \<Rightarrow> u32 list" where
  "psbox b = map (\<lambda>i.
     or_masks (\<lambda>j. hit i j) (\<lambda>j. bits32 ! (un_pbox ! (8 * b + j))) [0..<8] 0) [0..<256]"

section \<open>Context and salt\<close>

record des_context =
  en_keysl :: "u32 list"
  en_keysr :: "u32 list"
  de_keysl :: "u32 list"
  de_keysr :: "u32 list"
  saltbits :: u32
  old_salt :: u32
  old_rawkey0 :: u32
  old_rawkey1 :: u32

definition ascii_to_bin :: "u8 \<Rightarrow> nat" where
  "ascii_to_bin ch =
     (let c = unat ch in
      if c > 122 then 0            \<comment> \<open>'z'\<close>
      else if c \<ge> 97 then c - 97 + 38   \<comment> \<open>'a'\<close>
      else if c > 90 then 0        \<comment> \<open>'Z'\<close>
      else if c \<ge> 65 then c - 65 + 12   \<comment> \<open>'A'\<close>
      else if c > 57 then 0        \<comment> \<open>'9'\<close>
      else if c \<ge> 46 then c - 46   \<comment> \<open>'.'\<close>
      else 0)"

definition des_ctx_init :: "des_context option \<Rightarrow> des_context res" where
  \<comment> \<open>the argument is the block \<open>malloc\<close> returned, with whatever it contains\<close>
  "des_ctx_init mem =
     (case mem of None \<Rightarrow> Inl NullDeref
      | Some c \<Rightarrow> Inr (c\<lparr>old_rawkey0 := 0, old_rawkey1 := 0, saltbits := 0, old_salt := 0\<rparr>))"

fun salt_loop :: "nat \<Rightarrow> u32 \<Rightarrow> u32 \<Rightarrow> u32 \<Rightarrow> u32 \<Rightarrow> u32" where
  "salt_loop 0 salt saltbit obit acc = acc"
| "salt_loop (Suc n) salt saltbit obit acc =
     salt_loop n salt (push_bit 1 saltbit) (drop_bit 1 obit)
       (if salt AND saltbit \<noteq> 0 then acc OR obit else acc)"

definition setup_salt :: "u32 \<Rightarrow> des_context \<Rightarrow> des_context" where
  "setup_salt salt c =
     (if salt = old_salt c then c
      else c\<lparr>old_salt := salt, saltbits := salt_loop 24 salt 1 0x800000 0\<rparr>)"

section \<open>Key schedule\<close>

definition look8 :: "(nat \<Rightarrow> u32 list) \<Rightarrow> u32 list \<Rightarrow> u32" where
  \<comment> \<open>\<open>t[0][x0] | \<dots> | t[7][x7]\<close>\<close>
  "look8 t x =
     t 0 ! unat (x ! 0) OR t 1 ! unat (x ! 1) OR t 2 ! unat (x ! 2) OR t 3 ! unat (x ! 3) OR
     t 4 ! unat (x ! 4) OR t 5 ! unat (x ! 5) OR t 6 ! unat (x ! 6) OR t 7 ! unat (x ! 7)"

definition key_indices :: "u32 \<Rightarrow> u32 \<Rightarrow> u32 list" where
  "key_indices rawkey0 rawkey1 =
     [drop_bit 25 rawkey0, drop_bit 17 rawkey0 AND 0x7f, drop_bit 9 rawkey0 AND 0x7f,
      drop_bit 1 rawkey0 AND 0x7f,
      drop_bit 25 rawkey1, drop_bit 17 rawkey1 AND 0x7f, drop_bit 9 rawkey1 AND 0x7f,
      drop_bit 1 rawkey1 AND 0x7f]"

definition comp_indices :: "u32 \<Rightarrow> u32 \<Rightarrow> u32 list" where
  "comp_indices t0 t1 =
     [drop_bit 21 t0 AND 0x7f, drop_bit 14 t0 AND 0x7f, drop_bit 7 t0 AND 0x7f, t0 AND 0x7f,
      drop_bit 21 t1 AND 0x7f, drop_bit 14 t1 AND 0x7f, drop_bit 7 t1 AND 0x7f, t1 AND 0x7f]"

fun key_rounds :: "nat list \<Rightarrow> nat \<Rightarrow> u32 \<Rightarrow> u32 \<Rightarrow> (u32 \<times> u32) list" where
  "key_rounds [] shifts k0 k1 = []"
| "key_rounds (s # ss) shifts k0 k1 =
     (let shifts = shifts + s;
          t0 = push_bit shifts k0 OR drop_bit (28 - shifts) k0;
          t1 = push_bit shifts k1 OR drop_bit (28 - shifts) k1
      in (look8 comp_maskl (comp_indices t0 t1), look8 comp_maskr (comp_indices t0 t1))
         # key_rounds ss shifts k0 k1)"

definition key_schedule :: "u32 \<Rightarrow> u32 \<Rightarrow> (u32 \<times> u32) list" where
  "key_schedule rawkey0 rawkey1 =
     (let k0 = look8 key_perm_maskl (key_indices rawkey0 rawkey1);
          k1 = look8 key_perm_maskr (key_indices rawkey0 rawkey1)
      in key_rounds key_shifts 0 k0 k1)"

definition des_setkey :: "u8 list \<Rightarrow> des_context \<Rightarrow> int \<times> des_context" where
  "des_setkey key c =
     (let rawkey0 = be32 (key ! 0) (key ! 1) (key ! 2) (key ! 3);
          rawkey1 = be32 (key ! 4) (key ! 5) (key ! 6) (key ! 7) in
      if rawkey0 OR rawkey1 \<noteq> 0 \<and> rawkey0 = old_rawkey0 c \<and> rawkey1 = old_rawkey1 c then (0, c)
      else
        (let ks = key_schedule rawkey0 rawkey1 in
         (0, c\<lparr>old_rawkey0 := rawkey0, old_rawkey1 := rawkey1,
               en_keysl := map fst ks, en_keysr := map snd ks,
               de_keysl := rev (map fst ks), de_keysr := rev (map snd ks)\<rparr>)))"

section \<open>Encryption\<close>

definition byte_indices :: "u32 \<Rightarrow> u32 \<Rightarrow> u32 list" where
  "byte_indices l r =
     [drop_bit 24 l, drop_bit 16 l AND 0xff, drop_bit 8 l AND 0xff, l AND 0xff,
      drop_bit 24 r, drop_bit 16 r AND 0xff, drop_bit 8 r AND 0xff, r AND 0xff]"

definition expandl :: "u32 \<Rightarrow> u32" where
  "expandl r = push_bit 23 (r AND 0x00000001) OR drop_bit 9 (r AND 0xf8000000) OR
     drop_bit 11 (r AND 0x1f800000) OR drop_bit 13 (r AND 0x01f80000) OR drop_bit 15 (r AND 0x001f8000)"

definition expandr :: "u32 \<Rightarrow> u32" where
  "expandr r = push_bit 7 (r AND 0x0001f800) OR push_bit 5 (r AND 0x00001f80) OR
     push_bit 3 (r AND 0x000001f8) OR push_bit 1 (r AND 0x0000001f) OR drop_bit 31 (r AND 0x80000000)"

definition sbox_indices :: "u32 \<Rightarrow> u32 \<times> u32 \<Rightarrow> u32 \<Rightarrow> u32 list" where
  \<comment> \<open>the salt swaps bits of the two halves, the subkey is mixed in; four 12-bit indices\<close>
  "sbox_indices salt k r =
     (let r48l = expandl r; r48r = expandr r;
          f = (r48l XOR r48r) AND salt;
          r48l = r48l XOR (f XOR fst k);
          r48r = r48r XOR (f XOR snd k) in
      [drop_bit 12 r48l, r48l AND 0xfff, drop_bit 12 r48r, r48r AND 0xfff])"

definition feistel_f :: "u32 \<Rightarrow> u32 \<times> u32 \<Rightarrow> u32 \<Rightarrow> u32" where
  "feistel_f salt k r =
     (let x = sbox_indices salt k r in
      psbox 0 ! unat (m_sbox 0 ! unat (x ! 0)) OR
      psbox 1 ! unat (m_sbox 1 ! unat (x ! 1)) OR
      psbox 2 ! unat (m_sbox 2 ! unat (x ! 2)) OR
      psbox 3 ! unat (m_sbox 3 ! unat (x ! 3)))"

definition des_round :: "u32 \<Rightarrow> u32 \<times> u32 \<Rightarrow> u32 \<times> u32 \<Rightarrow> u32 \<times> u32" where
  \<comment> \<open>\<open>f ^= l; l = r; r = f\<close>\<close>
  "des_round salt k lr = (snd lr, feistel_f salt k (snd lr) XOR fst lr)"

definition des_rounds :: "u32 \<Rightarrow> (u32 \<times> u32) list \<Rightarrow> u32 \<times> u32 \<Rightarrow> u32 \<times> u32" where
  \<comment> \<open>the sixteen rounds, then \<open>r = l; l = f\<close>, where \<open>f\<close> is the last \<open>r\<close>\<close>
  "des_rounds salt ks lr = (let lr' = fold (des_round salt) ks lr in (snd lr', fst lr'))"

definition initial_perm :: "u32 \<times> u32 \<Rightarrow> u32 \<times> u32" where
  "initial_perm lr =
     (look8 ip_maskl (byte_indices (fst lr) (snd lr)), look8 ip_maskr (byte_indices (fst lr) (snd lr)))"

definition final_permutation :: "u32 \<times> u32 \<Rightarrow> u32 \<times> u32" where
  "final_permutation lr =
     (look8 fp_maskl (byte_indices (fst lr) (snd lr)), look8 fp_maskr (byte_indices (fst lr) (snd lr)))"

definition do_des :: "u32 \<Rightarrow> u32 \<Rightarrow> int \<Rightarrow> des_context \<Rightarrow> (u32 \<times> u32) option" where
  \<comment> \<open>\<open>None\<close> is the return value 1, with nothing written; otherwise the two outputs\<close>
  "do_des l_in r_in count c =
     (if count = 0 then None
      else
        (let ks = (if count > 0 then zip (en_keysl c) (en_keysr c)
                   else zip (de_keysl c) (de_keysr c)) in
         Some (final_permutation
                 ((des_rounds (saltbits c) ks ^^ nat \<bar>count\<bar>) (initial_perm (l_in, r_in))))))"

section \<open>The crypt interface\<close>

fun copy_key :: "nat \<Rightarrow> cstring \<Rightarrow> u8 list" where
  \<comment> \<open>the loop that fills \<open>keybuf\<close>: the key pointer advances only past a non-zero result\<close>
  "copy_key 0 key = []"
| "copy_key (Suc n) key =
     (let q = push_bit 1 (c_char key 0) in q # copy_key n (if q \<noteq> 0 then tl key else key))"

definition encode64 :: "u32 \<Rightarrow> u8" where
  "encode64 l = ascii64 ! unat (l AND 0x3f)"

definition encode_result :: "u32 \<Rightarrow> u32 \<Rightarrow> u8 list" where
  "encode_result r0 r1 =
     (let l = drop_bit 8 r0 in
        [encode64 (drop_bit 18 l), encode64 (drop_bit 12 l), encode64 (drop_bit 6 l), encode64 l]) @
     (let l = push_bit 16 r0 OR (drop_bit 16 r1 AND 0xffff) in
        [encode64 (drop_bit 18 l), encode64 (drop_bit 12 l), encode64 (drop_bit 6 l), encode64 l]) @
     (let l = push_bit 2 r1 in
        [encode64 (drop_bit 12 l), encode64 (drop_bit 6 l), encode64 l])"

definition des_crypt_r :: "des_context option \<Rightarrow> cstring \<Rightarrow> cstring \<Rightarrow> int \<Rightarrow> u8 list option res" where
  \<comment> \<open>the bytes written to \<open>output\<close> before the terminating zero, \<open>None\<close> for a null result\<close>
  "des_crypt_r mem key setting sz =
     (if sz < 21 then Inr None
      else case des_ctx_init mem of Inl e \<Rightarrow> Inl e | Inr c \<Rightarrow>
        (case des_setkey (copy_key 8 key) c of (err, c) \<Rightarrow>
           if err \<noteq> 0 then Inr None
           else
             (let salt = word_of_nat (push_bit 6 (ascii_to_bin (c_char setting 1)) OR ascii_to_bin (c_char setting 0));
                  out0 = c_char setting 0;
                  out1 = (if c_char setting 1 \<noteq> 0 then c_char setting 1 else out0);
                  c = setup_salt salt c in
              case do_des 0 0 25 c of
                None \<Rightarrow> Inr None
              | Some (r0, r1) \<Rightarrow> Inr (Some ([out0, out1] @ encode_result r0 r1)))))"

end
