(* ===== verification/Des_Perm.thy ===== *)
theory Des_Perm
  imports Des Interfaces
begin

unbundle bit_operations_syntax

text \<open>
  The table-driven permutations of \<^verbatim>\<open>telnetd/des.c\<close> at the level of bits: the OR-mask
  tables of \<open>des_init\<close> implement the initial permutation \<open>IP\<close> and its inverse, the Feistel
  network is inverted by reversing the subkeys, and hence \<open>do_des\<close> with a negative count
  undoes \<open>do_des\<close> with the same positive count.
\<close>

section \<open>Bits of blocks\<close>

text \<open>Bit \<open>o\<close> of a 64-bit block, counted from the most significant bit as the DES tables do
  (from 0).\<close>

definition block_bit :: "u32 \<times> u32 \<Rightarrow> nat \<Rightarrow> bool" where
  "block_bit lr b = (if b < 32 then bit (fst lr) (31 - b) else bit (snd lr) (63 - b))"

lemma less_8_cases: "(k :: nat) < 8 \<longleftrightarrow> k \<in> {0, 1, 2, 3, 4, 5, 6, 7}"
  by auto

lemma ex_less_8: "(\<exists>k < 8 :: nat. P k) \<longleftrightarrow> P 0 \<or> P 1 \<or> P 2 \<or> P 3 \<or> P 4 \<or> P 5 \<or> P 6 \<or> P 7"
  unfolding less_8_cases by blast

lemma all_less_8: "(\<forall>k < 8 :: nat. P k) \<longleftrightarrow> P 0 \<and> P 1 \<and> P 2 \<and> P 3 \<and> P 4 \<and> P 5 \<and> P 6 \<and> P 7"
  unfolding less_8_cases by blast

lemma block_bit_l: "n < 32 \<Longrightarrow> block_bit x (31 - n) = bit (fst x) n"
  by (auto simp: block_bit_def)

lemma block_bit_r: "n < 32 \<Longrightarrow> block_bit x (63 - n) = bit (snd x) n"
  by (auto simp: block_bit_def)

lemma block_eqI:
  assumes eq: "\<And>b. b < 64 \<Longrightarrow> block_bit x b = block_bit y b"
  shows "x = y"
proof (rule prod_eqI)
  have "bit (fst x) n = bit (fst y) n" if "n < 32" for n
    unfolding block_bit_l [OF that, symmetric] by (rule eq) simp
  then show "fst x = fst y" by (intro bit_word_eqI) simp
  have "bit (snd x) n = bit (snd y) n" if "n < 32" for n
    unfolding block_bit_r [OF that, symmetric] by (rule eq) simp
  then show "snd x = snd y" by (intro bit_word_eqI) simp
qed

lemma bit_look8: "bit (look8 t x) n \<longleftrightarrow> (\<exists>k < 8. bit (t k ! unat (x ! k)) n)"
  unfolding ex_less_8 by (simp add: look8_def bit_or_iff disj_assoc)

lemma u32_masks: "(0xff :: u32) = mask 8" "(0x7f :: u32) = mask 7" "(0x3f :: u32) = mask 6"
  "(0xfff :: u32) = mask 12" "(0xffff :: u32) = mask 16"
  by (simp_all add: mask_eq_exp_minus_1)

lemma bits8_power: "j < 8 \<Longrightarrow> bits8 ! j = 2 ^ (7 - j)"
  using all_less_8 [of "\<lambda>j. bits8 ! j = 2 ^ (7 - j)"] by (simp add: bits8_def)

lemma hit_bit: "j < 8 \<Longrightarrow> hit i j \<longleftrightarrow> bit i (7 - j)"
  by (simp add: hit_def bits8_power and_exp_eq_0_iff_not_bit)

lemma bits32_list: "bits32 = map (\<lambda>b. 2 ^ (31 - b)) [0..<32]"
  by (simp add: bits32_def upt_rec)

lemma bit_bits32: "b < 32 \<Longrightarrow> bit (bits32 ! b) n \<longleftrightarrow> n = 31 - b"
  by (auto simp: bits32_list bit_exp_iff)

lemma byte_indices_bit:
  assumes "k < 8" and j: "j < 8"
  shows "bit (byte_indices l r ! k) (7 - j) \<longleftrightarrow> block_bit (l, r) (8 * k + j)"
proof -
  have "7 - j < 32" "7 - j < 8" using j by auto
  then have "\<forall>k < 8. bit (byte_indices l r ! k) (7 - j) \<longleftrightarrow> block_bit (l, r) (8 * k + j)"
    using j by (simp add: all_less_8 byte_indices_def block_bit_def bit_simps u32_masks)
  with assms(1) show ?thesis by blast
qed

lemma drop_bit_top: "drop_bit n (w :: 'a::len word) = take_bit (LENGTH('a) - n) (drop_bit n w)"
proof (rule bit_word_eqI)
  fix m
  show "bit (drop_bit n w) m = bit (take_bit (LENGTH('a) - n) (drop_bit n w)) m"
    using bit_imp_le_length [of w "n + m"] by (auto simp: bit_simps)
qed

lemma u32_top:
  "drop_bit 24 (w :: u32) = take_bit 8 (drop_bit 24 w)"
  "drop_bit 25 (w :: u32) = take_bit 7 (drop_bit 25 w)"
  using drop_bit_top [of 24 w] drop_bit_top [of 25 w] by simp_all

lemma unat_take_bit_less: "unat (take_bit n (w :: 'a::len word)) < 2 ^ n"
  by (simp add: unsigned_take_bit_eq)

lemma byte_indices_less: "k < 8 \<Longrightarrow> unat (byte_indices l r ! k) < 256"
proof -
  have "\<exists>w. byte_indices l r ! k = take_bit 8 w" if "k < 8"
  proof -
    have "\<forall>k < 8. \<exists>w. byte_indices l r ! k = take_bit 8 w"
      unfolding all_less_8 using u32_top(1)
      by (auto simp: byte_indices_def u32_masks simp flip: take_bit_eq_mask)
    with that show ?thesis by blast
  qed
  moreover assume "k < 8"
  ultimately show ?thesis using unat_take_bit_less [of 8] by auto
qed

section \<open>OR-mask tables implement permutations\<close>

definition mask_perm :: "nat list \<Rightarrow> u32 \<times> u32 \<Rightarrow> u32 \<times> u32" where
  "mask_perm perm lr =
     (look8 (\<lambda>k. map (perm_maskl perm k) [0..<256]) (byte_indices (fst lr) (snd lr)),
      look8 (\<lambda>k. map (perm_maskr perm k) [0..<256]) (byte_indices (fst lr) (snd lr)))"

lemma initial_perm_mask: "initial_perm = mask_perm init_perm"
  by (simp add: fun_eq_iff initial_perm_def mask_perm_def ip_maskl_def [abs_def] ip_maskr_def [abs_def])

lemma final_permutation_mask: "final_permutation = mask_perm final_perm"
  by (simp add: fun_eq_iff final_permutation_def mask_perm_def fp_maskl_def [abs_def] fp_maskr_def [abs_def])

lemma ex_byte_bit: "(\<exists>k < 8. \<exists>j < 8. P (8 * k + j)) \<longleftrightarrow> (\<exists>i < 64. P (i :: nat))"
proof
  assume "\<exists>i < 64. P i"
  then obtain i where i: "i < 64" "P i" by blast
  have "8 * (i div 8) + i mod 8 = i" "i div 8 < 8" "i mod 8 < 8"
    using i(1) by (auto simp: less_mult_imp_div_less)
  with i(2) show "\<exists>k < 8. \<exists>j < 8. P (8 * k + j)" by metis
next
  assume "\<exists>k < 8. \<exists>j < 8. P (8 * k + j)"
  then obtain k j where "k < 8" "j < 8" "P (8 * k + j)" by blast
  then show "\<exists>i < 64. P i" by (intro exI [of _ "8 * k + j"]) simp
qed

lemma perm_mask_bits:
  assumes "k < 8" and "\<forall>i < 64. perm ! i < 64" and "n < 32"
  shows "bit (perm_maskl perm k i) n \<longleftrightarrow> (\<exists>j < 8. bit i (7 - j) \<and> perm ! (8 * k + j) = 31 - n)"
    and "bit (perm_maskr perm k i) n \<longleftrightarrow> (\<exists>j < 8. bit i (7 - j) \<and> perm ! (8 * k + j) = 63 - n)"
proof -
  have lt: "perm ! (8 * k + j) < 64" if "j < 8" for j
    using that assms by simp
  have l: "(hit i j \<and> perm ! (8 * k + j) < 32) \<and> bit (bits32 ! (perm ! (8 * k + j))) n \<longleftrightarrow>
      bit i (7 - j) \<and> perm ! (8 * k + j) = 31 - n" if "j < 8" for j
    using that assms(3) by (auto simp: hit_bit bit_bits32)
  have r: "(hit i j \<and> \<not> perm ! (8 * k + j) < 32) \<and> bit (bits32 ! (perm ! (8 * k + j) - 32)) n \<longleftrightarrow>
      bit i (7 - j) \<and> perm ! (8 * k + j) = 63 - n" if "j < 8" for j
  proof (cases "perm ! (8 * k + j) < 32")
    case False
    with lt [OF that] have "perm ! (8 * k + j) - 32 < 32" by simp
    with that False assms(3) lt [OF that] show ?thesis by (auto simp: hit_bit bit_bits32)
  qed (use assms(3) in auto)
  show "bit (perm_maskl perm k i) n \<longleftrightarrow> (\<exists>j < 8. bit i (7 - j) \<and> perm ! (8 * k + j) = 31 - n)"
    using l by (auto simp: perm_maskl_def bit_or_masks Bex_def)
  show "bit (perm_maskr perm k i) n \<longleftrightarrow> (\<exists>j < 8. bit i (7 - j) \<and> perm ! (8 * k + j) = 63 - n)"
    using r by (auto simp: perm_maskr_def bit_or_masks Bex_def)
qed

text \<open>Bit \<open>b\<close> of the result is set iff some input bit that the table sends to \<open>b\<close> is.\<close>

lemma block_bit_mask_perm:
  assumes "\<forall>i < 64. perm ! i < 64" and "b < 64"
  shows "block_bit (mask_perm perm lr) b \<longleftrightarrow> (\<exists>i < 64. block_bit lr i \<and> perm ! i = b)"
proof -
  let ?x = "byte_indices (fst lr) (snd lr)"
  have idx: "bit (unat (?x ! k)) (7 - j) \<longleftrightarrow> block_bit lr (8 * k + j)" if "k < 8" "j < 8" for k j
    using byte_indices_bit [OF that, of "fst lr" "snd lr"] that by (simp add: bit_unsigned_iff)
  have l: "bit (fst (mask_perm perm lr)) n \<longleftrightarrow> (\<exists>i < 64. block_bit lr i \<and> perm ! i = 31 - n)" if "n < 32" for n
  proof -
    have "bit (fst (mask_perm perm lr)) n \<longleftrightarrow> (\<exists>k < 8. bit (perm_maskl perm k (unat (?x ! k))) n)"
      using byte_indices_less by (auto simp: mask_perm_def bit_look8)
    also have "\<dots> \<longleftrightarrow> (\<exists>k < 8. \<exists>j < 8. block_bit lr (8 * k + j) \<and> perm ! (8 * k + j) = 31 - n)"
      using perm_mask_bits(1) [OF _ assms(1) that] idx by metis
    finally show ?thesis unfolding ex_byte_bit [of "\<lambda>i. block_bit lr i \<and> perm ! i = 31 - n"] .
  qed
  have r: "bit (snd (mask_perm perm lr)) n \<longleftrightarrow> (\<exists>i < 64. block_bit lr i \<and> perm ! i = 63 - n)" if "n < 32" for n
  proof -
    have "bit (snd (mask_perm perm lr)) n \<longleftrightarrow> (\<exists>k < 8. bit (perm_maskr perm k (unat (?x ! k))) n)"
      using byte_indices_less by (auto simp: mask_perm_def bit_look8)
    also have "\<dots> \<longleftrightarrow> (\<exists>k < 8. \<exists>j < 8. block_bit lr (8 * k + j) \<and> perm ! (8 * k + j) = 63 - n)"
      using perm_mask_bits(2) [OF _ assms(1) that] idx by metis
    finally show ?thesis unfolding ex_byte_bit [of "\<lambda>i. block_bit lr i \<and> perm ! i = 63 - n"] .
  qed
  show ?thesis
  proof (cases "b < 32")
    case True
    then have "31 - (31 - b) = b" "31 - b < 32" by auto
    with True l [of "31 - b"] show ?thesis by (simp add: block_bit_def)
  next
    case False
    with assms(2) have "63 - (63 - b) = b" "63 - b < 32" by auto
    with False r [of "63 - b"] show ?thesis by (simp add: block_bit_def)
  qed
qed

text \<open>For a permutation with inverse \<open>q\<close>, the result bit \<open>b\<close> is the input bit \<open>q ! b\<close>.\<close>

definition inverse_perms :: "nat list \<Rightarrow> nat list \<Rightarrow> bool" where
  "inverse_perms p q \<longleftrightarrow>
     list_all (\<lambda>i. p ! i < 64 \<and> q ! i < 64 \<and> p ! (q ! i) = i \<and> q ! (p ! i) = i) [0..<64]"

lemma inverse_permsD:
  assumes "inverse_perms p q" and "i < 64"
  shows "p ! i < 64" "q ! i < 64" "p ! (q ! i) = i" "q ! (p ! i) = i"
  using assms by (auto simp: inverse_perms_def list_all_iff)

lemma block_bit_mask_perm_inverse:
  assumes inv: "inverse_perms p q" and "b < 64"
  shows "block_bit (mask_perm p lr) b = block_bit lr (q ! b)"
proof -
  have "(\<exists>i < 64. block_bit lr i \<and> p ! i = b) \<longleftrightarrow> block_bit lr (q ! b)"
    using inverse_permsD [OF inv] assms(2) by metis
  then show ?thesis
    using block_bit_mask_perm [of p b lr] inverse_permsD(1) [OF inv] assms(2) by simp
qed

lemma inverse_perms_init_final: "inverse_perms init_perm final_perm"
  by code_simp

lemma inverse_perms_sym: "inverse_perms p q \<Longrightarrow> inverse_perms q p"
  by (auto simp: inverse_perms_def list_all_iff)

lemma mask_perm_inverse:
  assumes pq: "inverse_perms p q"
  shows "mask_perm q (mask_perm p lr) = lr"
proof (rule block_eqI)
  fix b :: nat assume b: "b < 64"
  note D = inverse_permsD [OF pq b]
  have "block_bit (mask_perm q (mask_perm p lr)) b = block_bit (mask_perm p lr) (p ! b)"
    by (rule block_bit_mask_perm_inverse [OF inverse_perms_sym [OF pq] b])
  also have "\<dots> = block_bit lr (q ! (p ! b))"
    by (rule block_bit_mask_perm_inverse [OF pq D(1)])
  finally show "block_bit (mask_perm q (mask_perm p lr)) b = block_bit lr b"
    by (simp only: D(4))
qed

section \<open>Decryption\<close>

interpretation des_feistel: feistel "feistel_f salt" "\<lambda>x y. x XOR y" for salt
  by unfold_locales (simp add: xor.assoc [symmetric])

lemma des_round_feistel: "des_round salt = des_feistel.round salt"
  by (simp add: fun_eq_iff des_round_def des_feistel.round_def)

lemma des_rounds_feistel: "des_rounds salt = des_feistel.rounds salt"
  by (simp add: fun_eq_iff des_rounds_def des_feistel.rounds_def des_round_feistel Let_def prod.swap_def)

definition keys_wf :: "des_context \<Rightarrow> bool" where
  "keys_wf c \<longleftrightarrow> length (en_keysl c) = 16 \<and> length (en_keysr c) = 16 \<and>
     de_keysl c = rev (en_keysl c) \<and> de_keysr c = rev (en_keysr c)"

lemma length_key_rounds [simp]: "length (key_rounds ss shifts k0 k1) = length ss"
  by (induction ss arbitrary: shifts) (simp_all add: Let_def)

lemma length_key_schedule [simp]: "length (key_schedule a b) = 16"
  by (simp add: key_schedule_def Let_def key_shifts_def)

lemma des_setkey_keys_wf: "keys_wf c \<Longrightarrow> keys_wf (snd (des_setkey key c))"
  by (simp add: des_setkey_def Let_def keys_wf_def)

lemma do_des_Some:
  "count \<noteq> 0 \<Longrightarrow> do_des l r count c = Some (final_permutation
     ((des_feistel.rounds (saltbits c) (if count > 0 then zip (en_keysl c) (en_keysr c)
        else zip (de_keysl c) (de_keysr c)) ^^ nat \<bar>count\<bar>) (initial_perm (l, r))))"
  by (simp add: do_des_def Let_def des_rounds_feistel)

lemma final_initial: "final_permutation (initial_perm lr) = lr"
  by (simp add: final_permutation_mask initial_perm_mask mask_perm_inverse [OF inverse_perms_init_final])

lemma initial_final: "initial_perm (final_permutation lr) = lr"
  by (simp add: final_permutation_mask initial_perm_mask
      mask_perm_inverse [OF inverse_perms_sym [OF inverse_perms_init_final]])

section \<open>Properties\<close>

text \<open>The OR-mask tables that \<open>des_init\<close> builds implement the initial permutation of the
  standard: bit \<open>b\<close> of the permuted block is bit \<open>IP[b]\<close> of the input (counted from 1), and
  the final permutation is its inverse on both sides, for every block.\<close>

theorem des_initial_permutation:
  "(\<forall>b \<in> {..<64}. block_bit (initial_perm lr) b = block_bit lr (IP ! b - 1)) \<and>
   final_permutation (initial_perm lr) = lr \<and> initial_perm (final_permutation lr) = lr"
proof -
  have "block_bit (initial_perm lr) b = block_bit lr (IP ! b - 1)" if "b < 64" for b
    using block_bit_mask_perm_inverse [OF inverse_perms_init_final that, of lr] that
    by (simp add: initial_perm_mask final_perm_def)
  then show ?thesis by (simp add: final_initial initial_final)
qed

theorem des_initial_permutation_witness:
  "block_bit (initial_perm (0, 0x40)) 0 \<and> final_permutation (initial_perm (0, 0x40)) = (0, 0x40)"
proof -
  note * = des_initial_permutation [of "(0, 0x40)"]
  have "block_bit (initial_perm (0, 0x40)) 0 = block_bit (0, 0x40) 57"
    using bspec [OF conjunct1 [OF *], of 0] by (simp add: IP_def)
  with * show ?thesis by (simp add: block_bit_def bit_numeral_simps)
qed

text \<open>C8: Decryption inverts encryption: for a context whose decryption keys are the reversed
  encryption keys, as \<open>des_setkey\<close> leaves it, whatever the salt and the positive iteration
  count, \<open>do_des\<close> with the negated count applied to the output of \<open>do_des\<close> returns the
  original block.\<close>

theorem do_des_decrypt:
  assumes "keys_wf c" and "count > 0" and "do_des l r count c = Some (l', r')"
  shows "do_des l' r' (- count) c = Some (l, r)"
proof -
  let ?ks = "zip (en_keysl c) (en_keysr c)"
  have dec: "zip (de_keysl c) (de_keysr c) = rev ?ks"
    using assms(1) by (simp add: keys_wf_def zip_rev)
  from assms(2,3) have "final_permutation ((des_feistel.rounds (saltbits c) ?ks ^^ nat count) (initial_perm (l, r))) = (l', r')"
    by (simp add: do_des_Some)
  then have "initial_perm (l', r') = (des_feistel.rounds (saltbits c) ?ks ^^ nat count) (initial_perm (l, r))"
    using initial_final by metis
  with assms(2) show ?thesis
    by (simp add: do_des_Some dec des_feistel.rounds_pow_rev final_initial)
qed

definition sample_keys :: des_context where
  "sample_keys = \<lparr>en_keysl = replicate 16 0x123456, en_keysr = replicate 16 0xabcdef,
     de_keysl = replicate 16 0x123456, de_keysr = replicate 16 0xabcdef,
     saltbits = 5, old_salt = 5, old_rawkey0 = 1, old_rawkey1 = 2\<rparr>"

theorem do_des_decrypt_witness:
  "\<exists>l r. do_des 1 2 25 sample_keys = Some (l, r) \<and> do_des l r (- 25) sample_keys = Some (1, 2)"
proof -
  have wf: "keys_wf sample_keys" by (simp add: keys_wf_def sample_keys_def)
  obtain l r where "do_des 1 2 25 sample_keys = Some (l, r)"
    by (metis do_des_Some old.prod.exhaust zero_neq_numeral)
  with do_des_decrypt [OF wf _ this] show ?thesis by auto
qed

end
