(* ===== verification/Des_Crypt.thy ===== *)
theory Des_Crypt
  imports Des_Perm
begin

unbundle bit_operations_syntax

text \<open>
  What \<open>des_crypt_r\<close> promises to its caller \<open>check_passwd\<close>: the salt and key-schedule words
  fit the tables that the rounds index, the result is a 13-character string over the
  crypt alphabet that depends on nothing but the significant part of the password and the
  salt, it verifies against itself, and it determines the encrypted block.
\<close>

section \<open>Salt and index bounds\<close>

lemma bit_salt_loop:
  "i + n \<le> 32 \<Longrightarrow> bit (salt_loop n salt (2 ^ i) (2 ^ (n - 1)) acc) m \<longleftrightarrow>
     bit acc m \<or> (m < n \<and> bit salt (i + (n - 1 - m)))"
proof (induction n arbitrary: i acc)
  case 0
  then show ?case by simp
next
  case (Suc n)
  have shift: "push_bit 1 (2 ^ i :: u32) = 2 ^ Suc i"
    by (simp add: push_bit_eq_mult)
  have half: "n \<noteq> 0 \<Longrightarrow> drop_bit 1 (2 ^ n :: u32) = 2 ^ (n - 1)"
    using Suc.prems by (intro bit_word_eqI) (auto simp: bit_simps)
  have step: "bit (if salt AND 2 ^ i \<noteq> 0 then acc OR 2 ^ n else acc) m \<longleftrightarrow>
      bit acc m \<or> (m = n \<and> bit salt i)"
    using Suc.prems by (auto simp: and_exp_eq_0_iff_not_bit bit_simps)
  show ?case
  proof (cases "n = 0")
    case True
    with Suc.prems step show ?thesis by auto
  next
    case False
    let ?acc = "if salt AND 2 ^ i \<noteq> 0 then acc OR 2 ^ n else acc"
    have "salt_loop (Suc n) salt (2 ^ i) (2 ^ (Suc n - 1)) acc = salt_loop n salt (2 ^ Suc i) (2 ^ (n - 1)) ?acc"
      by (simp only: salt_loop.simps shift half [OF False] diff_Suc_1)
    moreover have "bit (salt_loop n salt (2 ^ Suc i) (2 ^ (n - 1)) ?acc) m \<longleftrightarrow>
        (bit acc m \<or> (m = n \<and> bit salt i)) \<or> (m < n \<and> bit salt (Suc i + (n - 1 - m)))"
      unfolding step [symmetric] using Suc.prems by (intro Suc.IH) simp
    moreover have "m < n \<Longrightarrow> Suc i + (n - 1 - m) = i + (n - m)" by simp
    ultimately show ?thesis by (auto simp: less_Suc_eq)
  qed
qed

lemma bit_salt_loop_24: "bit (salt_loop 24 salt 1 0x800000 0) m \<longleftrightarrow> m < 24 \<and> bit salt (23 - m)"
  using bit_salt_loop [of 0 24 salt 0 m] by simp

definition bits24 :: "u32 \<Rightarrow> bool" where
  "bits24 w \<longleftrightarrow> take_bit 24 w = w"

lemma bits24_bitI: "(\<And>n. bit w n \<Longrightarrow> n < 24) \<Longrightarrow> bits24 w"
  by (auto simp: bits24_def bit_simps intro!: bit_word_eqI)

lemma bits24_bit: "bits24 w \<Longrightarrow> bit w n \<Longrightarrow> n < 24"
  by (metis bit_take_bit_iff bits24_def)

lemma bits24_xor: "bits24 a \<Longrightarrow> bits24 b \<Longrightarrow> bits24 (a XOR b)"
  by (simp add: bits24_def take_bit_xor)

lemma bits24_or: "bits24 a \<Longrightarrow> bits24 b \<Longrightarrow> bits24 (a OR b)"
  by (simp add: bits24_def take_bit_or)

lemma bits24_and: "bits24 b \<Longrightarrow> bits24 (a AND b)"
  by (auto simp: bit_simps intro!: bits24_bitI dest: bits24_bit)

lemma bits24_salt: "bits24 (salt_loop 24 salt 1 0x800000 0)"
  by (rule bits24_bitI) (simp add: bit_salt_loop_24)

lemma bits24_iff:
  "bits24 w \<longleftrightarrow> \<not> bit w 24 \<and> \<not> bit w 25 \<and> \<not> bit w 26 \<and> \<not> bit w 27 \<and>
     \<not> bit w 28 \<and> \<not> bit w 29 \<and> \<not> bit w 30 \<and> \<not> bit w 31"
proof
  assume r: "\<not> bit w 24 \<and> \<not> bit w 25 \<and> \<not> bit w 26 \<and> \<not> bit w 27 \<and>
     \<not> bit w 28 \<and> \<not> bit w 29 \<and> \<not> bit w 30 \<and> \<not> bit w 31"
  show "bits24 w"
  proof (rule bits24_bitI, rule ccontr)
    fix n assume "bit w n" "\<not> n < 24"
    moreover from this have "n < 32" using bit_imp_le_length [of w n] by simp
    ultimately have "n \<in> {24, 25, 26, 27, 28, 29, 30, 31}" by auto
    with r \<open>bit w n\<close> show False by auto
  qed
qed (auto dest: bits24_bit)

lemma bits24_expand: "bits24 (expandl r)" "bits24 (expandr r)"
  by (simp_all add: bits24_iff expandl_def expandr_def bit_simps bit_numeral_simps)

lemma inv_comp_perm_cell: "i < 56 \<Longrightarrow> inv_comp_perm ! i < 48 \<or> inv_comp_perm ! i = 255"
proof -
  have "list_all (\<lambda>c. c < 48 \<or> c = 255) inv_comp_perm \<and> length inv_comp_perm = 56" by code_simp
  then show "i < 56 \<Longrightarrow> ?thesis" by (auto simp: list_all_length)
qed

lemma comp_indices_less: "k < 8 \<Longrightarrow> unat (comp_indices a b ! k) < 128"
proof -
  have "\<forall>k < 8. \<exists>w. comp_indices a b ! k = take_bit 7 w"
    unfolding all_less_8 by (auto simp: comp_indices_def u32_masks simp flip: take_bit_eq_mask)
  then show "k < 8 \<Longrightarrow> ?thesis" using unat_take_bit_less [of 7] by fastforce
qed

lemma key_indices_less: "k < 8 \<Longrightarrow> unat (key_indices a b ! k) < 128"
proof -
  have "\<forall>k < 8. \<exists>w. key_indices a b ! k = take_bit 7 w"
    unfolding all_less_8 using u32_top(2)
    by (auto simp: key_indices_def u32_masks simp flip: take_bit_eq_mask)
  then show "k < 8 \<Longrightarrow> ?thesis" using unat_take_bit_less [of 7] by fastforce
qed

lemma bits24_comp:
  "bits24 (look8 comp_maskl (comp_indices a b))" "bits24 (look8 comp_maskr (comp_indices a b))"
proof -
  have less: "7 * k + j < 56" if "k < 8" "j < 7" for k j :: nat
    using that by simp
  show "bits24 (look8 comp_maskl (comp_indices a b))"
  proof (rule bits24_bitI)
    fix n assume "bit (look8 comp_maskl (comp_indices a b)) n"
    then obtain x where "x < 24" "bit (bits32 ! (8 + x)) n"
      using comp_indices_less by (fastforce simp: bit_look8 comp_maskl_def bit_or_masks)
    then show "n < 24" by (simp add: bit_bits32)
  qed
  show "bits24 (look8 comp_maskr (comp_indices a b))"
  proof (rule bits24_bitI)
    fix n assume "bit (look8 comp_maskr (comp_indices a b)) n"
    then obtain k j where kj: "k < 8" "j < 7" and x: "inv_comp_perm ! (7 * k + j) \<noteq> 255"
        "\<not> inv_comp_perm ! (7 * k + j) < 24" "bit (bits32 ! (8 + (inv_comp_perm ! (7 * k + j) - 24))) n"
      using comp_indices_less by (fastforce simp: bit_look8 comp_maskr_def bit_or_masks)
    from inv_comp_perm_cell [OF less [OF kj]] x show "n < 24" by (auto simp: bit_bits32)
  qed
qed

lemma bits24_key_rounds: "(kl, kr) \<in> set (key_rounds ss n a b) \<Longrightarrow> bits24 kl \<and> bits24 kr"
  by (induction ss arbitrary: n) (auto simp: Let_def bits24_comp)

lemma bits24_key_schedule: "(kl, kr) \<in> set (key_schedule a b) \<Longrightarrow> bits24 kl \<and> bits24 kr"
  by (auto simp: key_schedule_def Let_def dest: bits24_key_rounds)

lemma bits24_drop_12: "bits24 w \<Longrightarrow> unat (drop_bit 12 w) < 4096"
proof -
  assume "bits24 w"
  then have "drop_bit 12 w = take_bit 12 (drop_bit 12 w)"
    by (auto simp: bit_simps dest: bits24_bit intro!: bit_word_eqI)
  then show ?thesis using unat_take_bit_less [of 12 "drop_bit 12 w"] by simp
qed

lemma sbox_indices_less:
  assumes "bits24 salt" "bits24 kl" "bits24 kr" "x \<in> set (sbox_indices salt (kl, kr) r)"
  shows "unat x < 4096"
proof -
  have low: "unat (w AND 0xfff) < 4096" for w :: u32
    using unat_take_bit_less [of 12 w] by (simp add: take_bit_eq_mask u32_masks)
  from assms show ?thesis
    by (auto simp: sbox_indices_def Let_def low simp del: drop_bit_xor drop_bit_and
        intro!: bits24_drop_12 bits24_xor bits24_expand bits24_and)
qed

lemma length_m_sbox: "length (m_sbox b) = 4096"
  by (simp add: m_sbox_def length_concat o_def sum_list_triv)

section \<open>Properties\<close>

text \<open>C18: Every table access of an encryption is within its table. For any key, salt and
  block the subkeys have 24 bits per half, so that the four indices of every round lie within
  the 4096 entries of the combined S-boxes; the byte those contain is within \<open>psbox\<close>; and the
  indices into the permutation, key and compression masks lie within their 256 and 128 entries.\<close>

theorem des_tables_in_bounds:
  "(\<forall>(kl, kr) \<in> set (key_schedule rawkey0 rawkey1).
      \<forall>x \<in> set (sbox_indices (salt_loop 24 salt 1 0x800000 0) (kl, kr) r).
        unat x < length (m_sbox b) \<and> unat (m_sbox b ! unat x) < length (psbox b)) \<and>
   (\<forall>k \<in> {..<8}. unat (byte_indices l r ! k) < length (ip_maskl k) \<and>
      unat (key_indices rawkey0 rawkey1 ! k) < length (key_perm_maskl k) \<and>
      unat (comp_indices t0 t1 ! k) < length (comp_maskl k))"
proof -
  have "unat (w :: u8) < 256" for w using unsigned_less [of w] by simp
  moreover have "unat x < 4096" if "(kl, kr) \<in> set (key_schedule rawkey0 rawkey1)"
      "x \<in> set (sbox_indices (salt_loop 24 salt 1 0x800000 0) (kl, kr) r)" for kl kr x
    using bits24_key_schedule [OF that(1)] sbox_indices_less [OF bits24_salt _ _ that(2)] by simp
  ultimately have "\<forall>(kl, kr) \<in> set (key_schedule rawkey0 rawkey1).
      \<forall>x \<in> set (sbox_indices (salt_loop 24 salt 1 0x800000 0) (kl, kr) r).
        unat x < length (m_sbox b) \<and> unat (m_sbox b ! unat x) < length (psbox b)"
    by (auto simp: length_m_sbox psbox_def)
  then show ?thesis
    by (simp add: byte_indices_less key_indices_less comp_indices_less ip_maskl_def key_perm_maskl_def comp_maskl_def)
qed

theorem des_tables_in_bounds_witness:
  "unat (sbox_indices (salt_loop 24 0xfff 1 0x800000 0) (key_schedule 1 2 ! 15) 7 ! 3) < length (m_sbox 3) \<and>
   unat (key_indices 0xffffffff 0 ! 0) < length (key_perm_maskl 0)"
proof -
  have "key_schedule 1 2 ! 15 \<in> set (key_schedule 1 2)" by simp
  moreover have "sbox_indices s k 7 ! 3 \<in> set (sbox_indices s k 7)" for s k
    by (simp add: sbox_indices_def Let_def)
  ultimately show ?thesis
    using des_tables_in_bounds [of 1 2 "0xfff" 7 3 0 0 0] des_tables_in_bounds [of "0xffffffff" 0 0 0 0 0 0 0]
    by (metis (no_types, lifting) case_prodD lessThan_iff prod.collapse zero_less_numeral)
qed

section \<open>The result string\<close>

lemma ascii64_distinct: "distinct ascii64" "length ascii64 = 64" "0 \<notin> set ascii64"
  by code_simp+

lemma ascii_to_bin_ascii64: "n < 64 \<Longrightarrow> ascii_to_bin (ascii64 ! n) = n"
proof -
  have "map ascii_to_bin ascii64 = [0..<64]" by code_simp
  then show "n < 64 \<Longrightarrow> ?thesis" by (metis ascii64_distinct(2) nth_map nth_upt plus_nat.add_0)
qed

lemma encode64_index: "unat (l AND 0x3f :: u32) < 64"
  using unat_take_bit_less [of 6 l] by (simp add: take_bit_eq_mask u32_masks)

lemma encode64_in: "encode64 l \<in> set ascii64"
  using encode64_index [of l] by (simp add: encode64_def ascii64_distinct)

lemma encode64_eq_iff: "encode64 l = encode64 l' \<longleftrightarrow> take_bit 6 l = take_bit 6 l'"
proof -
  have "encode64 l = encode64 l' \<longleftrightarrow> unat (l AND 0x3f) = unat (l' AND 0x3f)"
    using nth_eq_iff_index_eq [OF ascii64_distinct(1)] encode64_index
    by (simp add: encode64_def ascii64_distinct(2))
  then show ?thesis
    by (simp only: take_bit_eq_mask u32_masks unsigned_word_eqI inj_eq [OF inj_unsigned])
qed

lemma length_encode_result [simp]: "length (encode_result r0 r1) = 11"
  by (simp add: encode_result_def Let_def)

lemma set_encode_result: "set (encode_result r0 r1) \<subseteq> set ascii64"
  by (simp add: encode_result_def Let_def encode64_in)

lemma encode64_bit:
  assumes "encode64 (drop_bit k l) = encode64 (drop_bit k l')" and "k \<le> n" "n < k + 6"
  shows "bit l n = bit l' n"
proof -
  from assms(1) have "bit (take_bit 6 (drop_bit k l)) (n - k) = bit (take_bit 6 (drop_bit k l')) (n - k)"
    by (simp add: encode64_eq_iff)
  with assms(2,3) show ?thesis by (auto simp: bit_simps)
qed

lemma encode64_bits18:
  assumes "encode64 (drop_bit 12 l) = encode64 (drop_bit 12 l')"
    "encode64 (drop_bit 6 l) = encode64 (drop_bit 6 l')" "encode64 l = encode64 l'" and "n < 18"
  shows "bit l n = bit l' n"
  using encode64_bit [OF assms(1)] encode64_bit [OF assms(2)] encode64_bit [of 0 l l' n] assms(3,4)
  by (cases "n < 6"; cases "n < 12") auto

lemma encode64_bits24:
  assumes "encode64 (drop_bit 18 l) = encode64 (drop_bit 18 l')" "encode64 (drop_bit 12 l) = encode64 (drop_bit 12 l')"
    "encode64 (drop_bit 6 l) = encode64 (drop_bit 6 l')" "encode64 l = encode64 l'" and "n < 24"
  shows "bit l n = bit l' n"
  using encode64_bit [OF assms(1)] encode64_bits18 [OF assms(2-4)] assms(5) by (cases "n < 18") auto

text \<open>The eleven characters behind the salt encode all 64 bits of the encrypted block:
  two different blocks never give the same string.\<close>

theorem encode_result_injective:
  "encode_result r0 r1 = encode_result s0 s1 \<longleftrightarrow> r0 = s0 \<and> r1 = s1"
proof (rule iffI)
  assume eq: "encode_result r0 r1 = encode_result s0 s1"
  let ?m = "\<lambda>a b. push_bit 16 a OR (drop_bit 16 b AND 0xffff) :: u32"
  have hi: "bit (drop_bit 8 r0) n = bit (drop_bit 8 s0) n" if "n < 24" for n
    using eq that by (intro encode64_bits24) (simp_all add: encode_result_def Let_def del: drop_bit_drop_bit)
  have mid: "bit (?m r0 r1) n = bit (?m s0 s1) n" if "n < 24" for n
    using eq that by (intro encode64_bits24) (simp_all add: encode_result_def Let_def del: drop_bit_drop_bit drop_bit_or)
  have lo: "bit (push_bit 2 r1) n = bit (push_bit 2 s1) n" if "n < 18" for n
    using eq that by (intro encode64_bits18) (simp_all add: encode_result_def Let_def)
  have "bit r0 n = bit s0 n" if "n < 32" for n
  proof (cases "n < 8")
    case True
    with mid [of "n + 16"] show ?thesis by (simp add: bit_simps u32_masks)
  next
    case False
    with hi [of "n - 8"] that show ?thesis by (simp add: bit_simps)
  qed
  moreover have "bit r1 n = bit s1 n" if "n < 32" for n
  proof (cases "n < 16")
    case True
    with lo [of "n + 2"] show ?thesis by (simp add: bit_simps)
  next
    case False
    with that have "n - 16 < 16" "\<not> 16 \<le> n - 16" "16 + (n - 16) = n" by auto
    with mid [of "n - 16"] show ?thesis by (simp add: bit_simps u32_masks)
  qed
  ultimately show "r0 = s0 \<and> r1 = s1" by (intro conjI bit_word_eqI) auto
qed simp

section \<open>Passwords\<close>

text \<open>The part of a password that counts: at most eight characters, up to the first one whose
  low seven bits are zero, without their top bits.\<close>

definition significant :: "cstring \<Rightarrow> u8 list" where
  "significant key = take 8 (map (push_bit 1) (takeWhile (\<lambda>c. push_bit 1 c \<noteq> 0) key))"

lemma copy_key_stuck: "push_bit 1 (c_char key 0) = 0 \<Longrightarrow> copy_key n key = replicate n 0"
  by (induction n) simp_all

lemma copy_key_eq:
  "copy_key n key = take n (map (push_bit 1) (takeWhile (\<lambda>c. push_bit 1 c \<noteq> 0) key) @ replicate n 0)"
proof (induction n arbitrary: key)
  case 0
  show ?case by simp
next
  case (Suc n)
  show ?case
  proof (cases key)
    case Nil
    then show ?thesis by (simp add: copy_key_stuck)
  next
    case (Cons c cs)
    have "take n (xs @ 0 # replicate n (0 :: u8)) = take n (xs @ replicate n 0)" for xs
      by (simp add: take_replicate min_def flip: replicate_Suc)
    with Cons Suc.IH [of cs] show ?thesis
      by (auto simp: copy_key_stuck Let_def)
  qed
qed

lemma copy_key_significant: "copy_key 8 key = take 8 (significant key @ replicate 8 0)"
  by (simp add: copy_key_eq significant_def take_map min_def)

definition crypt_block :: "u8 list \<Rightarrow> u32 \<Rightarrow> u32 \<times> u32" where
  "crypt_block keybuf salt =
     final_permutation ((des_rounds (salt_loop 24 salt 1 0x800000 0)
       (key_schedule (be32 (keybuf ! 0) (keybuf ! 1) (keybuf ! 2) (keybuf ! 3))
                     (be32 (keybuf ! 4) (keybuf ! 5) (keybuf ! 6) (keybuf ! 7))) ^^ 25) (initial_perm (0, 0)))"

definition salt_of :: "cstring \<Rightarrow> u32" where
  "salt_of setting = word_of_nat (push_bit 6 (ascii_to_bin (c_char setting 1)) OR ascii_to_bin (c_char setting 0))"

text \<open>A fresh context never hits the key cache, and a zero salt leaves the right bits.\<close>

lemma setup_salt_fresh:
  "old_salt c = 0 \<Longrightarrow> saltbits c = 0 \<Longrightarrow> saltbits (setup_salt salt c) = salt_loop 24 salt 1 0x800000 0"
  by (auto simp: setup_salt_def bit_salt_loop_24 intro!: bit_word_eqI)

lemma setup_salt_keys [simp]:
  "en_keysl (setup_salt s c) = en_keysl c" "en_keysr (setup_salt s c) = en_keysr c"
  by (simp_all add: setup_salt_def)

lemma des_setkey_fresh:
  assumes "old_rawkey0 c = 0" "old_rawkey1 c = 0"
  shows "\<exists>c'. des_setkey key c = (0, c') \<and> saltbits c' = saltbits c \<and> old_salt c' = old_salt c \<and>
    zip (en_keysl c') (en_keysr c') =
      key_schedule (be32 (key ! 0) (key ! 1) (key ! 2) (key ! 3)) (be32 (key ! 4) (key ! 5) (key ! 6) (key ! 7))"
  using assms by (auto simp: des_setkey_def Let_def zip_map_fst_snd)

lemma des_crypt_r_eq:
  assumes "21 \<le> sz"
  shows "des_crypt_r (Some mem) key setting sz =
    Inr (Some ([c_char setting 0, if c_char setting 1 \<noteq> 0 then c_char setting 1 else c_char setting 0] @
      (case crypt_block (copy_key 8 key) (salt_of setting) of (r0, r1) \<Rightarrow> encode_result r0 r1)))"
proof -
  let ?c = "mem\<lparr>old_rawkey0 := 0, old_rawkey1 := 0, saltbits := 0, old_salt := 0\<rparr>"
  obtain c' where c': "des_setkey (copy_key 8 key) ?c = (0, c')" "saltbits c' = 0" "old_salt c' = 0"
    "zip (en_keysl c') (en_keysr c') =
      key_schedule (be32 (copy_key 8 key ! 0) (copy_key 8 key ! 1) (copy_key 8 key ! 2) (copy_key 8 key ! 3))
                   (be32 (copy_key 8 key ! 4) (copy_key 8 key ! 5) (copy_key 8 key ! 6) (copy_key 8 key ! 7))"
    using des_setkey_fresh [of ?c "copy_key 8 key"] by auto
  have "do_des 0 0 25 (setup_salt (salt_of setting) c') = Some (crypt_block (copy_key 8 key) (salt_of setting))"
    using c' by (simp add: do_des_def crypt_block_def setup_salt_fresh)
  with assms c' show ?thesis
    by (simp add: des_crypt_r_def des_ctx_init_def salt_of_def Let_def split: prod.split)
qed

text \<open>With a result buffer of at least 21 bytes and a successful allocation, \<open>des_crypt_r\<close>
  returns a string of exactly 13 non-zero characters: the two salt characters and eleven of the
  crypt alphabet. It is a function of the significant part of the password and of the salt; the
  previous contents of the allocated context and any further password characters have no
  influence.\<close>

theorem des_crypt_r_result:
  assumes "21 \<le> sz" and "c_char setting 0 \<noteq> 0"
  shows "\<exists>out. (\<forall>mem key'. significant key' = significant key \<longrightarrow>
            des_crypt_r (Some mem) key' setting sz = Inr (Some out)) \<and>
          length out = 13 \<and> cstring_ok out \<and> out ! 0 = c_char setting 0 \<and> set (drop 2 out) \<subseteq> set ascii64"
proof -
  obtain r0 r1 where b: "crypt_block (copy_key 8 key) (salt_of setting) = (r0, r1)" by fastforce
  let ?out = "[c_char setting 0, if c_char setting 1 \<noteq> 0 then c_char setting 1 else c_char setting 0] @ encode_result r0 r1"
  have "des_crypt_r (Some mem) key' setting sz = Inr (Some ?out)" if "significant key' = significant key" for mem key'
    using that b by (simp only: des_crypt_r_eq [OF assms(1)] copy_key_significant split)
  moreover have "cstring_ok ?out"
    using assms(2) set_encode_result [of r0 r1] ascii64_distinct(3) by (auto simp: cstring_ok_def)
  ultimately show ?thesis
    using set_encode_result [of r0 r1] by (intro exI [of _ ?out]) simp
qed

theorem des_crypt_r_result_witness:
  "\<exists>out. (\<forall>mem. des_crypt_r (Some mem) (of_string ''rtems'') (of_string ''td'') 21 = Inr (Some out)) \<and> length out = 13"
  using des_crypt_r_result [of 21 "of_string ''td''" "of_string ''rtems''"]
  by (auto simp: c_char_def of_string_def)

text \<open>An encrypted password verifies: encrypting the same password again with the first
  result as setting gives the same string, so that the comparison in \<open>check_passwd\<close> succeeds.
  This needs a salt of two characters.\<close>

theorem des_crypt_r_verifies:
  assumes "21 \<le> sz" and "c_char setting 0 \<noteq> 0" "c_char setting 1 \<noteq> 0"
    and "des_crypt_r (Some mem) key setting sz = Inr (Some out)"
  shows "des_crypt_r (Some mem') key out sz = Inr (Some out)"
proof -
  from assms have out: "c_char out 0 = c_char setting 0" "c_char out 1 = c_char setting 1"
    by (auto simp: des_crypt_r_eq c_char_def split: prod.splits)
  then have "salt_of out = salt_of setting" by (simp add: salt_of_def)
  with assms out show ?thesis by (simp add: des_crypt_r_eq)
qed

theorem des_crypt_r_verifies_witness:
  "\<exists>out. des_crypt_r (Some sample_keys) (of_string ''rtems'') (of_string ''td'') 21 = Inr (Some out) \<and>
     des_crypt_r (Some sample_keys) (of_string ''rtems'') out 21 = Inr (Some out)"
proof -
  obtain out where "des_crypt_r (Some sample_keys) (of_string ''rtems'') (of_string ''td'') 21 = Inr (Some out)"
    by (simp add: des_crypt_r_eq split: prod.split)
  with des_crypt_r_verifies [OF _ _ _ this] show ?thesis by (auto simp: c_char_def of_string_def)
qed

end
