(* ===== verification/CheckPasswd.thy ===== *)
theory CheckPasswd
  imports Des_Crypt
begin

unbundle bit_operations_syntax

text \<open>
  The login check of the telnet daemon, \<^verbatim>\<open>telnetd/check_passwd.c\<close>, as it is compiled into
  \<^verbatim>\<open>telnetd.c\<close>, with the default password of \<^verbatim>\<open>telnetd/passwd.h\<close>.

  What the function obtains from its surroundings are arguments: the environment variable,
  the results of \<open>tcgetattr\<close> and of the first \<open>tcsetattr\<close>, the line that the \<open>k\<close>-th \<open>fgets\<close>
  stores (\<open>None\<close> when it returns null) and the block that the \<open>k\<close>-th \<open>malloc\<close> of
  \<open>des_crypt_r\<close> returns. What it does to its surroundings is a list of events in program
  order.
\<close>

section \<open>Model\<close>

text \<open>The members of \<open>struct termios\<close> the function changes, and the others.\<close>

record termios =
  c_lflag :: u32
  c_cc_VTIME :: u8
  c_cc_VMIN :: u8
  c_other :: "u8 list"

abbreviation ICANON :: u32 where "ICANON \<equiv> 0x0002"
abbreviation ECHO :: u32 where "ECHO \<equiv> 0x0008"
abbreviation MAXPASSRETRY :: nat where "MAXPASSRETRY \<equiv> 3"

datatype pw_event =
    Tcsetattr termios    \<comment> \<open>the attributes are changed\<close>
  | Tcsetattr_failed
  | Restore termios      \<comment> \<open>the last call of \<open>tcsetattr\<close>, whose result is ignored\<close>
  | Perror string
  | Flush_in             \<comment> \<open>\<open>fflush(stdin)\<close>\<close>
  | Prompt               \<comment> \<open>\<open>Password:\<close> on \<open>stderr\<close>\<close>
  | Newline
  | Incorrect
  | Reset_eof            \<comment> \<open>\<open>ungetc\<close>, \<open>fgetc\<close>\<close>
  | Sleep nat
  | Syslog_wrong nat string

datatype pw_exit = Accepted | Exhausted | Input_error

definition TELNETD_DEFAULT_PASSWD :: cstring where
  "TELNETD_DEFAULT_PASSWD = of_string ''tduDcyLX12owo''"

definition select_passwd :: "cstring option \<Rightarrow> cstring" where
  "select_passwd env =
     (case env of None \<Rightarrow> TELNETD_DEFAULT_PASSWD
      | Some pw \<Rightarrow> if length pw = 0 then TELNETD_DEFAULT_PASSWD else pw)"

definition noecho :: "termios \<Rightarrow> termios" where
  "noecho t = t\<lparr>c_lflag := c_lflag t AND NOT ECHO AND NOT ICANON, c_cc_VTIME := 255, c_cc_VMIN := 0\<rparr>"

fun strip_loop :: "nat \<Rightarrow> cstring \<Rightarrow> cstring" where
  \<comment> \<open>the argument is \<open>tmp\<close>, the length of the buffer's string\<close>
  "strip_loop 0 buf = buf"
| "strip_loop (Suc tmp) buf =
     (if buf ! tmp = 10 \<or> buf ! tmp = 13 then strip_loop tmp (take tmp buf) else buf)"

definition strip_eol :: "cstring \<Rightarrow> cstring" where
  \<comment> \<open>of the bytes in the buffer, the string ends at the first zero\<close>
  "strip_eol buf = (let s = takeWhile (\<lambda>c. c \<noteq> 0) buf in strip_loop (length s) s)"

fun ask_passwd :: "cstring \<Rightarrow> (nat \<Rightarrow> cstring option) \<Rightarrow> (nat \<Rightarrow> des_context option) \<Rightarrow>
    nat \<Rightarrow> nat \<Rightarrow> (pw_exit \<times> pw_event list) res" where
  \<comment> \<open>the loop over \<open>retries\<close>; \<open>k\<close> counts the attempts made; a null result of the
      encryption would be passed to \<open>strcmp\<close>\<close>
  "ask_passwd pw inp mem k 0 = Inr (Exhausted, [])"
| "ask_passwd pw inp mem k (Suc retries) =
     (case inp k of
        None \<Rightarrow> Inr (Input_error, [Flush_in, Prompt, Reset_eof])
      | Some buf \<Rightarrow>
          (case des_crypt_r (mem k) (strip_eol buf) (take 2 pw) 21 of
             Inl e \<Rightarrow> Inl e
           | Inr None \<Rightarrow> Inl NullDeref
           | Inr (Some out) \<Rightarrow>
               if out = pw then Inr (Accepted, [Flush_in, Prompt, Newline])
               else (case ask_passwd pw inp mem (Suc k) retries of
                       Inl e \<Rightarrow> Inl e
                     | Inr (x, evs) \<Rightarrow> Inr (x, [Flush_in, Prompt, Newline, Incorrect, Sleep 2] @ evs))))"

definition check_passwd :: "string option \<Rightarrow> cstring option \<Rightarrow> termios option \<Rightarrow> bool \<Rightarrow>
    (nat \<Rightarrow> cstring option) \<Rightarrow> (nat \<Rightarrow> des_context option) \<Rightarrow> (int \<times> pw_event list) res" where
  "check_passwd peername env attrs set_ok inp mem =
     (let pw = select_passwd env in
      case attrs of
        None \<Rightarrow> Inr (-1, [Perror ''check_passwd(): tcgetattr'', Sleep 2])
      | Some told \<Rightarrow>
          if \<not> set_ok
          then Inr (-1, [Tcsetattr_failed, Perror ''check_passwd(): tcsetattr'', Sleep 2])
          else
            (case ask_passwd pw inp mem 0 MAXPASSRETRY of
               Inl e \<Rightarrow> Inl e
             | Inr (x, evs) \<Rightarrow>
                 let rval = (if x = Accepted then 0 else -1) in
                 Inr (rval,
                   [Tcsetattr (noecho told)] @ evs @
                   (if x = Exhausted
                    then [Syslog_wrong MAXPASSRETRY (case peername of None \<Rightarrow> ''<UNKNOWN>'' | Some s \<Rightarrow> s)]
                    else []) @
                   [Restore told] @ (if rval \<noteq> 0 then [Sleep 2] else []))))"

section \<open>The line\<close>

definition is_eol :: "u8 \<Rightarrow> bool" where
  "is_eol c \<longleftrightarrow> c = 10 \<or> c = 13"

lemma strip_loop_rev: "strip_loop (length s) s = rev (dropWhile is_eol (rev s))"
proof (induction s rule: rev_induct)
  case (snoc c s)
  then show ?case by (simp add: is_eol_def nth_append)
qed simp

lemma strip_eol_line:
  assumes "cstring_ok s" and "s = [] \<or> \<not> is_eol (last s)" and "list_all is_eol eol"
  shows "strip_eol (s @ eol) = s"
proof -
  have nz: "takeWhile (\<lambda>c. c \<noteq> 0) (s @ eol) = s @ eol"
    using assms(1,3) by (auto simp: takeWhile_eq_all_conv cstring_ok_def list_all_iff is_eol_def)
  have "rev (dropWhile is_eol (rev eol @ rev s)) = s"
    using assms(2,3)
    by (cases s rule: rev_cases) (auto simp: dropWhile_append list_all_iff dropWhile_eq_Nil_conv [THEN iffD2])
  with nz show ?thesis by (simp only: strip_eol_def Let_def strip_loop_rev rev_append)
qed

section \<open>Outcomes\<close>

text \<open>The line \<open>buf\<close> is the password whose encryption is \<open>pw\<close>.\<close>

definition matches :: "cstring \<Rightarrow> cstring \<Rightarrow> bool" where
  "matches pw buf \<longleftrightarrow>
     [c_char (take 2 pw) 0, if c_char (take 2 pw) 1 \<noteq> 0 then c_char (take 2 pw) 1 else c_char (take 2 pw) 0] @
       (case crypt_block (copy_key 8 (strip_eol buf)) (salt_of (take 2 pw)) of (r0, r1) \<Rightarrow> encode_result r0 r1) = pw"

lemma matches_iff: "matches pw buf \<longleftrightarrow> des_crypt_r (Some m) (strip_eol buf) (take 2 pw) 21 = Inr (Some pw)"
  by (simp add: matches_def des_crypt_r_eq)

text \<open>The specification of the loop: the first line that is missing or matches decides, within
  the given number of attempts.\<close>

fun outcome :: "cstring \<Rightarrow> (nat \<Rightarrow> cstring option) \<Rightarrow> nat \<Rightarrow> nat \<Rightarrow> pw_exit" where
  "outcome pw inp k 0 = Exhausted"
| "outcome pw inp k (Suc n) =
     (case inp k of None \<Rightarrow> Input_error
      | Some buf \<Rightarrow> if matches pw buf then Accepted else outcome pw inp (Suc k) n)"

lemma ask_passwd_outcome:
  assumes "\<And>k. mem k \<noteq> None"
  shows "\<exists>evs. ask_passwd pw inp mem k n = Inr (outcome pw inp k n, evs)"
proof (induction n arbitrary: k)
  case 0
  show ?case by simp
next
  case (Suc n)
  obtain m where m: "mem k = Some m" using assms by blast
  show ?case
  proof (cases "inp k")
    case (Some buf)
    with m Suc.IH [of "Suc k"] show ?thesis
      by (auto simp: matches_def des_crypt_r_eq split: prod.split)
  qed simp
qed

lemma outcome_accepted_iff:
  "outcome pw inp k n = Accepted \<longleftrightarrow>
     (\<exists>j<n. (\<exists>buf. inp (k + j) = Some buf \<and> matches pw buf) \<and> (\<forall>i<j. inp (k + i) \<noteq> None))"
proof (induction n arbitrary: k)
  case 0
  show ?case by simp
next
  case (Suc n)
  have shift: "(\<exists>j<Suc n. P j) \<longleftrightarrow> P 0 \<or> (\<exists>j<n. P (Suc j))" for P
    by (auto simp: less_Suc_eq_0_disj)
  have all: "(\<forall>i<Suc j. Q i) \<longleftrightarrow> Q 0 \<and> (\<forall>i<j. Q (Suc i))" for Q j
    by (auto simp: less_Suc_eq_0_disj)
  show ?case
    using Suc.IH [of "Suc k"]
    by (cases "inp k") (auto simp: shift all)
qed

text \<open>The terminal attributes while the events run, and the prompts shown with echo on; \<open>ok\<close> tells whether the
  call that restores the attributes succeeds.\<close>

fun attrs_after :: "bool \<Rightarrow> termios \<Rightarrow> pw_event list \<Rightarrow> termios" where
  "attrs_after ok t [] = t"
| "attrs_after ok t (Tcsetattr t' # es) = attrs_after ok t' es"
| "attrs_after ok t (Restore t' # es) = attrs_after ok (if ok then t' else t) es"
| "attrs_after ok t (_ # es) = attrs_after ok t es"

fun silent_prompts :: "bool \<Rightarrow> termios \<Rightarrow> pw_event list \<Rightarrow> bool" where
  "silent_prompts ok t [] = True"
| "silent_prompts ok t (Tcsetattr t' # es) = silent_prompts ok t' es"
| "silent_prompts ok t (Restore t' # es) = silent_prompts ok (if ok then t' else t) es"
| "silent_prompts ok t (Prompt # es) = (c_lflag t AND ECHO = 0 \<and> silent_prompts ok t es)"
| "silent_prompts ok t (_ # es) = silent_prompts ok t es"

fun pause :: "pw_event list \<Rightarrow> nat" where
  "pause [] = 0"
| "pause (Sleep n # es) = n + pause es"
| "pause (_ # es) = pause es"

fun quiet :: "pw_event \<Rightarrow> bool" where
  "quiet (Tcsetattr t) = False"
| "quiet (Restore t) = False"
| "quiet (Syslog_wrong n s) = False"
| "quiet _ = True"

lemma ask_passwd_quiet: "ask_passwd pw inp mem k n = Inr (x, evs) \<Longrightarrow> list_all quiet evs"
  by (induction pw inp mem k n arbitrary: x evs rule: ask_passwd.induct)
     (auto split: option.splits sum.splits if_splits)

lemma ask_passwd_pause: "ask_passwd pw inp mem k n = Inr (Exhausted, evs) \<Longrightarrow> pause evs = 2 * n"
  by (induction pw inp mem k n arbitrary: evs rule: ask_passwd.induct)
     (auto split: option.splits sum.splits if_splits)

lemma attrs_after_append: "attrs_after ok t (es @ fs) = attrs_after ok (attrs_after ok t es) fs"
  by (induction ok t es rule: attrs_after.induct) simp_all

lemma silent_prompts_append:
  "silent_prompts ok t (es @ fs) \<longleftrightarrow> silent_prompts ok t es \<and> silent_prompts ok (attrs_after ok t es) fs"
  by (induction ok t es rule: silent_prompts.induct) simp_all

lemma pause_append: "pause (es @ fs) = pause es + pause fs"
  by (induction es rule: pause.induct) simp_all

lemma quiet_attrs: "list_all quiet es \<Longrightarrow> attrs_after ok t es = t"
  by (induction ok t es rule: attrs_after.induct) simp_all

lemma quiet_silent: "list_all quiet es \<Longrightarrow> c_lflag t AND ECHO = 0 \<Longrightarrow> silent_prompts ok t es"
  by (induction ok t es rule: silent_prompts.induct) simp_all

lemma noecho_echo: "c_lflag (noecho t) AND ECHO = 0"
proof -
  have "ECHO = 2 ^ 3" by simp
  then have "c_lflag (noecho t) AND ECHO = 0 \<longleftrightarrow> \<not> bit (c_lflag (noecho t)) 3"
    by (simp only: and_exp_eq_0_iff_not_bit)
  then show ?thesis by (simp add: noecho_def bit_simps bit_numeral_simps)
qed

section \<open>Properties\<close>


definition sample_termios :: termios where
  "sample_termios = \<lparr>c_lflag = 0x3b, c_cc_VTIME = 0, c_cc_VMIN = 1, c_other = []\<rparr>"


text \<open>C19: Whatever the outcome, and whether or not the attributes of the terminal can be read and changed at
  the beginning, a returning check leaves them as it found them, unless the call that restores them fails: the
  terminal is then left without echo. And it never prompts for a password while the terminal echoes.\<close>

theorem check_passwd_terminal:
  assumes "check_passwd peer env attrs set_ok inp mem = Inr (r, evs)" "attrs = None \<or> attrs = Some t"
  shows "attrs_after ok t evs = (if attrs = Some t \<and> set_ok \<and> \<not> ok then noecho t else t) \<and> silent_prompts ok t evs"
proof (cases "attrs = Some t \<and> set_ok")
  case False
  then show ?thesis using assms by (auto simp: check_passwd_def Let_def)
next
  case True
  with assms(1) obtain x es where es: "ask_passwd (select_passwd env) inp mem 0 3 = Inr (x, es)"
    by (auto simp: check_passwd_def Let_def split: sum.splits prod.splits)
  note q = ask_passwd_quiet [OF es]
  from assms(1) es True show ?thesis
    by (auto simp: check_passwd_def Let_def attrs_after_append silent_prompts_append
        quiet_attrs [OF q] quiet_silent [OF q noecho_echo])
qed

theorem check_passwd_terminal_witness:
  "check_passwd None None (Some sample_termios) True (\<lambda>_. None) (\<lambda>_. None) =
     Inr (-1, [Tcsetattr (noecho sample_termios), Flush_in, Prompt, Reset_eof, Restore sample_termios, Sleep 2]) \<and>
   attrs_after True sample_termios
     [Tcsetattr (noecho sample_termios), Flush_in, Prompt, Reset_eof, Restore sample_termios, Sleep 2] = sample_termios \<and>
   silent_prompts True sample_termios [Tcsetattr_failed, Perror ''check_passwd(): tcsetattr'', Sleep 2]"
proof -
  have 1: "check_passwd None None (Some sample_termios) True (\<lambda>_. None) (\<lambda>_. None) =
     Inr (-1, [Tcsetattr (noecho sample_termios), Flush_in, Prompt, Reset_eof, Restore sample_termios, Sleep 2])"
    by (simp add: check_passwd_def Let_def eval_nat_numeral)
  have 2: "check_passwd None None (Some sample_termios) False (\<lambda>_. None) (\<lambda>_. None) =
     Inr (-1, [Tcsetattr_failed, Perror ''check_passwd(): tcsetattr'', Sleep 2])" by (simp add: check_passwd_def)
  show ?thesis
    using check_passwd_terminal [OF 1, of sample_termios True] check_passwd_terminal [OF 2, of sample_termios True] 1 by simp
qed

text \<open>Three wrong passwords are reported once to the system log with the peer's name, and
  cost the peer eight seconds.\<close>

theorem check_passwd_lockout:
  assumes "\<And>k. mem k \<noteq> None" and "\<And>k. k < 3 \<Longrightarrow> \<exists>buf. inp k = Some buf \<and> \<not> matches (select_passwd env) buf"
  shows "\<exists>evs. check_passwd (Some peer) env (Some t) True inp mem = Inr (-1, evs) \<and>
     filter (\<lambda>e. \<not> quiet e) evs = [Tcsetattr (noecho t), Syslog_wrong 3 peer, Restore t] \<and> pause evs = 8"
proof -
  have "outcome (select_passwd env) inp 0 3 = Exhausted"
    using assms(2) [of 0] assms(2) [of 1] assms(2) [of 2] by (auto simp: eval_nat_numeral)
  with ask_passwd_outcome [of mem "select_passwd env" inp 0 3] assms(1) obtain es
    where es: "ask_passwd (select_passwd env) inp mem 0 3 = Inr (Exhausted, es)" by auto
  have "filter (\<lambda>e. \<not> quiet e) es = []"
    using ask_passwd_quiet [OF es] by (auto simp: filter_empty_conv list_all_iff)
  with es ask_passwd_pause [OF es] show ?thesis
    by (auto simp: check_passwd_def Let_def pause_append)
qed

lemma matches_length: "matches pw buf \<Longrightarrow> length pw = 13"
  unfolding matches_def by (drule arg_cong [where f = length]) (simp split: prod.splits)

theorem check_passwd_lockout_witness:
  "\<exists>evs. check_passwd (Some ''10.0.0.9'') (Some (of_string ''*'')) (Some sample_termios) True
     (\<lambda>_. Some (of_string ''guess'')) (\<lambda>_. Some sample_keys) = Inr (-1, evs) \<and> pause evs = 8"
proof -
  have "\<not> matches (select_passwd (Some (of_string ''*''))) buf" for buf
    using matches_length [of "of_string ''*''" buf] by (auto simp: select_passwd_def)
  then show ?thesis
    using check_passwd_lockout [of "\<lambda>_. Some sample_keys" "\<lambda>_. Some (of_string ''guess'')"
        "Some (of_string ''*'')" "''10.0.0.9''" sample_termios] by auto
qed

lemma set_password_accepted:
  assumes "des_crypt_r (Some m) key setting 21 = Inr (Some pw)"
    and "c_char setting 0 \<noteq> 0" "c_char setting 1 \<noteq> 0"
    and "cstring_ok key" "key = [] \<or> \<not> is_eol (last key)" "list_all is_eol eol"
    and "inp 0 = Some (key @ eol)" and "mem 0 = Some m'"
  shows "\<exists>evs. check_passwd peer (Some pw) (Some t) True inp mem = Inr (0, evs)"
proof -
  from assms(1-3) have two: "take 2 pw = [c_char setting 0, c_char setting 1]"
    and ne: "pw \<noteq> []"
    by (auto simp: des_crypt_r_eq split: prod.splits)
  have "salt_of (take 2 pw) = salt_of setting" by (simp add: two salt_of_def c_char_def)
  then have "des_crypt_r (Some m') key (take 2 pw) 21 = Inr (Some pw)"
    using assms(1-3) two by (simp add: des_crypt_r_eq c_char_def)
  with assms(7,8) strip_eol_line [OF assms(4-6)] ne show ?thesis
    by (simp add: check_passwd_def Let_def select_passwd_def numeral_3_eq_3)
qed

text \<open>A password set up by encrypting it with a two-character salt is accepted at the first
  prompt, with or without carriage return and line feed behind it.\<close>

theorem check_passwd_accepts_set_password:
  assumes "des_crypt_r (Some m) key setting 21 = Inr (Some pw)"
    and "c_char setting 0 \<noteq> 0" "c_char setting 1 \<noteq> 0"
    and "cstring_ok key" "key = [] \<or> \<not> is_eol (last key)" "list_all is_eol eol"
    and "inp 0 = Some (key @ eol)" and "mem 0 = Some m'"
  shows "\<exists>evs. check_passwd peer (Some pw) (Some t) True inp mem = Inr (0, evs)"
  using assms by (rule set_password_accepted)

theorem check_passwd_accepts_set_password_witness:
  "\<exists>pw evs. des_crypt_r (Some sample_keys) (of_string ''secret'') (of_string ''td'') 21 = Inr (Some pw) \<and>
     check_passwd None (Some pw) (Some sample_termios) True
       (\<lambda>_. Some (of_string ''secret'' @ [13, 10])) (\<lambda>_. Some sample_keys) = Inr (0, evs)"
proof -
  obtain pw where pw: "des_crypt_r (Some sample_keys) (of_string ''secret'') (of_string ''td'') 21 = Inr (Some pw)"
    by (simp add: des_crypt_r_eq split: prod.split)
  moreover have "c_char (of_string ''td'') 0 \<noteq> 0" "c_char (of_string ''td'') 1 \<noteq> 0"
    "cstring_ok (of_string ''secret'')" "\<not> is_eol (last (of_string ''secret''))"
    by (simp_all add: c_char_def of_string_def cstring_ok_def is_eol_def)
  moreover have "list_all is_eol [13, 10]" by (simp add: is_eol_def)
  ultimately show ?thesis
    using check_passwd_accepts_set_password [OF pw, of "[13, 10]" "\<lambda>_. Some (of_string ''secret'' @ [13, 10])"
        "\<lambda>_. Some sample_keys" sample_keys None sample_termios] by auto
qed

end
