(* ===== verification/Telnetd.thy ===== *)
theory Telnetd
  imports CheckPasswd Pty_Slots
begin

unbundle bit_operations_syntax

text \<open>
  The telnet daemon, \<^verbatim>\<open>telnetd/telnetd.c\<close>: the task that accepts connections, the task that
  runs a session, the default routine that spawns tasks, and the entry point \<open>startTelnetd\<close>.

  The daemon works on the slot table of \<^verbatim>\<open>pty.c\<close> and, through \<open>fopen\<close> and \<open>fclose\<close> of the
  device, on the state of the RTEMS libio and termios layers, which are not part of the
  repository. They are parameters: \<open>op\<close> and \<open>cl\<close> stand for \<open>fopen(devname, "r+")\<close> and
  \<open>fclose\<close> and act on the pair of the driver and a kernel state of any type. \<open>talk\<close> is what
  the login dialogue and the shell do to that pair. The other results the daemon obtains from
  RTEMS are members of the records \<open>spawn_env\<close>, \<open>conn_env\<close> and \<open>session_env\<close>.
\<close>

section \<open>Data\<close>

type_synonym 'k sys = "driver \<times> 'k"
type_synonym addr = "u8 \<times> u8 \<times> u8 \<times> u8"

datatype spawn_fn = Dflt_spawn | Custom_spawn
  \<comment> \<open>the variable \<open>telnetd_spawn_task\<close>: the default or a routine of the application\<close>

record telnetd =
  telnetd_task_id :: nat
  telnetd_stack_size :: u32
  telnetd_task_priority :: u32
  telnetd_dont_spawn :: int
  telnetd_shell :: "nat option"     \<comment> \<open>address of the shell routine\<close>
  telnetd_shell_arg :: nat
  telnetd_spawn_task :: spawn_fn

datatype td_event =
    Ev_sys sysop
  | Ev_pw pw_event
  | Ev_perror string
  | Ev_syslog string string devptr        \<comment> \<open>message, peer name, device\<close>
  | Ev_rtems_error nat string
  | Ev_shell "nat option" devptr nat
  | Ev_malloc_arg | Ev_free_arg          \<comment> \<open>the \<open>struct shell_args\<close>\<close>
  | Ev_malloc_pwa | Ev_free_pwa          \<comment> \<open>the \<open>struct wrap_delete_args\<close>\<close>
  | Ev_task_create u32 u32 u32           \<comment> \<open>name, priority, stack size\<close>
  | Ev_task_start nat
  | Ev_task_delete_self
  | Ev_sleep nat

record spawn_env =
  pwa_mem :: bool          \<comment> \<open>\<open>malloc\<close> of the argument block succeeds\<close>
  create_sc :: nat         \<comment> \<open>status of \<open>rtems_task_create\<close>\<close>
  start_sc :: nat          \<comment> \<open>status of \<open>rtems_task_start\<close>\<close>
  new_id :: nat            \<comment> \<open>the task id\<close>
  custom_ret :: nat        \<comment> \<open>result of an application's spawn routine\<close>

record login_env =
  pw_env :: "cstring option"
  pw_attrs :: "termios option"
  pw_set_ok :: bool
  pw_lines :: "nat \<Rightarrow> cstring option"
  pw_mem :: "nat \<Rightarrow> des_context option"

record conn_env =
  acp_sock :: int          \<comment> \<open>result of \<open>accept\<close>\<close>
  peer_addr :: "addr option" \<comment> \<open>\<open>getpeername\<close>\<close>
  arg_mem :: bool          \<comment> \<open>\<open>malloc\<close> of the \<open>struct shell_args\<close> succeeds\<close>
  conn_spawn :: spawn_env
  conn_login :: login_env

record session_env =
  libio_sc :: nat          \<comment> \<open>status of \<open>rtems_libio_set_private_env\<close>\<close>
  sess_login :: login_env

section \<open>Connections\<close>

definition digit :: "nat \<Rightarrow> char" where
  "digit n = char_of (48 + n)"

definition dec_byte :: "u8 \<Rightarrow> string" where
  "dec_byte b =
     (let n = unat b in
      if n < 10 then [digit n]
      else if n < 100 then [digit (n div 10), digit (n mod 10)]
      else [digit (n div 100), digit (n div 10 mod 10), digit (n mod 10)])"

definition inet_ntop :: "addr \<Rightarrow> nat \<Rightarrow> string option" where
  \<comment> \<open>the C library's \<open>inet_ntop(AF_INET, ...)\<close>: null when the buffer is too small\<close>
  "inet_ntop ip sz =
     (case ip of (a, b, c, d) \<Rightarrow>
        let s = dec_byte a @ ''.'' @ dec_byte b @ ''.'' @ dec_byte c @ ''.'' @ dec_byte d in
        if length s < sz then Some s else None)"

definition sockpeername :: "int \<Rightarrow> addr option \<Rightarrow> nat \<Rightarrow> int \<times> string option" where
  "sockpeername sock peer bufsz =
     (if sock < 0 then (1, None)
      else case peer of None \<Rightarrow> (-1, None)
      | Some ip \<Rightarrow> (case inet_ntop ip bufsz of None \<Rightarrow> (1, None) | Some s \<Rightarrow> (0, Some s)))"

definition grab_a_Connection ::
  "int \<Rightarrow> addr option \<Rightarrow> nat \<Rightarrow> 'k sys \<Rightarrow> devptr option \<times> string \<times> td_event list \<times> 'k sys" where
  "grab_a_Connection sock peer sz s =
     (if sock < 0 then (None, [], [Ev_perror ''telnetd:accept''], s)
      else case telnet_get_pty sock (fst s) of
        (None, ops, d) \<Rightarrow>
          (None, [], map Ev_sys ops @ [Ev_syslog ''unable to obtain PTY'' [] DevNull], (d, snd s))
      | (Some h, ops, d) \<Rightarrow>
          (let (r, nm) = sockpeername sock peer sz;
               peername = (if r \<noteq> 0 then take sz ''<UNKNOWN>'' else the nm) in
           (Some h, peername, map Ev_sys ops @ [Ev_syslog ''accepted connection'' peername h], (d, snd s))))"

fun fclose_all :: "(devptr \<Rightarrow> 'k sys \<Rightarrow> sysop list \<times> 'k sys) \<Rightarrow> devptr \<Rightarrow> bool list \<Rightarrow> 'k sys \<Rightarrow>
    sysop list \<times> 'k sys" where
  \<comment> \<open>one flag per stream: not null\<close>
  "fclose_all cl h [] s = ([], s)"
| "fclose_all cl h (b # bs) s =
     (let (ops, s) = (if b then cl h s else ([], s));
          (ops', s) = fclose_all cl h bs s in (ops @ ops', s))"

definition release_a_Connection :: "(devptr \<Rightarrow> 'k sys \<Rightarrow> sysop list \<times> 'k sys) \<Rightarrow> devptr \<Rightarrow> string \<Rightarrow>
    bool list \<Rightarrow> 'k sys \<Rightarrow> td_event list \<times> 'k sys" where
  \<comment> \<open>\<open>pstd\<close> has the \<open>n\<close> streams, closed from the last to the first\<close>
  "release_a_Connection cl h peername pstd s =
     (let (ops, s) = fclose_all cl h (rev pstd) s in
      (Ev_syslog ''releasing connection'' peername h # map Ev_sys ops, s))"

definition login :: "string \<Rightarrow> login_env \<Rightarrow> (int \<times> pw_event list) res" where
  "login peername e =
     check_passwd (Some peername) (pw_env e) (pw_attrs e) (pw_set_ok e) (pw_lines e) (pw_mem e)"

section \<open>Spawning tasks\<close>

definition rtems_build_name :: "char list \<Rightarrow> u32" where
  "rtems_build_name nm =
     be32 (of_string nm ! 0) (of_string nm ! 1) (of_string nm ! 2) (of_string nm ! 3)"

definition strncpy4 :: "string \<Rightarrow> string" where
  \<comment> \<open>\<open>strncpy(nm, name, 4)\<close>\<close>
  "strncpy4 name = take 4 (name @ replicate 4 (CHR 0x00))"

definition telnetd_dflt_spawn :: "string \<Rightarrow> u32 \<Rightarrow> u32 \<Rightarrow> spawn_env \<Rightarrow> nat \<times> td_event list" where
  "telnetd_dflt_spawn name priority stackSize e =
     (if \<not> pwa_mem e then (0, [Ev_perror ''Telnetd: no memory''])
      else
        (let created = [Ev_malloc_pwa, Ev_task_create (rtems_build_name (strncpy4 name)) priority stackSize] in
         if create_sc e \<noteq> 0
         then (0, created @ [Ev_free_pwa, Ev_rtems_error (create_sc e) ''Telnetd: spawning task failed''])
         else if start_sc e \<noteq> 0
         then (0, created @ [Ev_task_start (new_id e), Ev_free_pwa,
                             Ev_rtems_error (start_sc e) ''Telnetd: spawning task failed''])
         else (new_id e, created @ [Ev_task_start (new_id e)])))"

definition spawn_task :: "telnetd \<Rightarrow> string \<Rightarrow> u32 \<Rightarrow> u32 \<Rightarrow> spawn_env \<Rightarrow> nat \<times> td_event list" where
  \<comment> \<open>the call through the pointer \<open>telnetd_spawn_task\<close>\<close>
  "spawn_task g name priority stackSize e =
     (case telnetd_spawn_task g of
        Dflt_spawn \<Rightarrow> telnetd_dflt_spawn name priority stackSize e
      | Custom_spawn \<Rightarrow> (custom_ret e, []))"

definition wrap_delete :: "('s \<Rightarrow> (td_event list \<times> 's) res) \<Rightarrow> 's \<Rightarrow> (td_event list \<times> 's) res" where
  "wrap_delete t s =
     (case t s of Inl e \<Rightarrow> Inl e
      | Inr (evs, s) \<Rightarrow> Inr ([Ev_free_pwa] @ evs @ [Ev_task_delete_self], s))"

section \<open>Sessions\<close>

fun open_streams :: "(devptr \<Rightarrow> 'k sys \<Rightarrow> bool \<times> 'k sys) \<Rightarrow> devptr \<Rightarrow> nat \<Rightarrow> nat \<Rightarrow> 'k sys \<Rightarrow> nat \<times> 'k sys" where
  \<comment> \<open>the loop that redirects stdio: \<open>n\<close> streams to go, \<open>i\<close> opened\<close>
  "open_streams op h 0 i s = (i, s)"
| "open_streams op h (Suc n) i s =
     (let (ok, s) = op h s in if ok then open_streams op h n (Suc i) s else (i, s))"

definition spawned_shell ::
  "(devptr \<Rightarrow> 'k sys \<Rightarrow> bool \<times> 'k sys) \<Rightarrow> (devptr \<Rightarrow> 'k sys \<Rightarrow> sysop list \<times> 'k sys) \<Rightarrow> ('k sys \<Rightarrow> 'k sys) \<Rightarrow>
   telnetd \<Rightarrow> session_env \<Rightarrow> devptr \<Rightarrow> nat \<Rightarrow> string \<Rightarrow> 'k sys \<Rightarrow> (td_event list \<times> 'k sys) res" where
  \<comment> \<open>\<open>h\<close>, \<open>arg\<close> and \<open>peername\<close> are the members of the \<open>struct shell_args\<close>\<close>
  "spawned_shell op cl talk g e h arg peername s =
     (if libio_sc e \<noteq> 0 then
        (let (evs, s) = release_a_Connection cl h peername [] s in
         Inr ([Ev_rtems_error (libio_sc e) ''rtems_libio_set_private_env''] @ evs @ [Ev_free_arg], s))
      else
        (let (i, s) = open_streams op h 3 0 s in
         if i < 3 then
           (let (evs, s) = release_a_Connection cl h peername (replicate i True) s in
            Inr ([Ev_perror ''unable to open stdio''] @ evs @ [Ev_free_arg], s))
         else
           (case login peername (sess_login e) of Inl f \<Rightarrow> Inl f
            | Inr (r, pevs) \<Rightarrow>
                (let (evs, s) = release_a_Connection cl h peername (replicate i True) (talk s) in
                 Inr (map Ev_pw pevs @ (if r = 0 then [Ev_shell (telnetd_shell g) h arg] else []) @
                      evs @ [Ev_free_arg], s)))))"

section \<open>The accepting task\<close>

definition dev_basename :: "devptr \<Rightarrow> string" where
  \<comment> \<open>\<open>&devname[5]\<close>\<close>
  "dev_basename h = (case h of DevName s \<Rightarrow> drop 5 s | _ \<Rightarrow> [])"

text \<open>One pass of the loop of \<open>rtems_task_telnetd\<close>; the session it has spawned is returned.\<close>

definition telnetd_iter ::
  "(devptr \<Rightarrow> 'k sys \<Rightarrow> bool \<times> 'k sys) \<Rightarrow> (devptr \<Rightarrow> 'k sys \<Rightarrow> sysop list \<times> 'k sys) \<Rightarrow> ('k sys \<Rightarrow> 'k sys) \<Rightarrow>
   telnetd \<Rightarrow> conn_env \<Rightarrow> 'k sys \<Rightarrow> (td_event list \<times> (devptr \<times> nat \<times> string) option \<times> 'k sys) res" where
  "telnetd_iter op cl talk g c s =
     (case grab_a_Connection (acp_sock c) (peer_addr c) 16 s of
        (None, peername, evs, s) \<Rightarrow> Inr (evs @ [Ev_sleep 10], None, s)
      | (Some h, peername, evs, s) \<Rightarrow>
          if telnetd_dont_spawn g \<noteq> 0 then
            (case login peername (conn_login c) of Inl f \<Rightarrow> Inl f
             | Inr (r, pevs) \<Rightarrow>
                 Inr (evs @ map Ev_pw pevs @
                        (if r = 0 then [Ev_shell (telnetd_shell g) h (telnetd_shell_arg g)] else []),
                      None, if r = 0 then talk s else s))
          else if \<not> arg_mem c then Inl NullDeref
          else
            (case spawn_task g (dev_basename h) (telnetd_task_priority g) (telnetd_stack_size g) (conn_spawn c) of
               (t, sevs) \<Rightarrow>
                 if t \<noteq> 0
                 then Inr (evs @ Ev_malloc_arg # sevs, Some (h, telnetd_shell_arg g, peername), s)
                 else
                   (let (ok, s) = op h s;
                        (revs, s) = release_a_Connection cl h peername [ok] s in
                    Inr (evs @ Ev_malloc_arg # sevs @
                           (if telnetd_spawn_task g \<noteq> Dflt_spawn then [Ev_perror ''Unable to spawn child task''] else []) @
                           (if ok then [] else [Ev_perror ''Unable to dummy open the pty, losing a slot'']) @
                           revs @ [Ev_free_arg, Ev_sleep 2], None, s))))"

fun telnetd_loop ::
  "(devptr \<Rightarrow> 'k sys \<Rightarrow> bool \<times> 'k sys) \<Rightarrow> (devptr \<Rightarrow> 'k sys \<Rightarrow> sysop list \<times> 'k sys) \<Rightarrow> ('k sys \<Rightarrow> 'k sys) \<Rightarrow>
   telnetd \<Rightarrow> conn_env list \<Rightarrow> 'k sys \<Rightarrow> (td_event list \<times> (devptr \<times> nat \<times> string) list \<times> 'k sys) res" where
  \<comment> \<open>the first passes of the endless loop, one for each element of the list\<close>
  "telnetd_loop op cl talk g [] s = Inr ([], [], s)"
| "telnetd_loop op cl talk g (c # cs) s =
     (case telnetd_iter op cl talk g c s of Inl f \<Rightarrow> Inl f
      | Inr (evs, started, s) \<Rightarrow>
          (case telnetd_loop op cl talk g cs s of Inl f \<Rightarrow> Inl f
           | Inr (evs', ss, s) \<Rightarrow>
               Inr (evs @ evs', (case started of None \<Rightarrow> ss | Some x \<Rightarrow> x # ss), s)))"

datatype listen_env = Socket_fails | Bind_fails int | Listen_fails int | Listening int

definition rtems_task_telnetd ::
  "(devptr \<Rightarrow> 'k sys \<Rightarrow> bool \<times> 'k sys) \<Rightarrow> (devptr \<Rightarrow> 'k sys \<Rightarrow> sysop list \<times> 'k sys) \<Rightarrow> ('k sys \<Rightarrow> 'k sys) \<Rightarrow>
   listen_env \<Rightarrow> conn_env list \<Rightarrow> telnetd \<Rightarrow> 'k sys \<Rightarrow>
   (td_event list \<times> (devptr \<times> nat \<times> string) list \<times> telnetd \<times> 'k sys) res" where
  "rtems_task_telnetd op cl talk l cs g s =
     (case l of
        Socket_fails \<Rightarrow>
          Inr ([Ev_perror ''telnetd:socket'', Ev_task_delete_self], [], g\<lparr>telnetd_task_id := 0\<rparr>, s)
      | Bind_fails sock \<Rightarrow>
          Inr ([Ev_perror ''telnetd:bind'', Ev_sys (Close sock), Ev_task_delete_self], [], g\<lparr>telnetd_task_id := 0\<rparr>, s)
      | Listen_fails sock \<Rightarrow>
          Inr ([Ev_perror ''telnetd:listen'', Ev_sys (Close sock), Ev_task_delete_self], [], g\<lparr>telnetd_task_id := 0\<rparr>, s)
      | Listening sock \<Rightarrow>
          (case telnetd_loop op cl talk g cs s of Inl f \<Rightarrow> Inl f
           | Inr (evs, ss, s) \<Rightarrow> Inr (evs, ss, g, s)))"

section \<open>Starting the daemon\<close>

abbreviation RTEMS_RESOURCE_IN_USE :: int where "RTEMS_RESOURCE_IN_USE \<equiv> 12"

definition initialize_telnetd :: "u32 \<Rightarrow> spawn_env \<Rightarrow> telnetd \<Rightarrow> int \<times> td_event list \<times> telnetd" where
  \<comment> \<open>\<open>min_stack\<close> is \<open>RTEMS_MINIMUM_STACK_SIZE\<close>\<close>
  "initialize_telnetd min_stack e g =
     (if telnetd_task_id g \<noteq> 0 then (RTEMS_RESOURCE_IN_USE, [], g)
      else
        (let g = (if telnetd_stack_size g \<le> 0 then g\<lparr>telnetd_stack_size := 32000\<rparr> else g);
             (t, evs) = spawn_task g ''TNTD'' (telnetd_task_priority g)
               (if telnetd_dont_spawn g \<noteq> 0 then telnetd_stack_size g else min_stack) e in
         if t = 0 then (-1, evs, g) else (0, evs, g)))"

definition startTelnetd ::
  "(driver \<Rightarrow> bool \<times> driver) \<Rightarrow> int \<Rightarrow> u32 \<Rightarrow> spawn_env \<Rightarrow>
   nat option \<Rightarrow> nat \<Rightarrow> int \<Rightarrow> int \<Rightarrow> int \<Rightarrow> telnetd \<Rightarrow> driver \<Rightarrow> int \<times> td_event list \<times> telnetd \<times> driver" where
  \<comment> \<open>\<open>register\<close> as in \<open>pty_do_initialize\<close>; \<open>net_prio\<close> is the priority of the network task\<close>
  "startTelnetd register net_prio min_stack e cmd arg dontSpawn stack priority g d =
     (if telnetd_shell g = None \<and> cmd = None then (1, [Ev_perror ''setup error - NO SHELL''], g, d)
      else if telnetd_task_id g \<noteq> 0 then (1, [Ev_perror ''telnetd already started''], g, d)
      else
        (let (ok, d) = pty_do_initialize register d in
         if \<not> ok then (1, [Ev_perror ''PTY driver probably not properly registered''], g, d)
         else
           (let priority = (if priority = 0 then net_prio else priority);
                priority = (if priority < 2 then 100 else priority);
                g = g\<lparr>telnetd_shell := (if cmd \<noteq> None then cmd else telnetd_shell g),
                      telnetd_shell_arg := arg, telnetd_stack_size := word_of_int stack,
                      telnetd_task_priority := word_of_int priority, telnetd_dont_spawn := dontSpawn\<rparr>;
                (sc, evs, g) = initialize_telnetd min_stack e g in
            (sc, evs, g, d))))"

end
