(* ===== verification/Telnetd_Sessions.thy ===== *)
theory Telnetd_Sessions
  imports Telnetd
begin

unbundle bit_operations_syntax

text \<open>
  What the daemon guarantees about connections, device slots and tasks.

  The locale \<open>termios_layer\<close> states what the daemon relies on from RTEMS: the streams open on
  a device are counted, opening leaves the connection bound, and only closing the last stream
  calls the driver's shutdown routine, which closes the socket and frees the slot. The laws are
  discharged for reference counting over \<open>ptyPollInitialize\<close> and \<open>ptyShutdown\<close>, which is how
  RTEMS documents its termios open and close.
\<close>

section \<open>The interface to libio and termios\<close>

abbreviation bound :: "'k sys \<Rightarrow> devptr \<Rightarrow> int option" where
  "bound s \<equiv> pool_held (fst s)"

locale termios_layer =
  fixes op :: "devptr \<Rightarrow> 'k sys \<Rightarrow> bool \<times> 'k sys"
    and cl :: "devptr \<Rightarrow> 'k sys \<Rightarrow> sysop list \<times> 'k sys"
    and opens :: "'k sys \<Rightarrow> devptr \<Rightarrow> nat"
    and inv :: "'k sys \<Rightarrow> bool"
  assumes inv_ready: "inv s \<Longrightarrow> pty_ready (fst s)"
    and inv_driver: "inv s \<Longrightarrow> pty_ready d \<Longrightarrow> inv (d, snd s) \<and> opens (d, snd s) = opens s"
    and open_ok: "inv s \<Longrightarrow> h \<in> pty_handles \<Longrightarrow> op h s = (True, s') \<Longrightarrow>
      inv s' \<and> opens s' = (opens s)(h := Suc (opens s h)) \<and> bound s' = bound s"
    and open_fails: "inv s \<Longrightarrow> h \<in> pty_handles \<Longrightarrow> op h s = (False, s') \<Longrightarrow>
      inv s' \<and> opens s' = opens s \<and> bound s' = bound s"
    and close_more: "inv s \<Longrightarrow> h \<in> pty_handles \<Longrightarrow> 1 < opens s h \<Longrightarrow> cl h s = (ops, s') \<Longrightarrow>
      ops = [] \<and> inv s' \<and> opens s' = (opens s)(h := opens s h - 1) \<and> bound s' = bound s"
    and close_last: "inv s \<Longrightarrow> h \<in> pty_handles \<Longrightarrow> opens s h = 1 \<Longrightarrow> bound s h = Some sock \<Longrightarrow>
      cl h s = (ops, s') \<Longrightarrow>
      ops = [Close sock, Chown h] \<and> inv s' \<and> opens s' = (opens s)(h := 0) \<and> bound s' = (bound s)(h := None)"
begin

lemma open_streams_spec:
  "open_streams op h n i s = (j, s') \<Longrightarrow> inv s \<Longrightarrow> h \<in> pty_handles \<Longrightarrow>
     inv s' \<and> opens s' = (opens s)(h := opens s h + (j - i)) \<and> bound s' = bound s \<and> i \<le> j \<and> j \<le> i + n"
proof (induction n arbitrary: i s)
  case 0
  then show ?case by simp
next
  case (Suc n)
  obtain ok t where ot: "op h s = (ok, t)" by (cases "op h s")
  show ?case
  proof (cases ok)
    case True
    with ot Suc.prems have o: "inv t \<and> opens t = (opens s)(h := Suc (opens s h)) \<and> bound t = bound s"
      using open_ok [of s h t] by simp
    from True ot Suc.prems have "open_streams op h n (Suc i) t = (j, s')" by simp
    from Suc.IH [OF this] o Suc.prems have
      "inv s' \<and> opens s' = (opens t)(h := opens t h + (j - Suc i)) \<and> bound s' = bound t \<and> Suc i \<le> j \<and> j \<le> Suc i + n"
      by blast
    with o show ?thesis by (auto simp: fun_eq_iff)
  next
    case False
    with ot Suc.prems open_fails show ?thesis by auto
  qed
qed

lemma open_streams_pos:
  assumes "fst (op h s)" and "open_streams op h (Suc n) 0 s = (j, s')" "inv s" "h \<in> pty_handles"
  shows "0 < j"
proof -
  obtain t where t: "op h s = (True, t)" using assms(1) by (cases "op h s") auto
  with assms(2) have "open_streams op h n 1 t = (j, s')" by simp
  from open_streams_spec [OF this] open_ok [OF assms(3,4) t] assms(4) show ?thesis by auto
qed

text \<open>Closing all open streams of a bound device closes its socket once and frees the slot.\<close>

lemma fclose_all_spec:
  "inv s \<Longrightarrow> h \<in> pty_handles \<Longrightarrow> opens s h = Suc n \<Longrightarrow> bound s h = Some sock \<Longrightarrow>
     \<exists>s'. fclose_all cl h (replicate (Suc n) True) s = ([Close sock, Chown h], s') \<and> inv s' \<and>
       opens s' = (opens s)(h := 0) \<and> bound s' = (bound s)(h := None)"
proof (induction n arbitrary: s)
  case 0
  obtain ops s' where "cl h s = (ops, s')" by (cases "cl h s")
  with close_last [of s h sock ops s'] 0 show ?case by (simp add: fun_upd_def)
next
  case (Suc n)
  obtain ops t where t: "cl h s = (ops, t)" by (cases "cl h s")
  with close_more [of s h ops t] Suc.prems
  have m: "ops = [] \<and> inv t \<and> opens t = (opens s)(h := Suc n) \<and> bound t = bound s" by simp
  then have "inv t" "opens t h = Suc n" "bound t h = Some sock" using Suc.prems by simp_all
  with Suc.IH [of t] Suc.prems(2) obtain s' where
    s': "fclose_all cl h (replicate (Suc n) True) t = ([Close sock, Chown h], s')" "inv s'"
    "opens s' = (opens t)(h := 0)" "bound s' = (bound t)(h := None)" by blast
  have "fclose_all cl h (replicate (Suc (Suc n)) True) s = ([Close sock, Chown h], s')"
    using t m s'(1) by (simp only: replicate_Suc [of "Suc n"] fclose_all.simps Let_def split if_True append_Nil)
  moreover have "opens s' = (opens s)(h := 0)" "bound s' = (bound s)(h := None)"
    using s'(3,4) m by simp_all
  ultimately show ?case using s'(2) by blast
qed

lemma release_spec:
  assumes "inv s" "h \<in> pty_handles" "opens s h = Suc n" "bound s h = Some sock"
  obtains s' where "release_a_Connection cl h peer (replicate (Suc n) True) s =
      ([Ev_syslog ''releasing connection'' peer h, Ev_sys (Close sock), Ev_sys (Chown h)], s')"
    "inv s'" "opens s' = (opens s)(h := 0)" "bound s' = (bound s)(h := None)"
proof -
  obtain s' where s': "fclose_all cl h (replicate (Suc n) True) s = ([Close sock, Chown h], s')" "inv s'"
    "opens s' = (opens s)(h := 0)" "bound s' = (bound s)(h := None)"
    using fclose_all_spec [OF assms] by blast
  have r: "rev (replicate (Suc n) True) = replicate (Suc n) True" by (rule rev_replicate)
  from s' show thesis
    by (intro that [of s'])
       (simp_all only: release_a_Connection_def r Let_def split list.map)
qed

end

section \<open>Reference counting over the driver's callbacks\<close>

text \<open>The number of streams open on each minor device.\<close>

type_synonym counts = "nat \<Rightarrow> nat"

definition rc_open :: "u32 \<Rightarrow> devptr \<Rightarrow> counts sys \<Rightarrow> bool \<times> counts sys" where
  "rc_open dflt h s =
     (case slot_of h of None \<Rightarrow> (False, s)
      | Some n \<Rightarrow>
          if snd s n = 0 then
            (case ptyPollInitialize (int n) n dflt (fst s) of
               Inl e \<Rightarrow> (False, s) | Inr (r, d) \<Rightarrow> (True, (d, (snd s)(n := 1))))
          else (True, (fst s, (snd s)(n := Suc (snd s n)))))"

definition rc_close :: "devptr \<Rightarrow> counts sys \<Rightarrow> sysop list \<times> counts sys" where
  "rc_close h s =
     (case slot_of h of None \<Rightarrow> ([], s)
      | Some n \<Rightarrow>
          if snd s n = 1 then
            (case ptyShutdown (int n) (fst s) of
               Inl e \<Rightarrow> ([], s) | Inr (r, ops, d) \<Rightarrow> (ops, (d, (snd s)(n := 0))))
          else ([], (fst s, (snd s)(n := snd s n - 1))))"

definition rc_opens :: "counts sys \<Rightarrow> devptr \<Rightarrow> nat" where
  "rc_opens s h = (case slot_of h of None \<Rightarrow> 0 | Some n \<Rightarrow> snd s n)"

lemma rc_opens_update:
  "n < MAX_PTYS \<Longrightarrow> rc_opens (d, c(n := k)) = (rc_opens (d', c))(dev_name n := k)"
  by (rule ext) (auto simp: rc_opens_def slot_of_Some dev_name_inj split: option.split)

lemma ptyPollInitialize_ready:
  assumes rdy: "pty_ready d" and n: "n < MAX_PTYS"
  obtains r d' where "ptyPollInitialize (int n) t dflt d = Inr (r, d')" "pty_ready d'" "pool_held d' = pool_held d"
proof (cases "socket (telnet_ptys d ! n) < 0")
  case True
  with assms show thesis by (intro that [of "-1" d]) (simp_all add: ptyPollInitialize_def pty_at_def)
next
  case False
  let ?q = "(telnet_ptys d ! n)\<lparr>opened := True, ttyp := Some t, iac_mode := 0, sb_ind := 0,
    width := 0, height := 0, c_cflag := dflt\<rparr>"
  from False assms have "ptyPollInitialize (int n) t dflt d = Inr (0, set_pty (int n) ?q d)"
    by (simp add: ptyPollInitialize_def ptySetAttributes_def pty_at_def set_pty_def)
  moreover have "slot_wf ?q"
    using pty_ready_slot [OF assms] False by (simp add: slot_wf_def decoder_wf_def valid_mode_def)
  moreover have "pool_held (set_pty (int n) ?q d) = pool_held d"
    using False assms by (auto simp: pool_held_update fun_upd_idem_iff pool_held_dev_name Let_def)
  ultimately show thesis using rdy by (intro that [of 0 "set_pty (int n) ?q d"] pty_ready_set_pty) simp_all
qed

lemma ptyShutdown_ready:
  assumes rdy: "pty_ready d" and n: "n < MAX_PTYS" and sock: "pool_held d (dev_name n) = Some sock"
  obtains r d' where "ptyShutdown (int n) d = Inr (r, [Close sock, Chown (dev_name n)], d')"
    "pty_ready d'" "pool_held d' = (pool_held d)(dev_name n := None)"
proof -
  let ?d = "pool_release (dev_name n) d"
  have "devname (telnet_ptys d ! n) = dev_name n" "socket (telnet_ptys d ! n) = sock" "0 \<le> sock"
    using assms by (auto simp: pty_ready_def names_wf_slot driver_wf_length pool_held_dev_name Let_def split: if_splits)
  with n rdy have "ptyShutdown (int n) d = Inr (0, [Close sock, Chown (dev_name n)], ?d)"
    by (simp add: pool_release_def ptyShutdown_def pty_at_def)
  with pty_pool.release [OF rdy, of "dev_name n"] n show thesis
    by (intro that [of 0 ?d]) (auto simp: pty_handles_def)
qed

interpretation rc: termios_layer "rc_open dflt" rc_close rc_opens "\<lambda>s. pty_ready (fst s)"
proof
  fix s :: "counts sys" and d
  show "pty_ready d \<Longrightarrow> pty_ready (fst (d, snd s)) \<and> rc_opens (d, snd s) = rc_opens s"
    by (simp add: rc_opens_def fun_eq_iff split: option.split)
next
  fix s s' :: "counts sys" and h
  assume rdy: "pty_ready (fst s)" and "h \<in> pty_handles" and o: "rc_open dflt h s = (True, s')"
  then obtain n where n: "n < MAX_PTYS" "h = dev_name n" by (auto simp: pty_handles_def)
  obtain r d' where d': "ptyPollInitialize (int n) n dflt (fst s) = Inr (r, d')" "pty_ready d'" "pool_held d' = bound s"
    using ptyPollInitialize_ready [OF rdy n(1)] by metis
  have k: "rc_opens s h = snd s n" using n by (simp add: rc_opens_def)
  have "s' = (if snd s n = 0 then d' else fst s, (snd s)(n := Suc (snd s n)))"
    using o n d' by (auto simp: rc_open_def split: if_splits)
  then show "pty_ready (fst s') \<and> rc_opens s' = (rc_opens s)(h := Suc (rc_opens s h)) \<and> bound s' = bound s"
    using rdy d' n k by (auto simp: rc_opens_update [where d' = "fst s"])
next
  fix s s' :: "counts sys" and h
  assume rdy: "pty_ready (fst s)" and "h \<in> pty_handles" and o: "rc_open dflt h s = (False, s')"
  then obtain n where n: "n < MAX_PTYS" "h = dev_name n" by (auto simp: pty_handles_def)
  then show "pty_ready (fst s') \<and> rc_opens s' = rc_opens s \<and> bound s' = bound s"
    using o rdy by (auto simp: rc_open_def split: if_splits sum.splits)
next
  fix s s' :: "counts sys" and h ops
  assume rdy: "pty_ready (fst s)" and "h \<in> pty_handles" and k: "1 < rc_opens s h" and c: "rc_close h s = (ops, s')"
  then obtain n where n: "n < MAX_PTYS" "h = dev_name n" by (auto simp: pty_handles_def)
  with k have "rc_opens s h = snd s n" "snd s n \<noteq> 1" by (auto simp: rc_opens_def)
  then show "ops = [] \<and> pty_ready (fst s') \<and> rc_opens s' = (rc_opens s)(h := rc_opens s h - 1) \<and> bound s' = bound s"
    using c n rdy by (auto simp: rc_close_def rc_opens_update [where d' = "fst s"])
next
  fix s s' :: "counts sys" and h sock ops
  assume rdy: "pty_ready (fst s)" and "h \<in> pty_handles" and k: "rc_opens s h = 1"
    and b: "bound s h = Some sock" and c: "rc_close h s = (ops, s')"
  then obtain n where n: "n < MAX_PTYS" "h = dev_name n" by (auto simp: pty_handles_def)
  with b obtain r d' where d': "ptyShutdown (int n) (fst s) = Inr (r, [Close sock, Chown h], d')"
    "pty_ready d'" "pool_held d' = (bound s)(h := None)"
    using ptyShutdown_ready [OF rdy n(1)] by metis
  from n k have "snd s n = 1" by (simp add: rc_opens_def)
  then show "ops = [Close sock, Chown h] \<and> pty_ready (fst s') \<and> rc_opens s' = (rc_opens s)(h := 0) \<and>
      bound s' = (bound s)(h := None)"
    using c n d' by (auto simp: rc_close_def rc_opens_update [where d' = "fst s"])
qed

section \<open>Logins\<close>

lemma login_returns:
  assumes "\<And>k. pw_mem e k \<noteq> None"
  obtains r evs where "login peername e = Inr (r, evs)"
proof -
  have "\<exists>r evs. check_passwd p env attrs set_ok inp (pw_mem e) = Inr (r, evs)" for p env attrs set_ok inp
    using ask_passwd_outcome [of "pw_mem e" "select_passwd env" inp 0 3] assms
    by (cases attrs) (auto simp: check_passwd_def Let_def)
  then show thesis using that by (simp add: login_def) blast
qed

lemma map_Ev_pw_sys [simp]: "count_list (map Ev_pw es) (Ev_sys x) = 0" "count_list (map Ev_pw es) Ev_free_arg = 0"
  by (induction es) simp_all

text \<open>What the login dialogue and the shell may do to the device while a session lasts: anything
  but bind, unbind, open or close it.\<close>

definition keeps :: "('k sys \<Rightarrow> bool) \<Rightarrow> ('k sys \<Rightarrow> devptr \<Rightarrow> nat) \<Rightarrow> devptr \<Rightarrow> ('k sys \<Rightarrow> 'k sys) \<Rightarrow> bool" where
  "keeps good opens h talk \<longleftrightarrow>
     (\<forall>s. good s \<longrightarrow> good (talk s) \<and> opens (talk s) h = opens s h \<and> bound (talk s) h = bound s h)"

lemma keepsD: "keeps good opens h talk \<Longrightarrow> good s \<Longrightarrow>
    good (talk s) \<and> opens (talk s) h = opens s h \<and> bound (talk s) h = bound s h"
  unfolding keeps_def by blast

context termios_layer
begin

lemma session_releases:
  assumes s: "inv s" "h \<in> pty_handles" "opens s h = 0" "bound s h = Some sock"
    and env: "libio_sc e = 0" "fst (op h s)" and mem: "\<And>k. pw_mem (sess_login e) k \<noteq> None"
    and talk: "keeps inv opens h talk"
  shows "\<exists>evs s'. spawned_shell op cl talk g e h arg peer s = Inr (evs, s') \<and>
     inv s' \<and> opens s' h = 0 \<and> bound s' h = None \<and>
     count_list evs (Ev_sys (Close sock)) = 1 \<and> count_list evs Ev_free_arg = 1"
proof -
  obtain i t where it: "open_streams op h 3 0 s = (i, t)" by (cases "open_streams op h 3 0 s")
  from open_streams_spec [OF it s(1,2)] s have t: "inv t" "opens t h = i" "bound t h = Some sock" "i \<le> 3"
    by auto
  have "0 < i" using open_streams_pos [OF env(2), of 2 i t] it s by (simp add: numeral_3_eq_3 numeral_2_eq_2)
  then obtain n where n: "i = Suc n" by (cases i) auto
  obtain r pevs where log: "login peer (sess_login e) = Inr (r, pevs)"
    using login_returns mem by blast
  define u where "u = (if i < 3 then t else talk t)"
  have u: "inv u" "opens u h = Suc n" "bound u h = Some sock"
    using keepsD [OF talk t(1)] t n by (simp_all add: u_def)
  from release_spec [OF u(1) s(2) u(2,3), of peer] obtain s' where
    rel: "release_a_Connection cl h peer (replicate i True) u =
      ([Ev_syslog ''releasing connection'' peer h, Ev_sys (Close sock), Ev_sys (Chown h)], s')"
    and s': "inv s'" "opens s' = (opens u)(h := 0)" "bound s' = (bound u)(h := None)"
    unfolding n by blast
  show ?thesis
    using env it log rel s' by (cases "i < 3") (simp_all add: spawned_shell_def u_def count_list_append)
qed

lemma session_leaks:
  assumes s: "inv s" "h \<in> pty_handles" and fails: "libio_sc e \<noteq> 0 \<or> \<not> fst (op h s)"
  shows "\<exists>evs s'. spawned_shell op cl talk g e h arg peer s = Inr (evs, s') \<and>
     opens s' = opens s \<and> bound s' = bound s \<and> (\<forall>sock. Ev_sys (Close sock) \<notin> set evs)"
proof -
  obtain ok t where ot: "op h s = (ok, t)" by (cases "op h s")
  show ?thesis
  proof (cases "libio_sc e = 0")
    case True
    with fails ot have "op h s = (False, t)" by simp
    with open_fails [OF s this] True show ?thesis
      by (simp add: spawned_shell_def release_a_Connection_def numeral_3_eq_3)
  qed (simp add: spawned_shell_def release_a_Connection_def)
qed

end

section \<open>Accepting connections\<close>

lemma grab_Some:
  assumes "pty_ready (fst s)" and "grab_a_Connection sock peer sz s = (Some h, nm, evs, s')"
  shows "0 \<le> sock" "h \<in> pty_handles" "bound s h = None" "bound s' = (bound s)(h \<mapsto> sock)"
    "pty_ready (fst s')" "snd s' = snd s"
proof -
  show sock: "0 \<le> sock" using assms(2) by (auto simp: grab_a_Connection_def split: if_splits)
  from assms(2) have a: "pool_alloc sock (fst s) = (Some h, fst s')" and "snd s' = snd s"
    by (auto simp: grab_a_Connection_def pool_alloc_def Let_def split: if_splits prod.splits option.splits)
  then show "snd s' = snd s" by simp
  from pty_pool.alloc_Some [OF assms(1) sock a]
  show "h \<in> pty_handles" "bound s h = None" "bound s' = (bound s)(h \<mapsto> sock)" "pty_ready (fst s')"
    by auto
qed

lemma grab_None:
  assumes "pty_ready (fst s)" and "grab_a_Connection sock peer sz s = (None, nm, evs, s')"
  shows "s' = s" and "0 \<le> sock \<Longrightarrow> dom (bound s) = pty_handles \<and> Ev_sys (Close sock) \<in> set evs"
proof -
  show "s' = s"
    using assms(2) telnet_get_pty_None(2) [OF assms(1)]
    by (cases s) (auto simp: grab_a_Connection_def Let_def split: if_splits prod.splits option.splits)
  assume sock: "0 \<le> sock"
  with assms(2) obtain d ops where g: "telnet_get_pty sock (fst s) = (None, ops, d)"
    and "evs = map Ev_sys ops @ [Ev_syslog ''unable to obtain PTY'' [] DevNull]"
    by (auto simp: grab_a_Connection_def Let_def split: if_splits prod.splits option.splits)
  moreover from g have "pool_alloc sock (fst s) = (None, d)" by (simp add: pool_alloc_def)
  ultimately show "dom (bound s) = pty_handles \<and> Ev_sys (Close sock) \<in> set evs"
    using telnet_get_pty_None [OF assms(1) g] pty_pool.alloc_None [OF assms(1) sock] by auto
qed

lemma length_dec_byte: "length (dec_byte b) \<le> 3"
  by (simp add: dec_byte_def Let_def)

lemma inet_ntop_16: "length (the (inet_ntop ip 16)) < 16"
proof -
  obtain a b c d where "ip = (a, b, c, d)" by (cases ip)
  then show ?thesis
    using length_dec_byte [of a] length_dec_byte [of b] length_dec_byte [of c] length_dec_byte [of d]
    by (simp add: inet_ntop_def Let_def)
qed

lemma sockpeername_16: "sockpeername sock peer 16 = (r, nm) \<Longrightarrow> r = 0 \<Longrightarrow> length (the nm) < 16"
  using inet_ntop_16 by (auto simp: sockpeername_def simp del: split_paired_All split: if_splits option.splits)

lemma grab_peername: "grab_a_Connection sock peer 16 s = (Some h, nm, evs, s') \<Longrightarrow> length nm < 16"
  by (auto simp: grab_a_Connection_def Let_def sockpeername_16 split: if_splits prod.splits option.splits)

text \<open>The device an accepting pass loses: no task could be spawned for it, and the dummy
  open that should bring about its release fails.\<close>

definition pass_loses :: "(devptr \<Rightarrow> 'k sys \<Rightarrow> bool \<times> 'k sys) \<Rightarrow> telnetd \<Rightarrow> conn_env \<Rightarrow> 'k sys \<Rightarrow> devptr list" where
  "pass_loses op g c s =
     (case grab_a_Connection (acp_sock c) (peer_addr c) 16 s of
        (None, _) \<Rightarrow> []
      | (Some h, _, _, t) \<Rightarrow>
          if fst (spawn_task g (dev_basename h) (telnetd_task_priority g) (telnetd_stack_size g) (conn_spawn c)) = 0 \<and>
             \<not> fst (op h t)
          then [h] else [])"

context termios_layer
begin

text \<open>A pass with a spawn that fails: the dummy open and its close release the device, or the
  device is lost.\<close>

lemma dummy_open_spec:
  assumes t: "inv t" "opens t h = 0" "h \<in> pty_handles" "bound t h = Some sock"
    and u: "op h t = (ok, u)" and v: "release_a_Connection cl h nm [ok] u = (revs, v)"
  shows "inv v \<and> opens v = opens t \<and> bound v = (if ok then (bound t)(h := None) else bound t)"
proof (cases ok)
  case True
  have "op h t = (True, u)" using u True by simp
  note O = open_ok [OF t(1,3) this]
  have "inv u" "opens u h = Suc 0" "bound u h = Some sock" using O t by simp_all
  from release_spec [OF this(1) t(3) this(2,3), of nm] obtain w where
    w: "release_a_Connection cl h nm [True] u =
      ([Ev_syslog ''releasing connection'' nm h, Ev_sys (Close sock), Ev_sys (Chown h)], w)"
    "inv w" "opens w = (opens u)(h := 0)" "bound w = (bound u)(h := None)" by auto
  with v True have "v = w" by simp
  with w O t(2) True show ?thesis by (auto simp: fun_eq_iff)
next
  case False
  with v open_fails [OF t(1,3), of u] u show ?thesis by (simp add: release_a_Connection_def)
qed

lemma pass_spec:
  assumes it: "telnetd_iter op cl talk g c s = Inr (evs, started, s')"
    and s: "inv s" "\<And>h. bound s h = None \<Longrightarrow> opens s h = 0" and sp: "telnetd_dont_spawn g = 0"
  shows "inv s' \<and> opens s' = opens s \<and>
    (case map fst (case started of None \<Rightarrow> [] | Some x \<Rightarrow> [x]) @ pass_loses op g c s of
       [] \<Rightarrow> bound s' = bound s
     | h # hs \<Rightarrow> hs = [] \<and> h \<in> pty_handles \<and> bound s h = None \<and> (\<exists>sock. bound s' = (bound s)(h \<mapsto> sock)))"
proof -
  obtain dev nm gevs t where gr: "grab_a_Connection (acp_sock c) (peer_addr c) 16 s = (dev, nm, gevs, t)"
    by (cases "grab_a_Connection (acp_sock c) (peer_addr c) 16 s")
  show ?thesis
  proof (cases dev)
    case None
    with it gr grab_None(1) [OF inv_ready [OF s(1)], of "acp_sock c" "peer_addr c" 16 nm gevs t]
    have "started = None" "s' = s" by (simp_all add: telnetd_iter_def)
    with s(1) None gr show ?thesis by (simp add: pass_loses_def)
  next
    case (Some h)
    note G = grab_Some [OF inv_ready [OF s(1)] gr [unfolded Some]]
    have t: "inv t" "opens t = opens s"
      using inv_driver [OF s(1) G(5)] G(6) by (metis prod.collapse)+
    obtain tid sevs where sv: "spawn_task g (dev_basename h) (telnetd_task_priority g) (telnetd_stack_size g) (conn_spawn c) = (tid, sevs)"
      by fastforce
    obtain ok u where u: "op h t = (ok, u)" by (cases "op h t")
    obtain revs v where v: "release_a_Connection cl h nm [ok] u = (revs, v)"
      by (cases "release_a_Connection cl h nm [ok] u")
    have loses: "pass_loses op g c s = (if tid = 0 \<and> \<not> ok then [h] else [])"
      using Some gr sv u by (simp add: pass_loses_def)
    show ?thesis
    proof (cases "tid = 0")
      case False
      with Some gr sv it sp have "started = Some (h, telnetd_shell_arg g, nm)" "s' = t"
        by (auto simp: telnetd_iter_def split: if_splits)
      with t G loses False show ?thesis by auto
    next
      case True
      with Some gr sv it sp u v have st: "started = None" "s' = v"
        by (auto simp: telnetd_iter_def split: if_splits)
      have "inv v \<and> opens v = opens t \<and> bound v = (if ok then (bound t)(h := None) else bound t)"
        by (rule dummy_open_spec [OF t(1) _ G(2) _ u v, of "acp_sock c"]) (use t G s(2) [OF G(3)] in simp_all)
      with st True loses t G show ?thesis by (auto simp: fun_eq_iff)
    qed
  qed
qed

lemma pass_never_loses:
  assumes s: "inv s" and op: "\<And>s h. inv s \<Longrightarrow> h \<in> pty_handles \<Longrightarrow> fst (op h s)"
  shows "pass_loses op g c s = []"
proof (cases "grab_a_Connection (acp_sock c) (peer_addr c) 16 s" rule: prod_cases4)
  case (fields dev nm evs t)
  show ?thesis
  proof (cases dev)
    case (Some h)
    note G = grab_Some [OF inv_ready [OF s] fields [unfolded Some]]
    have "inv t" using inv_driver [OF s G(5)] G(6) by (metis prod.collapse)
    with op G(2) fields Some show ?thesis by (simp add: pass_loses_def)
  qed (simp add: pass_loses_def fields)
qed

lemma iter_spec:
  assumes it: "telnetd_iter op cl talk g c s = Inr (evs, started, s')"
    and s: "inv s" "\<And>h. bound s h = None \<Longrightarrow> opens s h = 0"
    and op: "\<And>s h. inv s \<Longrightarrow> h \<in> pty_handles \<Longrightarrow> fst (op h s)" and sp: "telnetd_dont_spawn g = 0"
  shows "inv s' \<and> opens s' = opens s \<and>
    (case started of None \<Rightarrow> bound s' = bound s
     | Some (h, arg, peer) \<Rightarrow> h \<in> pty_handles \<and> bound s h = None \<and> (\<exists>sock. bound s' = (bound s)(h \<mapsto> sock)))"
  using pass_spec [OF it s sp] pass_never_loses [OF s(1) op, of g c]
  by (auto split: option.splits)

end

section \<open>The daemon and its sessions together\<close>

text \<open>
  A session as a sequence of steps, between which the accepting task and the other sessions run:
  setting up the private environment, each call of \<open>fopen\<close>, the login and the shell, each call of
  \<open>fclose\<close>. A session that could not open even one stream is \<open>Abandoned\<close>; one that has closed its
  last stream is \<open>Closing 0\<close>.
\<close>

datatype stage = Setup | Opening nat | Serving | Closing nat | Abandoned

inductive session_step ::
  "(devptr \<Rightarrow> 'k sys \<Rightarrow> bool \<times> 'k sys) \<Rightarrow> (devptr \<Rightarrow> 'k sys \<Rightarrow> sysop list \<times> 'k sys) \<Rightarrow> ('k sys \<Rightarrow> 'k sys) \<Rightarrow>
   session_env \<Rightarrow> devptr \<Rightarrow> string \<Rightarrow> stage \<times> 'k sys \<Rightarrow> stage \<times> 'k sys \<Rightarrow> bool"
  for op cl talk e h peer where
  set_up: "libio_sc e = 0 \<Longrightarrow> session_step op cl talk e h peer (Setup, s) (Opening 0, s)"
| set_up_fails: "libio_sc e \<noteq> 0 \<Longrightarrow> session_step op cl talk e h peer (Setup, s) (Abandoned, s)"
| fopen: "i < 3 \<Longrightarrow> op h s = (True, s') \<Longrightarrow>
    session_step op cl talk e h peer (Opening i, s) (Opening (Suc i), s')"
| fopen_fails: "i < 3 \<Longrightarrow> op h s = (False, s') \<Longrightarrow>
    session_step op cl talk e h peer (Opening i, s) (if i = 0 then Abandoned else Closing i, s')"
| logs_in: "login peer (sess_login e) = Inr r \<Longrightarrow>
    session_step op cl talk e h peer (Opening 3, s) (Serving, s)"
| talks: "session_step op cl talk e h peer (Serving, s) (Serving, talk s)"
| leaves: "session_step op cl talk e h peer (Serving, s) (Closing 3, s)"
| fclose: "cl h s = (ops, s') \<Longrightarrow>
    session_step op cl talk e h peer (Closing (Suc n), s) (Closing n, s')"

text \<open>Run without interruption, these steps are \<open>spawned_shell\<close>.\<close>

abbreviation session_steps where
  "session_steps op cl talk e h peer \<equiv> rtranclp (session_step op cl talk e h peer)"

lemma closing_steps:
  "session_steps op cl talk e h peer (Closing n, s) (Closing 0, snd (fclose_all cl h (replicate n True) s))"
proof (induction n arbitrary: s)
  case (Suc n)
  obtain ops t where t: "cl h s = (ops, t)" by (cases "cl h s")
  have "session_step op cl talk e h peer (Closing (Suc n), s) (Closing n, t)"
    using t by (rule session_step.fclose)
  from converse_rtranclp_into_rtranclp [OF this Suc.IH] t show ?case by (simp add: case_prod_beta)
qed simp

lemma opening_steps:
  "open_streams op h n i s = (j, t) \<Longrightarrow> i + n = 3 \<Longrightarrow>
     session_steps op cl talk e h peer (Opening i, s) (if j < 3 then if j = 0 then Abandoned else Closing j else Opening 3, t)"
proof (induction n arbitrary: i s)
  case (Suc n)
  obtain ok u where u: "op h s = (ok, u)" by (cases "op h s")
  show ?case
  proof (cases ok)
    case True
    then have "op h s = (True, u)" using u by simp
    with Suc.prems have "session_step op cl talk e h peer (Opening i, s) (Opening (Suc i), u)"
      by (intro session_step.fopen) simp_all
    moreover have "open_streams op h n (Suc i) u = (j, t)" using Suc.prems u True by simp
    then have "session_steps op cl talk e h peer (Opening (Suc i), u)
        (if j < 3 then if j = 0 then Abandoned else Closing j else Opening 3, t)"
      using Suc.IH Suc.prems(2) by simp
    ultimately show ?thesis by (rule converse_rtranclp_into_rtranclp)
  next
    case False
    with Suc.prems u session_step.fopen_fails [of i op h s u cl talk e peer] show ?thesis by (auto intro: r_into_rtranclp)
  qed
qed simp

lemma open_streams_le: "open_streams op h n i s = (j, t) \<Longrightarrow> j \<le> i + n"
  by (induction n arbitrary: i s) (force split: prod.splits if_splits)+

lemma spawned_shell_steps:
  assumes "spawned_shell op cl talk g e h arg peer s = Inr (evs, s')"
  obtains st where "session_steps op cl talk e h peer (Setup, s) (st, s')" "st = Closing 0 \<or> st = Abandoned"
proof (cases "libio_sc e = 0")
  case False
  with assms have "s' = s" by (simp add: spawned_shell_def release_a_Connection_def)
  with False that [of Abandoned] show thesis by (auto intro: session_step.set_up_fails r_into_rtranclp)
next
  case True
  obtain j t where jt: "open_streams op h 3 0 s = (j, t)" by (cases "open_streams op h 3 0 s")
  let ?st = "if j < 3 then if j = 0 then Abandoned else Closing j else Opening 3"
  have begins: "session_steps op cl talk e h peer (Setup, s) (?st, t)"
    using session_step.set_up [OF True] opening_steps [OF jt] by (meson add_0 converse_rtranclp_into_rtranclp)
  show thesis
  proof (cases "j < 3")
    case j: True
    with assms jt True have s': "s' = snd (fclose_all cl h (replicate j True) t)"
      by (auto simp: spawned_shell_def release_a_Connection_def split: prod.splits)
    show thesis
    proof (cases "j = 0")
      case z: True
      with s' begins j that [of Abandoned] show thesis by simp
    next
      case False
      with begins j closing_steps [of op cl talk e h peer j t] s' that [of "Closing 0"] show thesis
        by (simp add: rtranclp_trans)
    qed
  next
    case j: False
    from open_streams_le [OF jt] j have j3: "j = 3" by simp
    with assms jt True obtain r where r: "login peer (sess_login e) = Inr r"
      and s': "s' = snd (fclose_all cl h (replicate 3 True) (talk t))"
      by (auto simp: spawned_shell_def release_a_Connection_def split: prod.splits sum.splits)
    have "session_step op cl talk e h peer (Opening 3, t) (Serving, t)"
      "session_step op cl talk e h peer (Serving, t) (Serving, talk t)"
      "session_step op cl talk e h peer (Serving, talk t) (Closing 3, talk t)"
      by (rule session_step.logs_in [OF r] session_step.talks session_step.leaves)+
    then have "session_steps op cl talk e h peer (Opening 3, t) (Closing 3, talk t)"
      by (meson converse_rtranclp_into_rtranclp rtranclp.rtrancl_refl)
    moreover have "session_steps op cl talk e h peer (Setup, s) (Opening 3, t)" using begins j by simp
    moreover have "session_steps op cl talk e h peer (Closing 3, talk t) (Closing 0, s')"
      unfolding s' by (rule closing_steps)
    ultimately have "session_steps op cl talk e h peer (Setup, s) (Closing 0, s')"
      by (meson rtranclp_trans)
    then show thesis by (rule that) simp
  qed
qed

text \<open>
  What the daemon and its session tasks reach from \<open>s0\<close>: the sessions that live with the stage
  each has reached, and the devices that have been lost. One pass of the accepting loop is a step,
  and every step of a session is one. The sessions meet environments that satisfy \<open>env\<close>.
\<close>

inductive daemon_run ::
  "(devptr \<Rightarrow> 'k sys \<Rightarrow> bool \<times> 'k sys) \<Rightarrow> (devptr \<Rightarrow> 'k sys \<Rightarrow> sysop list \<times> 'k sys) \<Rightarrow> ('k sys \<Rightarrow> 'k sys) \<Rightarrow>
   telnetd \<Rightarrow> (session_env \<Rightarrow> bool) \<Rightarrow> 'k sys \<Rightarrow>
   ((devptr \<times> nat \<times> string) \<times> stage) list \<Rightarrow> devptr list \<Rightarrow> 'k sys \<Rightarrow> bool"
  for op cl talk g env s0 where
  start: "daemon_run op cl talk g env s0 [] [] s0"
| accept: "daemon_run op cl talk g env s0 live lost s \<Longrightarrow> telnetd_iter op cl talk g c s = Inr (evs, started, s') \<Longrightarrow>
    daemon_run op cl talk g env s0 (case started of None \<Rightarrow> live | Some x \<Rightarrow> (x, Setup) # live)
      (pass_loses op g c s @ lost) s'"
| session: "daemon_run op cl talk g env s0 (l @ ((h, arg, peer), st) # l') lost s \<Longrightarrow> env e \<Longrightarrow>
    session_step op cl talk e h peer (st, s) (st', s') \<Longrightarrow>
    daemon_run op cl talk g env s0 (l @ ((h, arg, peer), st') # l') lost s'"
| session_ends: "daemon_run op cl talk g env s0 (l @ (x, Closing 0) # l') lost s \<Longrightarrow>
    daemon_run op cl talk g env s0 (l @ l') lost s"
| session_loses: "daemon_run op cl talk g env s0 (l @ (x, Abandoned) # l') lost s \<Longrightarrow>
    daemon_run op cl talk g env s0 (l @ l') (fst x # lost) s"

text \<open>The devices of the sessions that have not closed their last stream, and the number of
  streams a session has open.\<close>

fun held_by :: "((devptr \<times> nat \<times> string) \<times> stage) list \<Rightarrow> devptr list" where
  "held_by [] = []"
| "held_by ((x, st) # l) = (if st = Closing 0 then [] else [fst x]) @ held_by l"

fun streams :: "stage \<Rightarrow> nat" where
  "streams (Opening i) = i"
| "streams Serving = 3"
| "streams (Closing n) = n"
| "streams _ = 0"

lemma held_by_append [simp]: "held_by (l @ l') = held_by l @ held_by l'"
  by (induction l rule: held_by.induct) simp_all

text \<open>The accounts: every busy device belongs to exactly one session that still holds it or is
  lost, and the sessions have the streams open that their stages say.\<close>

definition accounts :: "('k sys \<Rightarrow> bool) \<Rightarrow> ('k sys \<Rightarrow> devptr \<Rightarrow> nat) \<Rightarrow>
    ((devptr \<times> nat \<times> string) \<times> stage) list \<Rightarrow> devptr list \<Rightarrow> 'k sys \<Rightarrow> bool" where
  "accounts good opens live lost s \<longleftrightarrow> good s \<and> distinct (held_by live @ lost) \<and>
     dom (bound s) = set (held_by live @ lost) \<and>
     (\<forall>(x, st) \<in> set live. st \<noteq> Closing 0 \<longrightarrow> opens s (fst x) = streams st) \<and>
     (\<forall>h. h \<notin> set (held_by live) \<longrightarrow> opens s h = 0)"

lemma held_byI: "(x, st) \<in> set l \<Longrightarrow> st \<noteq> Closing 0 \<Longrightarrow> fst x \<in> set (held_by l)"
  by (induction l rule: held_by.induct) auto

text \<open>A shell that leaves all slots bound and open as they are.\<close>

definition neutral :: "('k sys \<Rightarrow> bool) \<Rightarrow> ('k sys \<Rightarrow> devptr \<Rightarrow> nat) \<Rightarrow> ('k sys \<Rightarrow> 'k sys) \<Rightarrow> bool" where
  "neutral good opens talk \<longleftrightarrow>
     (\<forall>s. good s \<longrightarrow> good (talk s) \<and> opens (talk s) = opens s \<and> bound (talk s) = bound s)"

lemma neutral_keeps: "neutral good opens talk \<Longrightarrow> keeps good opens h talk"
  by (simp add: neutral_def keeps_def)

context termios_layer
begin

text \<open>A session that ends frees its own slot and touches no other.\<close>

lemma session_frame:
  assumes s: "inv s" "h \<in> pty_handles" "opens s h = 0" "bound s h = Some sock"
    and env: "libio_sc e = 0" "fst (op h s)" and talk: "neutral inv opens talk"
    and sh: "spawned_shell op cl talk g e h arg peer s = Inr (evs, s')"
  shows "inv s' \<and> opens s' = opens s \<and> bound s' = (bound s)(h := None)"
proof -
  obtain i t where it: "open_streams op h 3 0 s = (i, t)" by (cases "open_streams op h 3 0 s")
  note t = open_streams_spec [OF it s(1,2)]
  have "0 < i" using open_streams_pos [OF env(2), of 2 i t] it s by (simp add: numeral_3_eq_3 numeral_2_eq_2)
  then obtain n where n: "i = Suc n" by (cases i) auto
  define u where "u = (if i < 3 then t else talk t)"
  have "inv (talk t) \<and> opens (talk t) = opens t \<and> bound (talk t) = bound t"
    using talk t unfolding neutral_def by blast
  then have u: "inv u" "opens u = opens t" "bound u = bound t"
    using t by (simp_all add: u_def)
  then have "opens u h = Suc n" "bound u h = Some sock" using t s n by simp_all
  from release_spec [OF u(1) s(2) this, of peer] obtain v where
    v: "release_a_Connection cl h peer (replicate i True) u =
      ([Ev_syslog ''releasing connection'' peer h, Ev_sys (Close sock), Ev_sys (Chown h)], v)"
    "inv v" "opens v = (opens u)(h := 0)" "bound v = (bound u)(h := None)" unfolding n by blast
  from sh it env v(1) have "s' = v"
    by (auto simp: spawned_shell_def u_def split: if_splits sum.splits prod.splits)
  with v u t s(3) show ?thesis by (auto simp: fun_eq_iff)
qed

text \<open>One step of a session changes the number of streams on its own device only, and frees the
  device when it closes the last of them.\<close>

lemma session_step_spec:
  assumes "session_step op cl talk e h peer (st, s) (st', s')"
    and s: "inv s" "h \<in> pty_handles" "opens s h = streams st" "bound s h = Some sock"
    and talk: "neutral inv opens talk"
  shows "st \<noteq> Closing 0 \<and> inv s' \<and> opens s' = (opens s)(h := streams st') \<and>
    bound s' = (if st' = Closing 0 then (bound s)(h := None) else bound s)"
  using assms(1)
proof cases
  case (fopen i)
  with open_ok [OF s(1,2) fopen(4)] s show ?thesis by auto
next
  case (fopen_fails i)
  with open_fails [OF s(1,2) fopen_fails(4)] s show ?thesis by auto
next
  case talks
  have "inv (talk s) \<and> opens (talk s) = opens s \<and> bound (talk s) = bound s"
    using talk s(1) unfolding neutral_def by blast
  with talks s show ?thesis by auto
next
  case (fclose ops n)
  show ?thesis
  proof (cases n)
    case 0
    with fclose s close_last [OF s(1,2) _ s(4) fclose(3)] show ?thesis by auto
  next
    case (Suc m)
    with fclose s close_more [OF s(1,2) _ fclose(3)] show ?thesis by auto
  qed
qed (use s in auto)

lemma accounts_free: "accounts inv opens live lost s \<Longrightarrow> bound s h = None \<Longrightarrow> opens s h = 0"
  unfolding accounts_def by (metis UnCI domIff set_append)

lemma accounts_streams:
  "accounts inv opens live lost s \<Longrightarrow> (x, st) \<in> set live \<Longrightarrow> st \<noteq> Closing 0 \<Longrightarrow> opens s (fst x) = streams st"
  unfolding accounts_def by fastforce

lemma accounts_accept:
  assumes A: "accounts inv opens live lost s" and it: "telnetd_iter op cl talk g c s = Inr (evs, started, s')"
    and sp: "telnetd_dont_spawn g = 0"
  shows "accounts inv opens (case started of None \<Rightarrow> live | Some x \<Rightarrow> (x, Setup) # live) (pass_loses op g c s @ lost) s'"
proof -
  have i: "inv s" using A by (simp add: accounts_def)
  note P = pass_spec [OF it i accounts_free [OF A] sp]
  have new: "h \<notin> set (held_by live)" "h \<notin> set lost" if "bound s h = None" for h
  proof -
    have "h \<notin> dom (bound s)" using that by blast
    then show "h \<notin> set (held_by live)" "h \<notin> set lost" using A by (simp_all add: accounts_def)
  qed
  consider (same) "started = None" "pass_loses op g c s = []" "bound s' = bound s"
    | (loses) h sock where "started = None" "pass_loses op g c s = [h]" "bound s h = None" "bound s' = (bound s)(h \<mapsto> sock)"
    | (starts) x sock where "started = Some x" "pass_loses op g c s = []" "bound s (fst x) = None"
        "bound s' = (bound s)(fst x \<mapsto> sock)"
    using P by (cases started; cases "pass_loses op g c s") auto
  moreover have "inv s'" "opens s' = opens s" using P by simp_all
  ultimately show ?thesis
  proof cases
    case same
    with A \<open>inv s'\<close> \<open>opens s' = opens s\<close> show ?thesis by (simp add: accounts_def)
  next
    case loses
    have "dom (bound s') = insert h (dom (bound s))" by (simp add: loses(4))
    with A loses(1,2) new [OF loses(3)] \<open>inv s'\<close> \<open>opens s' = opens s\<close> show ?thesis by (simp add: accounts_def)
  next
    case starts
    have "dom (bound s') = insert (fst x) (dom (bound s))" by (simp add: starts(4))
    with A starts(1,2) new [OF starts(3)] \<open>inv s'\<close> \<open>opens s' = opens s\<close> accounts_free [OF A starts(3)]
    show ?thesis by (simp add: accounts_def)
  qed
qed

lemma accounts_session:
  assumes A: "accounts inv opens (l @ ((h, arg, peer), st) # l') lost s"
    and step: "session_step op cl talk e h peer (st, s) (st', s')" and talk: "neutral inv opens talk"
  shows "accounts inv opens (l @ ((h, arg, peer), st') # l') lost s'"
proof -
  have st: "st \<noteq> Closing 0" using step by cases auto
  with A have a: "inv s" "opens s h = streams st" "h \<in> dom (bound s)" by (simp_all add: accounts_def)
  then obtain sock where sock: "bound s h = Some sock" by blast
  have "h \<in> pty_handles" using pty_pool.held_handles [OF inv_ready [OF a(1)]] a(3) by blast
  note S = session_step_spec [OF step a(1) this a(2) sock talk]
  have others: "h \<notin> set (held_by l)" "h \<notin> set (held_by l')" "h \<notin> set lost"
    using A st by (simp_all add: accounts_def)
  have "dom (bound s') = (if st' = Closing 0 then dom (bound s) - {h} else dom (bound s))"
    using S by simp
  then have "dom (bound s') = set (held_by (l @ ((h, arg, peer), st') # l') @ lost)"
    using A st others by (auto simp: accounts_def)
  moreover have "opens s' (fst x) = streams st2" if "(x, st2) \<in> set (l @ ((h, arg, peer), st') # l')" "st2 \<noteq> Closing 0" for x st2
  proof (cases "(x, st2) \<in> set l \<union> set l'")
    case True
    then have "opens s (fst x) = streams st2" using accounts_streams [OF A _ that(2)] by simp
    moreover have "fst x \<noteq> h" using True that(2) others held_byI by blast
    ultimately show ?thesis using S by simp
  next
    case False
    then show ?thesis using that S by auto
  qed
  moreover have "opens s' k = 0" if "k \<notin> set (held_by (l @ ((h, arg, peer), st') # l'))" for k
    using that S A st by (cases "k = h") (auto simp: accounts_def split: if_splits)
  moreover have "distinct (held_by (l @ ((h, arg, peer), st') # l') @ lost)"
    using A st by (simp add: accounts_def)
  ultimately show ?thesis using S unfolding accounts_def by blast
qed

lemma daemon_invariant:
  assumes "daemon_run op cl talk g env s0 live lost s"
    and s0: "inv s0" "bound s0 = Map.empty" "\<And>h. opens s0 h = 0"
    and sp: "telnetd_dont_spawn g = 0" and talk: "neutral inv opens talk"
  shows "accounts inv opens live lost s"
  using assms(1)
proof (induction rule: daemon_run.induct)
  case start
  with s0 show ?case by (simp add: accounts_def)
next
  case accept
  then show ?case using accounts_accept sp by blast
next
  case session
  then show ?case using accounts_session talk by blast
next
  case session_ends
  then show ?case by (simp add: accounts_def)
next
  case (session_loses l x l' lost s)
  have "opens s (fst x) = 0" using session_loses.IH by (simp add: accounts_def)
  moreover have "opens s k = 0" if "k \<notin> set (held_by (l @ l'))" for k
    using session_loses.IH that \<open>opens s (fst x) = 0\<close> by (cases "k = fst x") (simp_all add: accounts_def)
  moreover have "distinct (held_by (l @ l') @ fst x # lost)" "inv s"
    "dom (bound s) = set (held_by (l @ l') @ fst x # lost)"
    using session_loses.IH by (auto simp: accounts_def)
  ultimately show ?case using accounts_streams [OF session_loses.IH] unfolding accounts_def by simp blast
qed

lemma nothing_lost:
  assumes "daemon_run op cl talk g env s0 live lost s"
    and s0: "inv s0" "bound s0 = Map.empty" "\<And>h. opens s0 h = 0"
    and sp: "telnetd_dont_spawn g = 0" and talk: "neutral inv opens talk"
    and ok: "\<And>s h. inv s \<Longrightarrow> h \<in> pty_handles \<Longrightarrow> fst (op h s)" "\<And>e. env e \<Longrightarrow> libio_sc e = 0"
  shows "lost = [] \<and> Abandoned \<notin> snd ` set live"
  using assms(1)
proof (induction rule: daemon_run.induct)
  case (accept live lost s c evs started s')
  have "inv s" using daemon_invariant [OF accept.hyps(1) s0 sp talk] by (simp add: accounts_def)
  from pass_never_loses [OF this ok(1)] accept.IH show ?case by (auto split: option.split)
next
  case (session l h arg peer st l' lost s e st' s')
  note A = daemon_invariant [OF session.hyps(1) s0 sp talk]
  have "st' \<noteq> Abandoned"
    using session.hyps(3)
  proof cases
    case (fopen_fails i)
    have "h \<in> dom (bound s)" "inv s" using A fopen_fails(1) by (auto simp: accounts_def)
    then have "fst (op h s)" using ok(1) pty_pool.held_handles [OF inv_ready] by blast
    with fopen_fails show ?thesis by simp
  qed (use session.hyps(2) ok(2) in auto)
  with session.IH show ?case by auto
qed auto

end

section \<open>A sample connection\<close>

definition sample_login :: login_env where
  "sample_login = \<lparr>pw_env = None, pw_attrs = None, pw_set_ok = True, pw_lines = \<lambda>_. None, pw_mem = \<lambda>_. Some sample_keys\<rparr>"

definition sample_session :: session_env where
  "sample_session = \<lparr>libio_sc = 0, sess_login = sample_login\<rparr>"

definition sample_conn :: conn_env where
  "sample_conn = \<lparr>acp_sock = 7, peer_addr = Some (10, 0, 0, 9), arg_mem = True,
     conn_spawn = \<lparr>pwa_mem = True, create_sc = 0, start_sc = 0, new_id = 0xa010005, custom_ret = 0\<rparr>,
     conn_login = sample_login\<rparr>"

definition sample_config :: "int \<Rightarrow> telnetd" where
  "sample_config dont = \<lparr>telnetd_task_id = 0, telnetd_stack_size = 32000, telnetd_task_priority = 100,
     telnetd_dont_spawn = dont, telnetd_shell = Some 1, telnetd_shell_arg = 0, telnetd_spawn_task = Dflt_spawn\<rparr>"

abbreviation closed :: counts where "closed \<equiv> \<lambda>_. 0"

lemma sample_get_pty: "telnet_get_pty 7 sample_registered = (Some (dev_name 0), [Set_rcvtimeo 7 2], sample_connected)"
  by (simp add: sample_defs Let_def)

lemma sample_registered_ready: "pty_ready sample_registered"
  by (simp add: pty_ready_def pty_reach_wf pty_reach_names sample_registered_reach) (simp add: sample_defs)

lemma sample_registered_held: "pool_held sample_registered = Map.empty"
proof -
  have "telnet_ptys sample_registered ! n = init_slot 13 n zero_pty" if "n < MAX_PTYS" for n
    using that by (simp add: sample_registered_def init_slots_def zero_driver_def)
  then show ?thesis
    by (auto simp: pool_held_def slot_of_Some init_slot_def split: option.splits)
qed

lemma sample_grab: "\<exists>nm evs. grab_a_Connection 7 (Some (10, 0, 0, 9)) 16 (sample_registered, closed) =
    (Some (dev_name 0), nm, evs, (sample_connected, closed))"
  by (simp add: grab_a_Connection_def sample_get_pty Let_def split: prod.split)

lemma dev_name_handle: "n < MAX_PTYS \<Longrightarrow> dev_name n \<in> pty_handles"
  by (simp add: pty_handles_def)

lemma rc_opens_closed: "rc_opens (d, closed) h = 0"
  by (simp add: rc_opens_def split: option.split)

lemma rc_open_ok: "pty_ready (fst s) \<Longrightarrow> h \<in> pty_handles \<Longrightarrow> fst (rc_open dflt h s)"
  by (auto simp: pty_handles_def rc_open_def split: sum.split)
     (metis Inl_Inr_False ptyPollInitialize_ready)

section \<open>Properties\<close>

text \<open>C16: A session that can open its device ends with everything released: whether the login
  succeeds or not, and whether one, two or three streams could be opened, \<open>spawned_shell\<close>
  returns, the device slot is free again, no stream is left open, the connection's socket has
  been closed exactly once and the argument block freed exactly once.\<close>

theorem telnetd_session_releases:
  assumes "termios_layer op cl opens good"
    and "good s" "h \<in> pty_handles" "opens s h = 0" "bound s h = Some sock"
    and "libio_sc e = 0" "fst (op h s)" and "\<And>k. pw_mem (sess_login e) k \<noteq> None"
    and "keeps good opens h talk"
  shows "\<exists>evs s'. spawned_shell op cl talk g e h arg peer s = Inr (evs, s') \<and>
     good s' \<and> opens s' h = 0 \<and> bound s' h = None \<and>
     count_list evs (Ev_sys (Close sock)) = 1 \<and> count_list evs Ev_free_arg = 1"
  by (rule termios_layer.session_releases [OF assms])

theorem telnetd_session_releases_witness:
  "\<exists>evs s'. spawned_shell (rc_open 13) rc_close (\<lambda>s. s) (sample_config 0) sample_session (dev_name 0) 0
       ''10.0.0.9'' (sample_connected, closed) = Inr (evs, s') \<and> bound s' (dev_name 0) = None"
  using telnetd_session_releases [OF rc.termios_layer_axioms [of 13], of "(sample_connected, closed)" "dev_name 0" 7
      sample_session "\<lambda>s. s" "sample_config 0" 0 "''10.0.0.9''"]
  by (auto simp: sample_connected_ready sample_connected_held dev_name_handle rc_opens_closed rc_open_ok keeps_def
      sample_session_def sample_login_def)

text \<open>A session whose private environment cannot be set up, or whose first stream cannot be
  opened, loses its slot: \<open>spawned_shell\<close> ends without closing the socket and the slot stays
  bound, although the accepting task takes care to avoid exactly this when it cannot spawn the
  session.\<close>

theorem telnetd_session_leaks:
  assumes "termios_layer op cl opens good"
    and "good s" "h \<in> pty_handles" and "libio_sc e \<noteq> 0 \<or> \<not> fst (op h s)"
  shows "\<exists>evs s'. spawned_shell op cl talk g e h arg peer s = Inr (evs, s') \<and>
     opens s' = opens s \<and> bound s' = bound s \<and> (\<forall>sock. Ev_sys (Close sock) \<notin> set evs)"
  by (rule termios_layer.session_leaks [OF assms])

theorem telnetd_session_leaks_witness:
  "\<exists>evs s'. spawned_shell (rc_open 13) rc_close (\<lambda>s. s) (sample_config 0) (sample_session\<lparr>libio_sc := 13\<rparr>) (dev_name 0) 0
       ''10.0.0.9'' (sample_connected, closed) = Inr (evs, s') \<and> bound s' (dev_name 0) = Some 7"
  using telnetd_session_leaks [OF rc.termios_layer_axioms [of 13], of "(sample_connected, closed)" "dev_name 0"
      "sample_session\<lparr>libio_sc := 13\<rparr>" "\<lambda>s. s" "sample_config 0" 0 "''10.0.0.9''"]
  by (auto simp: sample_connected_ready sample_connected_held dev_name_handle)



text \<open>\<open>grab_a_Connection\<close> on a registered driver: a device it returns was free and is now
  bound to the accepted socket, and the peer's name fits the 16-byte buffer with its terminator;
  if it returns none after a successful \<open>accept\<close>, all slots were busy, the socket has been closed
  and nothing has changed.\<close>

theorem telnetd_grab_correct:
  assumes "pty_ready (fst s)" and "grab_a_Connection sock peer 16 s = (dev, nm, evs, s')" and "0 \<le> sock"
  shows "(case dev of
      Some h \<Rightarrow> bound s h = None \<and> bound s' = (bound s)(h \<mapsto> sock) \<and> length nm < 16
    | None \<Rightarrow> dom (bound s) = pty_handles \<and> s' = s \<and> Ev_sys (Close sock) \<in> set evs)"
proof (cases dev)
  case None
  with grab_None [OF assms(1) assms(2) [unfolded None]] assms(3) show ?thesis by simp
next
  case (Some h)
  with grab_Some [OF assms(1) assms(2) [unfolded Some]] grab_peername [OF assms(2) [unfolded Some]]
  show ?thesis by simp
qed

theorem telnetd_grab_correct_witness:
  "\<exists>nm evs. grab_a_Connection 7 (Some (10, 0, 0, 9)) 16 (sample_registered, closed) =
      (Some (dev_name 0), nm, evs, (sample_connected, closed)) \<and> length nm < 16 \<and>
    bound (sample_connected, closed) (dev_name 0) = Some 7"
proof -
  obtain nm evs where g: "grab_a_Connection 7 (Some (10, 0, 0, 9)) 16 (sample_registered, closed) =
      (Some (dev_name 0), nm, evs, (sample_connected, closed))" using sample_grab by blast
  with telnetd_grab_correct [OF _ g] show ?thesis by (simp add: sample_registered_ready)
qed

text \<open>With \<open>telnetd_dont_spawn\<close> set, a peer that fails the login keeps its slot: the
  daemon goes on to the next connection, no session exists and the device stays bound to the
  open socket.\<close>

theorem telnetd_dont_spawn_leaks:
  assumes "pty_ready (fst s)" and "telnetd_dont_spawn g \<noteq> 0"
    and "grab_a_Connection (acp_sock c) (peer_addr c) 16 s = (Some h, nm, gevs, s1)"
    and "login nm (conn_login c) = Inr (r, pevs)" and "r \<noteq> 0"
  shows "\<exists>evs s'. telnetd_iter op cl talk g c s = Inr (evs, None, s') \<and>
     bound s' = (bound s)(h \<mapsto> acp_sock c)"
  using assms grab_Some(4) [OF assms(1,3)] by (simp add: telnetd_iter_def)

theorem telnetd_dont_spawn_leaks_witness:
  "\<exists>evs s'. telnetd_iter (rc_open 13) rc_close (\<lambda>s. s) (sample_config 1) sample_conn (sample_registered, closed) =
     Inr (evs, None, s') \<and> bound s' (dev_name 0) = Some 7"
proof -
  obtain nm gevs where g: "grab_a_Connection 7 (Some (10, 0, 0, 9)) 16 (sample_registered, closed) =
      (Some (dev_name 0), nm, gevs, (sample_connected, closed))" using sample_grab by blast
  have "login nm (conn_login sample_conn) = Inr (-1, [Perror ''check_passwd(): tcgetattr'', Sleep 2])"
    by (simp add: login_def sample_conn_def sample_login_def check_passwd_def Let_def)
  then show ?thesis
    using telnetd_dont_spawn_leaks [of "(sample_registered, closed)" "sample_config 1" sample_conn "dev_name 0"
        nm gevs "(sample_connected, closed)" "-1" _ "rc_open 13" rc_close "\<lambda>s. s"] g
    by (auto simp: sample_registered_ready sample_config_def sample_conn_def)
qed

text \<open>\<open>telnetd_dflt_spawn\<close> succeeds exactly when memory, task creation and task start
  succeed. The argument block it allocates then belongs to the task, whose wrapper frees it
  before anything else; on every failure it is freed by \<open>telnetd_dflt_spawn\<close> itself.\<close>

theorem telnetd_spawn_ownership:
  assumes "new_id e \<noteq> 0" and "telnetd_dflt_spawn name prio stack e = (t, evs)"
    and "body s = Inr (bevs, s')" "count_list bevs Ev_free_pwa = 0"
  shows "(t \<noteq> 0 \<longleftrightarrow> pwa_mem e \<and> create_sc e = 0 \<and> start_sc e = 0) \<and>
    (t \<noteq> 0 \<longrightarrow> (\<exists>wevs. wrap_delete body s = Inr (wevs, s') \<and> hd wevs = Ev_free_pwa \<and>
        count_list (evs @ wevs) Ev_malloc_pwa = Suc (count_list bevs Ev_malloc_pwa) \<and>
        count_list (evs @ wevs) Ev_free_pwa = 1)) \<and>
    (t = 0 \<longrightarrow> count_list evs Ev_free_pwa = count_list evs Ev_malloc_pwa)"
  using assms by (auto simp: telnetd_dflt_spawn_def Let_def wrap_delete_def count_list_append split: if_splits)

theorem telnetd_spawn_ownership_witness:
  "\<exists>evs wevs. telnetd_dflt_spawn ''pty0'' 100 32000 (conn_spawn sample_conn) = (0xa010005, evs) \<and>
     wrap_delete (\<lambda>s :: nat. Inr ([], s)) 3 = Inr (wevs, 3) \<and> count_list (evs @ wevs) Ev_free_pwa = 1"
proof -
  have "\<exists>evs. telnetd_dflt_spawn ''pty0'' 100 32000 (conn_spawn sample_conn) = (0xa010005, evs)"
    by (simp add: telnetd_dflt_spawn_def sample_conn_def Let_def)
  then obtain evs where e: "telnetd_dflt_spawn ''pty0'' 100 32000 (conn_spawn sample_conn) = (0xa010005, evs)" by blast
  from telnetd_spawn_ownership [OF _ e, of "\<lambda>s :: nat. Inr ([], s)" 3 "[]" 3] e show ?thesis
    by (auto simp: sample_conn_def)
qed

text \<open>A successful \<open>startTelnetd\<close> has a shell, a registered pty driver, a task priority of at
  least 2 and a stack size other than zero, and has created exactly one task, named TNTD, of that
  priority.\<close>

theorem startTelnetd_ok:
  assumes "startTelnetd register net_prio min_stack e cmd arg dontSpawn stack priority g d = (0, evs, g', d')"
    and "telnetd_spawn_task g = Dflt_spawn" and "net_prio < 2 ^ 32" "priority < 2 ^ 32"
  shows "telnetd_shell g' \<noteq> None \<and> fst (pty_do_initialize register d) \<and> 2 \<le> telnetd_task_priority g' \<and>
    telnetd_stack_size g' \<noteq> 0 \<and>
    evs = [Ev_malloc_pwa, Ev_task_create (rtems_build_name ''TNTD'') (telnetd_task_priority g')
             (if dontSpawn \<noteq> 0 then telnetd_stack_size g' else min_stack), Ev_task_start (new_id e)]"
proof -
  have "2 \<le> (word_of_int p :: u32)" if "2 \<le> p" "p < 2 ^ 32" for p
    using that by (simp add: word_le_def uint_word_of_int)
  then show ?thesis
    using assms
    by (auto simp: startTelnetd_def initialize_telnetd_def spawn_task_def telnetd_dflt_spawn_def Let_def strncpy4_def
        word_le_def split: if_splits prod.splits)
qed

theorem startTelnetd_ok_witness:
  "\<exists>evs g' d'. startTelnetd (\<lambda>d. (False, d)) 50 8192 (conn_spawn sample_conn) None 0 0 32000 1 (sample_config 0)
     sample_registered = (0, evs, g', d') \<and> 2 \<le> telnetd_task_priority g'"
proof -
  have "telnet_pty_inited sample_registered" using sample_registered_ready by (simp add: pty_ready_def)
  then have "\<exists>evs g' d'. startTelnetd (\<lambda>d. (False, d)) 50 8192 (conn_spawn sample_conn) None 0 0 32000 1 (sample_config 0)
     sample_registered = (0, evs, g', d')"
    by (simp add: startTelnetd_def initialize_telnetd_def spawn_task_def telnetd_dflt_spawn_def Let_def
        pty_do_initialize_def sample_config_def sample_conn_def)
  then obtain evs g' d' where s: "startTelnetd (\<lambda>d. (False, d)) 50 8192 (conn_spawn sample_conn) None 0 0 32000 1
     (sample_config 0) sample_registered = (0, evs, g', d')" by blast
  with startTelnetd_ok [OF s] show ?thesis by (auto simp: sample_config_def)
qed

lemma startTelnetd_state:
  "startTelnetd register net_prio min_stack e cmd arg dontSpawn stack priority g d = (0, evs, g1, d1) \<Longrightarrow>
     telnetd_task_id g1 = telnetd_task_id g \<and> telnetd_shell g1 \<noteq> None \<and> telnetd_spawn_task g1 = telnetd_spawn_task g"
  by (auto simp: startTelnetd_def initialize_telnetd_def Let_def split: if_splits prod.splits)

lemma startTelnetd_succeeds:
  assumes "telnetd_task_id g = 0" "telnetd_shell g \<noteq> None" "fst (pty_do_initialize register d)"
    "telnetd_spawn_task g = Dflt_spawn" "pwa_mem e" "create_sc e = 0" "start_sc e = 0" "new_id e \<noteq> 0"
  shows "\<exists>evs g' d'. startTelnetd register net_prio min_stack e cmd arg dontSpawn stack priority g d = (0, evs, g', d') \<and>
    Ev_task_start (new_id e) \<in> set evs"
proof -
  obtain d' where "pty_do_initialize register d = (True, d')" using assms(3) by (metis prod.collapse)
  with assms show ?thesis
    by (simp add: startTelnetd_def initialize_telnetd_def spawn_task_def telnetd_dflt_spawn_def Let_def)
qed

text \<open>Starting the daemon does not prevent a second start: no path sets \<open>telnetd_task_id\<close>
  to a value other than zero, so the check for a daemon that is already running never applies and
  a second \<open>startTelnetd\<close> creates a second daemon task.\<close>

theorem startTelnetd_second_start:
  assumes "telnetd_task_id g = 0"
    and "startTelnetd register net_prio min_stack e cmd arg dontSpawn stack priority g d = (0, evs, g1, d1)"
    and "fst (pty_do_initialize register' d1)" and "telnetd_spawn_task g = Dflt_spawn"
    and "pwa_mem e'" "create_sc e' = 0" "start_sc e' = 0" "new_id e' \<noteq> 0"
  shows "telnetd_task_id g1 = 0 \<and>
    (\<exists>evs' g2 d2. startTelnetd register' net_prio min_stack e' None arg dontSpawn stack priority g1 d1 = (0, evs', g2, d2) \<and>
       Ev_task_start (new_id e') \<in> set evs')"
proof -
  have "telnetd_task_id g1 = 0" "telnetd_shell g1 \<noteq> None" "telnetd_spawn_task g1 = Dflt_spawn"
    using startTelnetd_state [OF assms(2)] assms(1,4) by simp_all
  then show ?thesis using startTelnetd_succeeds assms(3,5-8) by metis
qed

theorem startTelnetd_second_start_witness:
  "\<exists>evs' g2 d2. startTelnetd (\<lambda>d. (False, d)) 50 8192 (conn_spawn sample_conn) None 0 0 32000 0 (sample_config 0)
     sample_registered = (0, evs', g2, d2) \<and> Ev_task_start 0xa010005 \<in> set evs' \<and> telnetd_task_id g2 = 0 \<and>
   (\<exists>evs' g3 d3. startTelnetd (\<lambda>d. (False, d)) 50 8192 (conn_spawn sample_conn) None 0 0 32000 0 g2 d2 =
      (0, evs', g3, d3) \<and> Ev_task_start 0xa010005 \<in> set evs')"
proof -
  let ?e = "conn_spawn sample_conn" and ?r = "\<lambda>d. (False, d) :: bool \<times> driver"
  have e: "pwa_mem ?e" "create_sc ?e = 0" "start_sc ?e = 0" "new_id ?e = 0xa010005" by (simp_all add: sample_conn_def)
  have i: "telnet_pty_inited sample_registered" using sample_registered_ready by (simp add: pty_ready_def)
  have g: "telnetd_task_id (sample_config 0) = 0" "telnetd_shell (sample_config 0) \<noteq> None"
    "telnetd_spawn_task (sample_config 0) = Dflt_spawn" by (simp_all add: sample_config_def)
  have p: "pty_do_initialize ?r sample_registered = (True, sample_registered)" using i by (simp add: pty_do_initialize_def)
  obtain evs g2 d2 where s: "startTelnetd ?r 50 8192 ?e None 0 0 32000 0 (sample_config 0) sample_registered = (0, evs, g2, d2)"
    and ev: "Ev_task_start (new_id ?e) \<in> set evs"
    using startTelnetd_succeeds [of "sample_config 0" ?r sample_registered ?e 50 8192 None 0 0 32000 0] g e p
    by (metis fst_conv zero_neq_numeral)
  have "d2 = sample_registered"
    using s p by (simp add: startTelnetd_def Let_def split: if_splits prod.splits)
  with startTelnetd_second_start [OF g(1) s _ g(3), of ?r ?e] e p s ev show ?thesis by auto
qed

end
