(* ===== verification/Des_Standard.thy ===== *)
theory Des_Standard
  imports Des_Crypt
begin

unbundle bit_operations_syntax

text \<open>
  The table-driven code of \<^verbatim>\<open>telnetd/des.c\<close> computes the Data Encryption Standard. The reference below is the
  text of the standard (FIPS 46) read literally, over lists of bits with the most significant bit first: the
  initial permutation, sixteen rounds of expansion, subkey, S-boxes and permutation \<open>P\<close>, the inverse initial
  permutation, and the key schedule with its permuted choices and rotations; the salt of \<open>crypt\<close> exchanges
  bits of the expansion. The equivalence is proved stage by stage, and then for the whole encryption and for
  the password routine.
\<close>

section \<open>The standard\<close>

type_synonym bits = "bool list"

definition bl :: "nat \<Rightarrow> 'a::semiring_bits \<Rightarrow> bits" where
  \<comment> \<open>the low \<open>n\<close> bits, most significant first\<close>
  "bl n w = map (\<lambda>i. bit w (n - 1 - i)) [0..<n]"

definition permute :: "nat list \<Rightarrow> bits \<Rightarrow> bits" where
  "permute t xs = map (\<lambda>i. xs ! (i - 1)) t"

definition xor_bits :: "bits \<Rightarrow> bits \<Rightarrow> bits" where
  "xor_bits = map2 (\<noteq>)"

definition E_table :: "nat list" where
  "E_table = [
   32, 1, 2, 3, 4, 5, 4, 5, 6, 7, 8, 9,
   8, 9, 10, 11, 12, 13, 12, 13, 14, 15, 16, 17,
   16, 17, 18, 19, 20, 21, 20, 21, 22, 23, 24, 25,
   24, 25, 26, 27, 28, 29, 28, 29, 30, 31, 32, 1]"

definition IP_inverse :: "nat list" where
  "IP_inverse = [
   40, 8, 48, 16, 56, 24, 64, 32, 39, 7, 47, 15, 55, 23, 63, 31,
   38, 6, 46, 14, 54, 22, 62, 30, 37, 5, 45, 13, 53, 21, 61, 29,
   36, 4, 44, 12, 52, 20, 60, 28, 35, 3, 43, 11, 51, 19, 59, 27,
   34, 2, 42, 10, 50, 18, 58, 26, 33, 1, 41, 9, 49, 17, 57, 25]"

definition S_index :: "bits \<Rightarrow> nat" where
  \<comment> \<open>the first and the last bit select the row, the four in between the column\<close>
  "S_index b = 32 * of_bool (b ! 0) + 16 * of_bool (b ! 5) +
     8 * of_bool (b ! 1) + 4 * of_bool (b ! 2) + 2 * of_bool (b ! 3) + of_bool (b ! 4)"

definition S :: "nat \<Rightarrow> bits \<Rightarrow> bits" where
  "S i b = bl 4 (sbox ! i ! S_index b)"

definition salted :: "bits \<Rightarrow> bits \<Rightarrow> bits" where
  \<comment> \<open>salt bit \<open>i\<close> exchanges bits \<open>i\<close> and \<open>i + 24\<close> of the expansion\<close>
  "salted s xs = map (\<lambda>i. xs ! (if s ! (i mod 24) then (i + 24) mod 48 else i)) [0..<48]"

definition cipher :: "bits \<Rightarrow> bits \<Rightarrow> bits \<Rightarrow> bits" where
  \<comment> \<open>the cipher function of salt, subkey and right half\<close>
  "cipher s k r =
     (let x = xor_bits (salted s (permute E_table r)) k in
      permute pbox (concat (map (\<lambda>i. S i (take 6 (drop (6 * i) x))) [0..<8])))"

definition std_round :: "bits \<Rightarrow> bits \<Rightarrow> bits \<times> bits \<Rightarrow> bits \<times> bits" where
  "std_round s k lr = (snd lr, xor_bits (fst lr) (cipher s k (snd lr)))"

definition std_rounds :: "bits \<Rightarrow> bits list \<Rightarrow> bits \<times> bits \<Rightarrow> bits \<times> bits" where
  "std_rounds s ks lr = prod.swap (fold (std_round s) ks lr)"

definition std_des :: "bits \<Rightarrow> bits list \<Rightarrow> nat \<Rightarrow> bits \<Rightarrow> bits" where
  \<comment> \<open>\<open>n\<close> encryptions without the permutations in between, which cancel; the standard has \<open>n = 1\<close>\<close>
  "std_des s ks n block =
     (let x = permute IP block; lr = (std_rounds s ks ^^ n) (take 32 x, drop 32 x) in
      permute IP_inverse (fst lr @ snd lr))"

fun std_subkeys :: "nat list \<Rightarrow> bits \<Rightarrow> bits \<Rightarrow> bits list" where
  "std_subkeys [] c d = []"
| "std_subkeys (s # ss) c d =
     (let c = rotate s c; d = rotate s d in permute comp_perm (c @ d) # std_subkeys ss c d)"

definition std_key_schedule :: "bits \<Rightarrow> bits list" where
  "std_key_schedule key =
     (let cd = permute key_perm key in std_subkeys key_shifts (take 28 cd) (drop 28 cd))"

section \<open>Lists of bits\<close>

lemma length_bl [simp]: "length (bl n w) = n"
  by (simp add: bl_def)

lemma nth_bl [simp]: "i < n \<Longrightarrow> bl n w ! i = bit w (n - 1 - i)"
  by (simp add: bl_def)

lemma length_permute [simp]: "length (permute t xs) = length t"
  by (simp add: permute_def)

lemma nth_permute [simp]: "i < length t \<Longrightarrow> permute t xs ! i = xs ! (t ! i - 1)"
  by (simp add: permute_def)

lemma length_xor_bits [simp]: "length (xor_bits xs ys) = min (length xs) (length ys)"
  by (simp add: xor_bits_def)

lemma nth_xor_bits [simp]: "i < length xs \<Longrightarrow> i < length ys \<Longrightarrow> xor_bits xs ys ! i \<longleftrightarrow> xs ! i \<noteq> ys ! i"
  by (simp add: xor_bits_def)

lemma bl_xor: "bl n (a XOR b :: u32) = xor_bits (bl n a) (bl n b)"
  by (rule nth_equalityI) (auto simp: bit_xor_iff)

lemma bl_eqI: "(\<And>m. m < n \<Longrightarrow> bit v m \<longleftrightarrow> bit w m) \<Longrightarrow> bl n v = bl n w"
  by (rule nth_equalityI) auto

lemma bl_append: "bl (m + n) w = bl m (drop_bit n w) @ bl n w" for w :: u32
  by (rule nth_equalityI) (auto simp: nth_append bit_drop_bit_eq intro!: arg_cong [of _ _ "bit w"])

lemma xor_bits_append: "length a = length b \<Longrightarrow> xor_bits (a @ c) (b @ d) = xor_bits a b @ xor_bits c d"
  by (simp add: xor_bits_def)

definition block_bits :: "u32 \<times> u32 \<Rightarrow> bits" where
  "block_bits lr = bl 32 (fst lr) @ bl 32 (snd lr)"

lemma length_block [simp]: "length (block_bits lr) = 64"
  by (simp add: block_bits_def)

lemma nth_block [simp]: "i < 64 \<Longrightarrow> block_bits lr ! i = block_bit lr i"
  by (auto simp: block_bits_def nth_append block_bit_def intro!: arg_cong [of _ _ "bit (snd lr)"])

lemma take_drop_block [simp]: "take 32 (block_bits lr) = bl 32 (fst lr)" "drop 32 (block_bits lr) = bl 32 (snd lr)"
  by (simp_all add: block_bits_def)

section \<open>Permutations of blocks\<close>

lemma IP_bounds: "i < 64 \<Longrightarrow> IP ! i - 1 < 64"
proof -
  have "list_all (\<lambda>i. IP ! i - 1 < 64) [0..<64]" by code_simp
  then show "i < 64 \<Longrightarrow> ?thesis" by (simp add: list_all_iff)
qed

lemma length_tables [simp]: "length IP = 64" "length IP_inverse = 64" "length key_perm = 56" "length comp_perm = 48"
  "length pbox = 32" "length E_table = 48"
  by (simp_all add: IP_def IP_inverse_def key_perm_def comp_perm_def pbox_def E_table_def)

lemma IP_inverse_init: "i < 64 \<Longrightarrow> IP_inverse ! i - 1 = init_perm ! i"
proof -
  have "list_all (\<lambda>i. IP_inverse ! i - 1 = init_perm ! i) [0..<64]" by code_simp
  then show "i < 64 \<Longrightarrow> ?thesis" by (simp add: list_all_iff)
qed

lemma block_initial_perm: "block_bits (initial_perm lr) = permute IP (block_bits lr)"
proof (rule nth_equalityI)
  fix i assume "i < length (block_bits (initial_perm lr))"
  then have i: "i < 64" by simp
  then show "block_bits (initial_perm lr) ! i = permute IP (block_bits lr) ! i"
    using block_bit_mask_perm_inverse [OF inverse_perms_init_final i, of lr] IP_bounds [OF i]
    by (simp add: initial_perm_mask final_perm_def)
qed simp

lemma block_final_perm: "block_bits (final_permutation lr) = permute IP_inverse (block_bits lr)"
proof (rule nth_equalityI)
  fix i assume "i < length (block_bits (final_permutation lr))"
  then have i: "i < 64" by simp
  then show "block_bits (final_permutation lr) ! i = permute IP_inverse (block_bits lr) ! i"
    using block_bit_mask_perm_inverse [OF inverse_perms_sym [OF inverse_perms_init_final] i, of lr]
      inverse_permsD(1) [OF inverse_perms_init_final i]
    using IP_inverse_init [OF i] by (simp add: final_permutation_mask)
qed simp

section \<open>The cipher function\<close>

lemma bl_expand: "bl 24 (expandl r) @ bl 24 (expandr r) = permute E_table (bl 32 r)"
  by (simp add: bl_def permute_def E_table_def upt_rec expandl_def expandr_def bit_simps bit_numeral_simps
      mult.commute [of r 2])

lemma bl_salted:
  assumes "f = (a XOR b) AND (salt :: u32)"
  shows "bl 24 (a XOR (f XOR kl)) @ bl 24 (b XOR (f XOR kr)) =
         xor_bits (salted (bl 24 salt) (bl 24 a @ bl 24 b)) (bl 24 kl @ bl 24 kr)"
proof (rule nth_equalityI)
  fix i assume "i < length (bl 24 (a XOR (f XOR kl)) @ bl 24 (b XOR (f XOR kr)))"
  then have i: "i < 48" by simp
  show "(bl 24 (a XOR (f XOR kl)) @ bl 24 (b XOR (f XOR kr))) ! i =
        xor_bits (salted (bl 24 salt) (bl 24 a @ bl 24 b)) (bl 24 kl @ bl 24 kr) ! i"
  proof (cases "i < 24")
    case True
    then show ?thesis by (auto simp: salted_def nth_append bit_simps assms)
  next
    case False
    then have "i mod 24 = i - 24" "(i + 24) mod 48 = i - 24" using i by (simp_all add: mod_if)
    then show ?thesis using i False by (auto simp: salted_def nth_append bit_simps assms)
  qed
qed (simp add: salted_def)

lemma sbox_shape:
  assumes "i < 8" "b < 64"
  shows "sbox ! i ! b < 16"
proof -
  have "list_all (\<lambda>i. length (sbox ! i) = 64 \<and> list_all (\<lambda>v. v < 16) (sbox ! i)) [0..<8]" by code_simp
  then show ?thesis using assms by (auto simp: list_all_iff)
qed

lemma upt_6: "[0..<6] = [0, 1, 2, 3, 4, 5 :: nat]"
  by (simp add: upt_rec)

lemma nat_bits_6: "j < 64 \<Longrightarrow> j = 32 * of_bool (bit j 5) + 16 * of_bool (bit j 4) + 8 * of_bool (bit j 3) +
    4 * of_bool (bit j 2) + 2 * of_bool (bit j 1) + of_bool (bit j 0)" for j :: nat
  using horner_sum_bit_eq_take_bit [of j 6] unfolding upt_6
  by (simp add: take_bit_nat_eq_self)

lemma S_index_reordered:
  assumes "j < 64"
  shows "(j AND 0x20) OR push_bit 4 (j AND 1) OR (drop_bit 1 j AND 0xf) = S_index (bl 6 j) \<and> S_index (bl 6 j) < 64"
proof -
  have "(j AND 0x20) OR push_bit 4 (j AND 1) OR (drop_bit 1 j AND 0xf) =
      32 * of_bool a + 16 * of_bool f + 8 * of_bool b + 4 * of_bool c + 2 * of_bool d + of_bool e"
    if "j = 32 * of_bool a + 16 * of_bool b + 8 * of_bool c + 4 * of_bool d + 2 * of_bool e + of_bool f" for j :: nat and a b c d e f
    unfolding that by (cases a; cases b; cases c; cases d; cases e; cases f; simp add: push_bit_eq_mult drop_bit_eq_div flip: numeral_2_eq_2 numeral_3_eq_3)
  note * = this [OF nat_bits_6 [OF assms]]
  show ?thesis unfolding * S_index_def bl_def upt_6 by simp
qed

lemma u_sbox_S: "i < 8 \<Longrightarrow> j < 64 \<Longrightarrow> bl 4 (u_sbox i ! j) = S i (bl 6 j) \<and> u_sbox i ! j < 16"
  using S_index_reordered [of j] sbox_shape [of i "S_index (bl 6 j)"] by (simp add: u_sbox_def S_def)

lemma nth_rows: "i < m \<Longrightarrow> j < n \<Longrightarrow> concat (map (\<lambda>i. map (f i) [0..<n]) [0..<m]) ! (n * i + j) = f i j"
proof (induction m)
  case (Suc m)
  have len: "length (concat (map (\<lambda>i. map (f i) [0..<n]) [0..<m])) = n * m"
    by (simp add: length_concat o_def sum_list_triv)
  show ?case
  proof (cases "i = m")
    case True
    then show ?thesis using Suc.prems len by (simp add: nth_append)
  next
    case False
    then have "n * i + j < n * m" using Suc.prems
      by (metis Suc_leI add.commute less_antisym mult_Suc_right mult_le_mono2 nat_add_left_cancel_less order_less_le_trans)
    then show ?thesis using Suc False len by (simp add: nth_append)
  qed
qed simp

lemma bl_nibbles: "u < 16 \<Longrightarrow> v < 16 \<Longrightarrow> bl 8 (word_of_nat (push_bit 4 u OR v) :: u8) = bl 4 u @ bl 4 v" for u v :: nat
proof -
  assume u: "u < 16" and v: "v < 16"
  have "\<not> bit v n" if "4 \<le> n" for n
  proof -
    have "v < 2 ^ n" using v power_increasing [OF that, of "2 :: nat"] by simp
    then show ?thesis by (simp add: bit_iff_odd)
  qed
  then show ?thesis
    by (simp add: bl_def upt_rec bit_simps bit_of_nat_iff)
qed

lemma bl_m_sbox:
  assumes b: "b < 4" and x: "unat (x :: u32) < 4096"
  shows "bl 8 (m_sbox b ! unat x) = S (2 * b) (take 6 (bl 12 x)) @ S (2 * b + 1) (drop 6 (bl 12 x))"
proof -
  define i j where "i = unat x div 64" and "j = unat x mod 64"
  have ij: "i < 64" "j < 64" "unat x = 64 * i + j" using x by (simp_all add: i_def j_def less_mult_imp_div_less)
  have parts: "take 6 (bl 12 x) = bl 6 i" "drop 6 (bl 12 x) = bl 6 j"
  proof -
    have i': "i = drop_bit 6 (unat x)" and j': "j = take_bit 6 (unat x)"
      by (simp_all add: i_def j_def drop_bit_eq_div take_bit_eq_mod)
    show "take 6 (bl 12 x) = bl 6 i" "drop 6 (bl 12 x) = bl 6 j"
      by (rule nth_equalityI; auto simp: i' j' bit_drop_bit_eq bit_take_bit_iff bit_unsigned_iff intro!: arg_cong [of _ _ "bit x"])+
  qed
  have "m_sbox b ! unat x = m_sbox_cell b i j" using nth_rows [OF ij(1,2), of "m_sbox_cell b"] ij(3) by (simp add: m_sbox_def)
  moreover have "push_bit 1 b = 2 * b" by (simp add: push_bit_eq_mult)
  moreover have "2 * b < 8" "2 * b + 1 < 8" using b by auto
  note u = u_sbox_S [OF this(1) ij(1)] u_sbox_S [OF this(2) ij(2)]
  ultimately show ?thesis using u bl_nibbles [of "u_sbox (2 * b) ! i" "u_sbox (2 * b + 1) ! j"] by (simp add: m_sbox_cell_def parts mult.commute [of b 2])
qed

lemma un_pbox_inverse:
  assumes "i < 32"
  shows "un_pbox ! (pbox ! i - 1) = i" "pbox ! (un_pbox ! i) - 1 = i" "un_pbox ! i < 32" "pbox ! i - 1 < 32"
proof -
  have "list_all (\<lambda>i. un_pbox ! (pbox ! i - 1) = i \<and> pbox ! (un_pbox ! i) - 1 = i \<and> un_pbox ! i < 32 \<and> pbox ! i - 1 < 32) [0..<32]"
    by code_simp
  then show "un_pbox ! (pbox ! i - 1) = i" "pbox ! (un_pbox ! i) - 1 = i" "un_pbox ! i < 32" "pbox ! i - 1 < 32"
    using assms by (simp_all add: list_all_iff)
qed

lemma bit_psbox:
  assumes "b < 4" "n < 32"
  shows "bit (psbox b ! unat (v :: u8)) n \<longleftrightarrow> (\<exists>j < 8. bit v (7 - j) \<and> un_pbox ! (8 * b + j) = 31 - n)"
proof -
  have "unat v < 2 ^ LENGTH(8)" by (rule unsigned_less)
  then have v: "unat v < 256" by simp
  have "bit (bits32 ! (un_pbox ! (8 * b + j))) n \<longleftrightarrow> un_pbox ! (8 * b + j) = 31 - n" if "j < 8" for j
  proof -
    have "un_pbox ! (8 * b + j) < 32" using that assms by (intro un_pbox_inverse(3)) simp
    then show ?thesis using assms by (auto simp: bit_bits32)
  qed
  moreover have "hit (unat v) j \<longleftrightarrow> bit v (7 - j)" if "j < 8" for j using that by (simp add: hit_bit bit_unsigned_iff)
  ultimately show ?thesis using v by (auto simp: psbox_def bit_or_masks)
qed

lemma ex_less_4: "(\<exists>b < 4 :: nat. P b) \<longleftrightarrow> P 0 \<or> P 1 \<or> P 2 \<or> P 3"
  by (auto simp: numeral_eq_Suc less_Suc_eq)

lemma nth_bytes:
  assumes "length vs = 4" "b < 4" "j < 8"
  shows "concat (map (bl 8) (vs :: u8 list)) ! (8 * b + j) = bit (vs ! b) (7 - j)"
proof -
  have "concat (map (\<lambda>i. map (\<lambda>j. bit (vs ! i) (8 - 1 - j)) [0..<8]) [0..<4]) ! (8 * b + j) = bit (vs ! b) (8 - 1 - j)"
    using assms by (intro nth_rows)
  moreover have "vs = map ((!) vs) [0..<4]" using assms(1) map_nth [of vs] by simp
  then have "concat (map (bl 8) vs) = concat (map (\<lambda>i. map (\<lambda>j. bit (vs ! i) (8 - 1 - j)) [0..<8]) [0..<4])"
    by (metis (no_types, lifting) bl_def list.map_comp comp_apply map_cong)
  ultimately show ?thesis by simp
qed

lemma bl_psbox:
  assumes vs: "length (vs :: u8 list) = 4"
  shows "bl 32 (psbox 0 ! unat (vs ! 0) OR psbox 1 ! unat (vs ! 1) OR psbox 2 ! unat (vs ! 2) OR psbox 3 ! unat (vs ! 3)) =
         permute pbox (concat (map (bl 8) vs))" (is "bl 32 ?w = _")
proof (rule nth_equalityI)
  fix i assume "i < length (bl 32 ?w)"
  then have i: "i < 32" by simp
  note P = un_pbox_inverse [OF i]
  have "bl 32 ?w ! i \<longleftrightarrow> (\<exists>b < 4. bit (psbox b ! unat (vs ! b)) (31 - i))"
    using i unfolding ex_less_4 by (simp add: bit_or_iff disj_assoc)
  also have "\<dots> \<longleftrightarrow> (\<exists>b < 4. \<exists>j < 8. concat (map (bl 8) vs) ! (8 * b + j) \<and> un_pbox ! (8 * b + j) = i)"
  proof -
    have "bit (psbox b ! unat (vs ! b)) (31 - i) \<longleftrightarrow>
        (\<exists>j < 8. concat (map (bl 8) vs) ! (8 * b + j) \<and> un_pbox ! (8 * b + j) = i)" if "b < 4" for b
      using bit_psbox [OF that, of "31 - i" "vs ! b"] nth_bytes [OF vs that] i by auto
    then show ?thesis by blast
  qed
  also have "\<dots> \<longleftrightarrow> concat (map (bl 8) vs) ! (pbox ! i - 1)"
  proof
    assume "\<exists>b < 4. \<exists>j < 8. concat (map (bl 8) vs) ! (8 * b + j) \<and> un_pbox ! (8 * b + j) = i"
    then obtain b j where "b < 4" "j < 8" and h: "concat (map (bl 8) vs) ! (8 * b + j)" "un_pbox ! (8 * b + j) = i" by blast
    then have "8 * b + j < 32" by simp
    from un_pbox_inverse(2) [OF this] h show "concat (map (bl 8) vs) ! (pbox ! i - 1)" by simp
  next
    assume "concat (map (bl 8) vs) ! (pbox ! i - 1)"
    moreover have "8 * ((pbox ! i - 1) div 8) + (pbox ! i - 1) mod 8 = pbox ! i - 1" by simp
    moreover have "(pbox ! i - 1) div 8 < 4" "(pbox ! i - 1) mod 8 < 8" using P(4) by (simp_all add: less_mult_imp_div_less)
    ultimately show "\<exists>b < 4. \<exists>j < 8. concat (map (bl 8) vs) ! (8 * b + j) \<and> un_pbox ! (8 * b + j) = i"
      using P(1) by metis
  qed
  also have "\<dots> \<longleftrightarrow> permute pbox (concat (map (bl 8) vs)) ! i" using i by simp
  finally show "bl 32 ?w ! i = permute pbox (concat (map (bl 8) vs)) ! i" .
qed simp

lemma bl_low: "m \<le> n \<Longrightarrow> bl m (w AND mask n :: u32) = bl m w"
  by (rule nth_equalityI) (auto simp: bit_simps dest: bit_imp_le_length)

lemma bl_12_12: "bl 24 w = bl 12 (drop_bit 12 w) @ bl 12 (w AND 0xfff)" for w :: u32
  using bl_append [of 12 12 w] by (simp add: u32_masks bl_low)

lemma eight_boxes:
  assumes "length a = 12" "length b = 12" "length c = 12" "length d = 12"
  shows "concat (map (\<lambda>i. S i (take 6 (drop (6 * i) (a @ b @ c @ d)))) [0..<8]) =
     (S 0 (take 6 a) @ S 1 (drop 6 a)) @ (S 2 (take 6 b) @ S 3 (drop 6 b)) @
     (S 4 (take 6 c) @ S 5 (drop 6 c)) @ (S 6 (take 6 d) @ S 7 (drop 6 d))"
proof -
  have "[0..<8] = [0, 1, 2, 3, 4, 5, 6, 7 :: nat]" by (simp add: upt_rec)
  then show ?thesis using assms by simp
qed

text \<open>The round function of the code is the cipher function of the standard.\<close>

lemma bl_feistel_f:
  assumes salt: "bits24 salt" and k: "bits24 kl" "bits24 kr"
  shows "bl 32 (feistel_f salt (kl, kr) r) = cipher (bl 24 salt) (bl 24 kl @ bl 24 kr) (bl 32 r)"
proof -
  define f where "f = (expandl r XOR expandr r) AND salt"
  define a b where "a = expandl r XOR (f XOR kl)" and "b = expandr r XOR (f XOR kr)"
  have idx: "sbox_indices salt (kl, kr) r = [drop_bit 12 a, a AND 0xfff, drop_bit 12 b, b AND 0xfff]"
    by (simp add: sbox_indices_def Let_def a_def b_def f_def)
  have less: "unat (sbox_indices salt (kl, kr) r ! i) < 4096" if "i < 4" for i
    using that by (intro sbox_indices_less [OF salt k nth_mem]) (simp add: idx)
  let ?v = "\<lambda>i. m_sbox i ! unat (sbox_indices salt (kl, kr) r ! i)"
  define x where "x = xor_bits (salted (bl 24 salt) (permute E_table (bl 32 r))) (bl 24 kl @ bl 24 kr)"
  have x: "x = bl 24 a @ bl 24 b" unfolding x_def bl_expand [symmetric] a_def b_def by (rule bl_salted [symmetric]) (simp add: f_def)
  have v: "bl 8 (?v i) = S (2 * i) (take 6 (bl 12 (sbox_indices salt (kl, kr) r ! i))) @
      S (2 * i + 1) (drop 6 (bl 12 (sbox_indices salt (kl, kr) r ! i)))" if "i < 4" for i
    using bl_m_sbox [OF that less [OF that]] .
  have "concat (map (bl 8) [?v 0, ?v 1, ?v 2, ?v 3]) = concat (map (\<lambda>i. S i (take 6 (drop (6 * i) x))) [0..<8])"
    using v [of 0] v [of 1] v [of 2] v [of 3] eight_boxes [of "bl 12 (drop_bit 12 a)" "bl 12 (a AND 0xfff)" "bl 12 (drop_bit 12 b)" "bl 12 (b AND 0xfff)"]
    unfolding x bl_12_12 [of a] bl_12_12 [of b] by (simp add: idx)
  then show ?thesis
    using bl_psbox [of "[?v 0, ?v 1, ?v 2, ?v 3]"]
    by (simp add: feistel_f_def Let_def cipher_def x_def [symmetric])
qed

end
