(* ===== verification/Des_Crypt3.thy ===== *)
theory Des_Crypt3
  imports Des_Standard
begin

unbundle bit_operations_syntax

text \<open>
  The key schedule and the whole encryption of \<^verbatim>\<open>telnetd/des.c\<close> against the standard, and the password routine
  against the traditional \<open>crypt\<close>: the eight first characters, seven bits each, are the key, and the block of
  zeros is encrypted twenty-five times with the expansion modified by the salt. The default password of
  \<^verbatim>\<open>telnetd/passwd.h\<close> is computed from its clear text.
\<close>

section \<open>Masks indexed by seven bits\<close>

definition seven :: "nat \<Rightarrow> (nat \<Rightarrow> bool) \<Rightarrow> (nat \<Rightarrow> nat) \<Rightarrow> nat \<Rightarrow> u32 list" where
  \<comment> \<open>a table of masks: bit \<open>j\<close> of index table \<open>k\<close> stands for position \<open>w * k + j\<close> of the input\<close>
  "seven w P g k = map (\<lambda>i. or_masks (\<lambda>j. hit i (j + 1) \<and> P (w * k + j)) (\<lambda>j. bits32 ! g (w * k + j)) [0..<7] 0) [0..<128]"

lemma key_masks_seven:
  "key_perm_maskl = seven 8 (\<lambda>p. inv_key_perm ! p \<noteq> 255 \<and> inv_key_perm ! p < 28) (\<lambda>p. 4 + inv_key_perm ! p)"
  "key_perm_maskr = seven 8 (\<lambda>p. inv_key_perm ! p \<noteq> 255 \<and> \<not> inv_key_perm ! p < 28) (\<lambda>p. 4 + (inv_key_perm ! p - 28))"
  "comp_maskl = seven 7 (\<lambda>p. inv_comp_perm ! p \<noteq> 255 \<and> inv_comp_perm ! p < 24) (\<lambda>p. 8 + inv_comp_perm ! p)"
  "comp_maskr = seven 7 (\<lambda>p. inv_comp_perm ! p \<noteq> 255 \<and> \<not> inv_comp_perm ! p < 24) (\<lambda>p. 8 + (inv_comp_perm ! p - 24))"
  by (simp_all add: fun_eq_iff seven_def key_perm_maskl_def key_perm_maskr_def comp_maskl_def comp_maskr_def)

lemma bit_look_seven:
  assumes x: "\<And>k. k < 8 \<Longrightarrow> unat (x ! k) < 128"
    and g: "\<And>p. p < w * 7 + 7 \<Longrightarrow> P p \<Longrightarrow> g p < 32" and w: "7 \<le> w" and n: "n < 32"
  shows "bit (look8 (seven w P g) x) n \<longleftrightarrow>
         (\<exists>k < 8. \<exists>j < 7. bit (x ! k) (6 - j) \<and> P (w * k + j) \<and> g (w * k + j) = 31 - n)"
proof -
  have "bit (seven w P g k ! unat (x ! k)) n \<longleftrightarrow> (\<exists>j < 7. bit (x ! k) (6 - j) \<and> P (w * k + j) \<and> g (w * k + j) = 31 - n)"
    if k: "k < 8" for k
  proof -
    have lt: "w * k + j < w * 7 + 7" if "j < 7" for j
    proof -
      have "w * k \<le> w * 7" using k by simp
      then show ?thesis using that by linarith
    qed
    have "(hit (unat (x ! k)) (j + 1) \<and> P (w * k + j)) \<and> bit (bits32 ! g (w * k + j)) n \<longleftrightarrow>
        bit (x ! k) (6 - j) \<and> P (w * k + j) \<and> g (w * k + j) = 31 - n" if "j < 7" for j
      using that n g [OF lt [OF that]] by (auto simp: hit_bit bit_bits32 bit_unsigned_iff)
    then show ?thesis using x [OF k] by (auto simp: seven_def bit_or_masks)
  qed
  then show ?thesis by (simp add: bit_look8) blast
qed

text \<open>The inputs at the seven positions per table.\<close>

lemma key_indices_bit:
  assumes "k < 8" "j < 7"
  shows "bit (key_indices a b ! k) (6 - j) \<longleftrightarrow> block_bit (a, b) (8 * k + j)"
proof -
  have "6 - j < 32" "6 - j < 7" "Suc (6 - j) = 7 - j" using assms by auto
  then have "\<forall>k < 8. bit (key_indices a b ! k) (6 - j) \<longleftrightarrow> block_bit (a, b) (8 * k + j)"
    using assms(2) by (simp add: all_less_8 key_indices_def block_bit_def bit_simps u32_masks)
  then show ?thesis using assms(1) by blast
qed

definition halves :: "u32 \<Rightarrow> u32 \<Rightarrow> bits" where
  "halves a b = bl 28 a @ bl 28 b"

lemma length_halves [simp]: "length (halves a b) = 56"
  by (simp add: halves_def)

lemma comp_indices_bit:
  assumes "k < 8" "j < 7"
  shows "bit (comp_indices a b ! k) (6 - j) \<longleftrightarrow> halves a b ! (7 * k + j)"
proof -
  have "6 - j < 32" "6 - j < 7" using assms by auto
  then have "\<forall>k < 8. bit (comp_indices a b ! k) (6 - j) \<longleftrightarrow> halves a b ! (7 * k + j)"
    using assms(2) by (simp add: all_less_8 comp_indices_def halves_def nth_append bit_simps u32_masks)
  then show ?thesis using assms(1) by blast
qed

section \<open>Permuted choices\<close>

lemma inv_key_perm_value: "inv_key_perm = [
   7, 15, 23, 55, 51, 43, 35, 255, 6, 14, 22, 54, 50, 42, 34, 255,
   5, 13, 21, 53, 49, 41, 33, 255, 4, 12, 20, 52, 48, 40, 32, 255,
   3, 11, 19, 27, 47, 39, 31, 255, 2, 10, 18, 26, 46, 38, 30, 255,
   1, 9, 17, 25, 45, 37, 29, 255, 0, 8, 16, 24, 44, 36, 28, 255]"
  by code_simp

lemma inv_comp_perm_value: "inv_comp_perm = [
   4, 23, 6, 15, 5, 9, 19, 17, 255, 11, 2, 14, 22, 0, 8, 18,
   1, 255, 13, 21, 10, 255, 12, 3, 255, 16, 20, 7, 46, 30, 26, 47,
   34, 40, 255, 45, 27, 255, 38, 31, 24, 43, 255, 36, 33, 42, 28, 35,
   37, 44, 32, 25, 41, 255, 29, 39]"
  by code_simp

lemma inv_key_perm_inverse:
  "t < 56 \<Longrightarrow> key_perm ! t - 1 < 64 \<and> inv_key_perm ! (key_perm ! t - 1) = t \<and> (key_perm ! t - 1) mod 8 < 7"
  "p < 64 \<Longrightarrow> inv_key_perm ! p = 255 \<or> inv_key_perm ! p < 56 \<and> key_perm ! (inv_key_perm ! p) - 1 = p"
proof -
  have "list_all (\<lambda>t. key_perm ! t - 1 < 64 \<and> inv_key_perm ! (key_perm ! t - 1) = t \<and> (key_perm ! t - 1) mod 8 < 7) [0..<56]"
    unfolding inv_key_perm_value by code_simp
  then show "t < 56 \<Longrightarrow> key_perm ! t - 1 < 64 \<and> inv_key_perm ! (key_perm ! t - 1) = t \<and> (key_perm ! t - 1) mod 8 < 7"
    by (simp add: list_all_iff)
  have "list_all (\<lambda>p. inv_key_perm ! p = 255 \<or> inv_key_perm ! p < 56 \<and> key_perm ! (inv_key_perm ! p) - 1 = p) [0..<64]"
    unfolding inv_key_perm_value by code_simp
  then show "p < 64 \<Longrightarrow> inv_key_perm ! p = 255 \<or> inv_key_perm ! p < 56 \<and> key_perm ! (inv_key_perm ! p) - 1 = p"
    by (simp add: list_all_iff)
qed

lemma inv_comp_perm_inverse:
  "t < 48 \<Longrightarrow> comp_perm ! t - 1 < 56 \<and> inv_comp_perm ! (comp_perm ! t - 1) = t"
  "p < 56 \<Longrightarrow> inv_comp_perm ! p = 255 \<or> inv_comp_perm ! p < 48 \<and> comp_perm ! (inv_comp_perm ! p) - 1 = p"
proof -
  have "list_all (\<lambda>t. comp_perm ! t - 1 < 56 \<and> inv_comp_perm ! (comp_perm ! t - 1) = t) [0..<48]"
    unfolding inv_comp_perm_value by code_simp
  then show "t < 48 \<Longrightarrow> comp_perm ! t - 1 < 56 \<and> inv_comp_perm ! (comp_perm ! t - 1) = t" by (simp add: list_all_iff)
  have "list_all (\<lambda>p. inv_comp_perm ! p = 255 \<or> inv_comp_perm ! p < 48 \<and> comp_perm ! (inv_comp_perm ! p) - 1 = p) [0..<56]"
    unfolding inv_comp_perm_value by code_simp
  then show "p < 56 \<Longrightarrow> inv_comp_perm ! p = 255 \<or> inv_comp_perm ! p < 48 \<and> comp_perm ! (inv_comp_perm ! p) - 1 = p"
    by (simp add: list_all_iff)
qed

lemma ex_key_position:
  assumes t: "t < 56"
  shows "(\<exists>k < 8. \<exists>j < 7. B (8 * k + j) \<and> inv_key_perm ! (8 * k + j) = t) \<longleftrightarrow> B (key_perm ! t - 1)"
proof
  assume "\<exists>k < 8. \<exists>j < 7. B (8 * k + j) \<and> inv_key_perm ! (8 * k + j) = t"
  then obtain k j where "k < 8" "j < 7" and h: "B (8 * k + j)" "inv_key_perm ! (8 * k + j) = t" by blast
  then have "8 * k + j < 64" by simp
  from inv_key_perm_inverse(2) [OF this] h t show "B (key_perm ! t - 1)" by auto
next
  assume B: "B (key_perm ! t - 1)"
  define p where "p = key_perm ! t - 1"
  have "p < 64" "p mod 8 < 7" "inv_key_perm ! p = t" using inv_key_perm_inverse(1) [OF t] by (simp_all add: p_def)
  moreover have "p div 8 < 8" using \<open>p < 64\<close> by (simp add: less_mult_imp_div_less)
  moreover have "8 * (p div 8) + p mod 8 = p" by simp
  ultimately show "\<exists>k < 8. \<exists>j < 7. B (8 * k + j) \<and> inv_key_perm ! (8 * k + j) = t" using B p_def by metis
qed

lemma ex_comp_position:
  assumes t: "t < 48"
  shows "(\<exists>k < 8. \<exists>j < 7. B (7 * k + j) \<and> inv_comp_perm ! (7 * k + j) = t) \<longleftrightarrow> B (comp_perm ! t - 1)"
proof
  assume "\<exists>k < 8. \<exists>j < 7. B (7 * k + j) \<and> inv_comp_perm ! (7 * k + j) = t"
  then obtain k j where "k < 8" "j < 7" and h: "B (7 * k + j)" "inv_comp_perm ! (7 * k + j) = t" by blast
  then have "7 * k + j < 56" by simp
  from inv_comp_perm_inverse(2) [OF this] h t show "B (comp_perm ! t - 1)" by auto
next
  assume B: "B (comp_perm ! t - 1)"
  define p where "p = comp_perm ! t - 1"
  have "p < 56" "inv_comp_perm ! p = t" using inv_comp_perm_inverse(1) [OF t] by (simp_all add: p_def)
  moreover have "p div 7 < 8" "p mod 7 < 7" using \<open>p < 56\<close> by (simp_all add: less_mult_imp_div_less)
  moreover have "7 * (p div 7) + p mod 7 = p" by simp
  ultimately show "\<exists>k < 8. \<exists>j < 7. B (7 * k + j) \<and> inv_comp_perm ! (7 * k + j) = t" using B p_def by metis
qed

definition pc1 :: "u32 \<Rightarrow> u32 \<Rightarrow> u32 \<times> u32" where
  "pc1 a b = (look8 key_perm_maskl (key_indices a b), look8 key_perm_maskr (key_indices a b))"

definition pc2 :: "u32 \<Rightarrow> u32 \<Rightarrow> u32 \<times> u32" where
  "pc2 a b = (look8 comp_maskl (comp_indices a b), look8 comp_maskr (comp_indices a b))"

lemma bit_pc1:
  assumes n: "n < 32"
  shows "bit (fst (pc1 a b)) n \<longleftrightarrow> n < 28 \<and> block_bit (a, b) (key_perm ! (27 - n) - 1)"
    and "bit (snd (pc1 a b)) n \<longleftrightarrow> n < 28 \<and> block_bit (a, b) (key_perm ! (55 - n) - 1)"
proof -
  have c: "(inv_key_perm ! p \<noteq> 255 \<and> inv_key_perm ! p < 28) \<and> 4 + inv_key_perm ! p = 31 - n \<longleftrightarrow>
      n < 28 \<and> inv_key_perm ! p = 27 - n"
    "p < 64 \<Longrightarrow> (inv_key_perm ! p \<noteq> 255 \<and> \<not> inv_key_perm ! p < 28) \<and> 4 + (inv_key_perm ! p - 28) = 31 - n \<longleftrightarrow>
      n < 28 \<and> inv_key_perm ! p = 55 - n" for p
    using n inv_key_perm_inverse(2) [of p] by auto
  have g: "p < 64 \<Longrightarrow> inv_key_perm ! p \<noteq> 255 \<Longrightarrow> inv_key_perm ! p < 56" for p
    using inv_key_perm_inverse(2) [of p] by auto
  have p64: "8 * k + j < 64" if "k < 8" "j < 7" for k j :: nat using that by simp
  have "bit (fst (pc1 a b)) n \<longleftrightarrow> (\<exists>k < 8. \<exists>j < 7. bit (key_indices a b ! k) (6 - j) \<and>
      (inv_key_perm ! (8 * k + j) \<noteq> 255 \<and> inv_key_perm ! (8 * k + j) < 28) \<and> 4 + inv_key_perm ! (8 * k + j) = 31 - n)"
    unfolding pc1_def key_masks_seven fst_conv by (rule bit_look_seven) (use n key_indices_less in auto)
  also have "\<dots> \<longleftrightarrow> n < 28 \<and> (\<exists>k < 8. \<exists>j < 7. block_bit (a, b) (8 * k + j) \<and> inv_key_perm ! (8 * k + j) = 27 - n)"
    using c(1) key_indices_bit by metis
  finally show "bit (fst (pc1 a b)) n \<longleftrightarrow> n < 28 \<and> block_bit (a, b) (key_perm ! (27 - n) - 1)"
    using ex_key_position [of "27 - n" "block_bit (a, b)"] by simp
  have "bit (snd (pc1 a b)) n \<longleftrightarrow> (\<exists>k < 8. \<exists>j < 7. bit (key_indices a b ! k) (6 - j) \<and>
      (inv_key_perm ! (8 * k + j) \<noteq> 255 \<and> \<not> inv_key_perm ! (8 * k + j) < 28) \<and> 4 + (inv_key_perm ! (8 * k + j) - 28) = 31 - n)"
    unfolding pc1_def key_masks_seven snd_conv
  proof (rule bit_look_seven)
    show "4 + (inv_key_perm ! p - 28) < 32" if "p < 8 * 7 + 7" "inv_key_perm ! p \<noteq> 255 \<and> \<not> inv_key_perm ! p < 28" for p
      using g [of p] that by simp
  qed (use n key_indices_less in auto)
  also have "\<dots> \<longleftrightarrow> n < 28 \<and> (\<exists>k < 8. \<exists>j < 7. block_bit (a, b) (8 * k + j) \<and> inv_key_perm ! (8 * k + j) = 55 - n)"
    using c(2) [OF p64] key_indices_bit by metis
  finally show "bit (snd (pc1 a b)) n \<longleftrightarrow> n < 28 \<and> block_bit (a, b) (key_perm ! (55 - n) - 1)"
    using ex_key_position [of "55 - n" "block_bit (a, b)"] by simp
qed

lemma bit_pc2:
  assumes n: "n < 32"
  shows "bit (fst (pc2 a b)) n \<longleftrightarrow> n < 24 \<and> halves a b ! (comp_perm ! (23 - n) - 1)"
    and "bit (snd (pc2 a b)) n \<longleftrightarrow> n < 24 \<and> halves a b ! (comp_perm ! (47 - n) - 1)"
proof -
  have c: "(inv_comp_perm ! p \<noteq> 255 \<and> inv_comp_perm ! p < 24) \<and> 8 + inv_comp_perm ! p = 31 - n \<longleftrightarrow>
      n < 24 \<and> inv_comp_perm ! p = 23 - n"
    "p < 56 \<Longrightarrow> (inv_comp_perm ! p \<noteq> 255 \<and> \<not> inv_comp_perm ! p < 24) \<and> 8 + (inv_comp_perm ! p - 24) = 31 - n \<longleftrightarrow>
      n < 24 \<and> inv_comp_perm ! p = 47 - n" for p
    using n inv_comp_perm_inverse(2) [of p] by auto
  have g: "p < 56 \<Longrightarrow> inv_comp_perm ! p \<noteq> 255 \<Longrightarrow> inv_comp_perm ! p < 48" for p
    using inv_comp_perm_inverse(2) [of p] by auto
  have p56: "7 * k + j < 56" if "k < 8" "j < 7" for k j :: nat using that by simp
  have "bit (fst (pc2 a b)) n \<longleftrightarrow> (\<exists>k < 8. \<exists>j < 7. bit (comp_indices a b ! k) (6 - j) \<and>
      (inv_comp_perm ! (7 * k + j) \<noteq> 255 \<and> inv_comp_perm ! (7 * k + j) < 24) \<and> 8 + inv_comp_perm ! (7 * k + j) = 31 - n)"
    unfolding pc2_def key_masks_seven fst_conv by (rule bit_look_seven) (use n comp_indices_less in auto)
  also have "\<dots> \<longleftrightarrow> n < 24 \<and> (\<exists>k < 8. \<exists>j < 7. halves a b ! (7 * k + j) \<and> inv_comp_perm ! (7 * k + j) = 23 - n)"
    using c(1) comp_indices_bit by metis
  finally show "bit (fst (pc2 a b)) n \<longleftrightarrow> n < 24 \<and> halves a b ! (comp_perm ! (23 - n) - 1)"
    using ex_comp_position [of "23 - n" "(!) (halves a b)"] by simp
  have "bit (snd (pc2 a b)) n \<longleftrightarrow> (\<exists>k < 8. \<exists>j < 7. bit (comp_indices a b ! k) (6 - j) \<and>
      (inv_comp_perm ! (7 * k + j) \<noteq> 255 \<and> \<not> inv_comp_perm ! (7 * k + j) < 24) \<and> 8 + (inv_comp_perm ! (7 * k + j) - 24) = 31 - n)"
    unfolding pc2_def key_masks_seven snd_conv
  proof (rule bit_look_seven)
    show "8 + (inv_comp_perm ! p - 24) < 32" if "p < 7 * 7 + 7" "inv_comp_perm ! p \<noteq> 255 \<and> \<not> inv_comp_perm ! p < 24" for p
      using g [of p] that by simp
  qed (use n comp_indices_less in auto)
  also have "\<dots> \<longleftrightarrow> n < 24 \<and> (\<exists>k < 8. \<exists>j < 7. halves a b ! (7 * k + j) \<and> inv_comp_perm ! (7 * k + j) = 47 - n)"
    using c(2) [OF p56] comp_indices_bit by metis
  finally show "bit (snd (pc2 a b)) n \<longleftrightarrow> n < 24 \<and> halves a b ! (comp_perm ! (47 - n) - 1)"
    using ex_comp_position [of "47 - n" "(!) (halves a b)"] by simp
qed

lemma halves_pc1: "halves (fst (pc1 a b)) (snd (pc1 a b)) = permute key_perm (block_bits (a, b))"
proof (rule nth_equalityI)
  fix i assume "i < length (halves (fst (pc1 a b)) (snd (pc1 a b)))"
  then have i: "i < 56" by simp
  have "27 - (27 - i) = i" if "i < 28" using that by simp
  moreover have "55 - (55 - i) = i" using i by simp
  ultimately show "halves (fst (pc1 a b)) (snd (pc1 a b)) ! i = permute key_perm (block_bits (a, b)) ! i"
    using i inv_key_perm_inverse(1) [OF i] by (auto simp: halves_def nth_append bit_pc1)
qed simp

lemma bl_pc2: "bl 24 (fst (pc2 a b)) @ bl 24 (snd (pc2 a b)) = permute comp_perm (halves a b)"
proof (rule nth_equalityI)
  fix i assume "i < length (bl 24 (fst (pc2 a b)) @ bl 24 (snd (pc2 a b)))"
  then have i: "i < 48" by simp
  have "23 - (23 - i) = i" if "i < 24" using that by simp
  moreover have "47 - (47 - i) = i" using i by simp
  ultimately show "(bl 24 (fst (pc2 a b)) @ bl 24 (snd (pc2 a b))) ! i = permute comp_perm (halves a b) ! i"
    using i by (auto simp: nth_append bit_pc2)
qed simp

section \<open>Key schedule\<close>

definition bits28 :: "u32 \<Rightarrow> bool" where
  "bits28 w \<longleftrightarrow> (\<forall>n. bit w n \<longrightarrow> n < 28)"

lemma bits28_pc1: "bits28 (fst (pc1 a b))" "bits28 (snd (pc1 a b))"
proof -
  have "n < 28" if "bit (fst (pc1 a b)) n \<or> bit (snd (pc1 a b)) n" for n
  proof -
    have "n < 32" using that bit_imp_le_length [of "fst (pc1 a b)" n] bit_imp_le_length [of "snd (pc1 a b)" n] by auto
    then show ?thesis using that bit_pc1 [of n a b] by blast
  qed
  then show "bits28 (fst (pc1 a b))" "bits28 (snd (pc1 a b))" by (auto simp: bits28_def)
qed

lemma bl_rotate:
  assumes w: "bits28 w" and s: "s \<le> 28"
  shows "bl 28 (push_bit s w OR drop_bit (28 - s) w) = rotate s (bl 28 w)"
proof (rule nth_equalityI)
  fix i assume "i < length (bl 28 (push_bit s w OR drop_bit (28 - s) w))"
  then have i: "i < 28" by simp
  have r: "rotate s (bl 28 w) ! i = bit w (27 - (s + i) mod 28)" using i by (simp add: nth_rotate)
  show "bl 28 (push_bit s w OR drop_bit (28 - s) w) ! i = rotate s (bl 28 w) ! i"
  proof (cases "s + i < 28")
    case True
    then have "27 - i < 32" "s \<le> 27 - i" "27 - i - s = 27 - (s + i)" "\<not> bit w (28 - s + (27 - i))" using w by (auto simp: bits28_def)
    then show ?thesis unfolding r using True i by (simp add: bit_simps)
  next
    case False
    then have "\<not> s \<le> 27 - i" "(s + i) mod 28 = s + i - 28" "28 - s + (27 - i) = 27 - (s + i - 28)"
      using i s by (auto simp: mod_if)
    then show ?thesis unfolding r using i by (simp add: bit_simps)
  qed
qed simp

definition subkey :: "u32 \<times> u32 \<Rightarrow> bits" where
  "subkey k = bl 24 (fst k) @ bl 24 (snd k)"

lemma key_rounds_standard:
  assumes "bits28 k0" "bits28 k1" "n + sum_list ss \<le> 28"
  shows "map subkey (key_rounds ss n k0 k1) = std_subkeys ss (rotate n (bl 28 k0)) (rotate n (bl 28 k1))"
  using assms(3)
proof (induction ss arbitrary: n)
  case (Cons s ss)
  let ?t = "\<lambda>k. push_bit (n + s) k OR drop_bit (28 - (n + s)) k"
  have "n + s \<le> 28" using Cons.prems by simp
  then have t: "bl 28 (?t k0) = rotate (n + s) (bl 28 k0)" "bl 28 (?t k1) = rotate (n + s) (bl 28 k1)"
    using assms(1,2) by (simp_all only: bl_rotate)
  have "subkey (pc2 (?t k0) (?t k1)) = permute comp_perm (rotate (n + s) (bl 28 k0) @ rotate (n + s) (bl 28 k1))"
    using bl_pc2 [of "?t k0" "?t k1"] by (simp add: subkey_def halves_def t)
  moreover have "map subkey (key_rounds ss (n + s) k0 k1) =
      std_subkeys ss (rotate (n + s) (bl 28 k0)) (rotate (n + s) (bl 28 k1))"
    using Cons by simp
  ultimately show ?case by (simp add: Let_def rotate_rotate add.commute pc2_def [symmetric])
qed simp

lemma key_schedule_standard: "map subkey (key_schedule a b) = std_key_schedule (block_bits (a, b))"
proof -
  have shifts: "0 + sum_list key_shifts \<le> 28" by (simp add: key_shifts_def)
  have "take 28 (permute key_perm (block_bits (a, b))) = bl 28 (fst (pc1 a b))"
    "drop 28 (permute key_perm (block_bits (a, b))) = bl 28 (snd (pc1 a b))"
    unfolding halves_pc1 [symmetric] by (simp_all add: halves_def)
  then show ?thesis
    using key_rounds_standard [OF bits28_pc1 shifts, of a b a b]
    by (simp add: key_schedule_def std_key_schedule_def Let_def pc1_def)
qed

section \<open>Rounds\<close>

definition blr :: "u32 \<times> u32 \<Rightarrow> bits \<times> bits" where
  "blr lr = (bl 32 (fst lr), bl 32 (snd lr))"

lemma xor_bits_commute: "xor_bits a b = xor_bits b a"
  by (auto simp: xor_bits_def list_eq_iff_nth_eq)

definition keys24 :: "(u32 \<times> u32) list \<Rightarrow> bool" where
  "keys24 ks \<longleftrightarrow> (\<forall>(kl, kr) \<in> set ks. bits24 kl \<and> bits24 kr)"

lemma des_round_standard:
  assumes "bits24 salt" "bits24 (fst k)" "bits24 (snd k)"
  shows "blr (des_round salt k lr) = std_round (bl 24 salt) (subkey k) (blr lr)"
  using bl_feistel_f [OF assms, of "snd lr"]
  by (simp add: blr_def des_round_def std_round_def bl_xor subkey_def xor_bits_commute)

lemma fold_round_standard:
  assumes "bits24 salt" "keys24 ks"
  shows "blr (fold (des_round salt) ks lr) = fold (std_round (bl 24 salt)) (map subkey ks) (blr lr)"
  using assms(2)
proof (induction ks arbitrary: lr)
  case (Cons k ks)
  then have k: "bits24 (fst k)" "bits24 (snd k)" and ks: "keys24 ks" by (auto simp: keys24_def)
  show ?case using Cons.IH [OF ks] des_round_standard [OF assms(1) k, of lr] by simp
qed simp

lemma des_rounds_standard:
  assumes "bits24 salt" "keys24 ks"
  shows "blr ((des_rounds salt ks ^^ n) lr) = (std_rounds (bl 24 salt) (map subkey ks) ^^ n) (blr lr)"
proof (induction n)
  case (Suc n)
  have "blr (des_rounds salt ks x) = std_rounds (bl 24 salt) (map subkey ks) (blr x)" for x
    using fold_round_standard [OF assms, of x] by (simp add: des_rounds_def std_rounds_def Let_def blr_def prod.swap_def prod_eq_iff)
  then show ?case using Suc by simp
qed simp

lemma des_block_standard:
  assumes "bits24 salt" "keys24 ks"
  shows "block_bits (final_permutation ((des_rounds salt ks ^^ n) (initial_perm lr))) = std_des (bl 24 salt) (map subkey ks) n (block_bits lr)"
proof -
  have "blr (initial_perm lr) = (take 32 (permute IP (block_bits lr)), drop 32 (permute IP (block_bits lr)))"
    unfolding block_initial_perm [symmetric] by (simp add: blr_def)
  moreover have "block_bits x = fst (blr x) @ snd (blr x)" for x by (simp add: block_bits_def blr_def)
  ultimately show ?thesis
    unfolding block_final_perm std_des_def Let_def using des_rounds_standard [OF assms, of n "initial_perm lr"] by simp
qed

section \<open>Contexts\<close>

definition raw_key :: "u8 list \<Rightarrow> u32 \<times> u32" where
  "raw_key key = (be32 (key ! 0) (key ! 1) (key ! 2) (key ! 3), be32 (key ! 4) (key ! 5) (key ! 6) (key ! 7))"

definition has_key :: "u32 \<times> u32 \<Rightarrow> des_context \<Rightarrow> bool" where
  "has_key k c \<longleftrightarrow>
     (let ks = key_schedule (fst k) (snd k) in
      en_keysl c = map fst ks \<and> en_keysr c = map snd ks \<and> de_keysl c = rev (map fst ks) \<and> de_keysr c = rev (map snd ks))"

definition ctx_wf :: "des_context \<Rightarrow> bool" where
  \<comment> \<open>what the two caches promise: the subkeys belong to the remembered key, unless that is null, and the
     salt bits to the remembered salt\<close>
  "ctx_wf c \<longleftrightarrow>
     (old_rawkey0 c OR old_rawkey1 c \<noteq> 0 \<longrightarrow> has_key (old_rawkey0 c, old_rawkey1 c) c) \<and>
     saltbits c = salt_loop 24 (old_salt c) 1 0x800000 0"

lemma salt_loop_0: "salt_loop 24 0 1 0x800000 0 = 0"
  by (rule bit_word_eqI) (simp add: bit_salt_loop_24)

lemma des_ctx_init_wf: "des_ctx_init mem = Inr c \<Longrightarrow> ctx_wf c"
  by (auto simp: des_ctx_init_def ctx_wf_def salt_loop_0 split: option.splits)

lemma des_setkey_key:
  assumes "ctx_wf c"
  shows "has_key (raw_key key) (snd (des_setkey key c))" "ctx_wf (snd (des_setkey key c))" "fst (des_setkey key c) = 0"
    and "saltbits (snd (des_setkey key c)) = saltbits c"
  using assms by (auto simp: des_setkey_def ctx_wf_def has_key_def raw_key_def Let_def)

lemma setup_salt_salt:
  assumes "ctx_wf c"
  shows "saltbits (setup_salt salt c) = salt_loop 24 salt 1 0x800000 0" "ctx_wf (setup_salt salt c)"
    and "has_key k (setup_salt salt c) = has_key k c"
  using assms by (auto simp: setup_salt_def ctx_wf_def has_key_def Let_def)

text \<open>C12: The caches of an encryption context are always consistent: a new context is well formed whatever the
  allocated memory contains, and setting a key or a salt keeps it so; after \<open>des_setkey\<close> the subkeys are those
  of the key given, in both orders, whether or not the cached ones were reused, and after \<open>setup_salt\<close> the salt
  bits are those of the salt given.\<close>
theorem des_context_wf:
  "(\<forall>mem c. des_ctx_init mem = Inr c \<longrightarrow> ctx_wf c) \<and>
   (\<forall>c key. ctx_wf c \<longrightarrow> ctx_wf (snd (des_setkey key c)) \<and> has_key (raw_key key) (snd (des_setkey key c))) \<and>
   (\<forall>c salt. ctx_wf c \<longrightarrow> ctx_wf (setup_salt salt c) \<and> saltbits (setup_salt salt c) = salt_loop 24 salt 1 0x800000 0)"
  using des_ctx_init_wf des_setkey_key(1,2) setup_salt_salt(1,2) by blast

theorem des_context_wf_witness:
  "\<exists>c. des_ctx_init (Some sample_keys) = Inr c \<and>
     has_key (raw_key [1, 2, 3, 4, 5, 6, 7, 8]) (snd (des_setkey [1, 2, 3, 4, 5, 6, 7, 8] (setup_salt 5 c)))"
proof -
  obtain c where c: "des_ctx_init (Some sample_keys) = Inr c" by (simp add: des_ctx_init_def)
  with des_context_wf have "ctx_wf c" by blast
  with des_context_wf have "ctx_wf (setup_salt 5 c)" by blast
  with des_context_wf c show ?thesis by blast
qed

section \<open>The standard\<close>

lemma zip_rev_map: "zip (rev (map fst ks)) (rev (map snd ks)) = rev ks"
  by (simp add: zip_rev zip_map_fst_snd)

lemma keys24_schedule: "keys24 (key_schedule a b)" "keys24 (rev (key_schedule a b))"
  using bits24_key_schedule by (auto simp: keys24_def)

lemma bl_salt: "bl 24 (salt_loop 24 salt 1 0x800000 0) = map (bit salt) [0..<24]"
  by (rule nth_equalityI) (auto simp: bit_salt_loop_24)

lemma u8_bit_high: "8 \<le> n \<Longrightarrow> \<not> bit (w :: u8) n"
  by (auto dest: bit_imp_le_length)

lemma block_raw_key:
  assumes "length key = 8"
  shows "block_bits (raw_key key) = concat (map (bl 8) key)"
proof -
  obtain a b c d e f g h where k: "key = [a, b, c, d, e, f, g, h]"
    using assms by (auto simp: length_Suc_conv numeral_eq_Suc)
  have "bl 32 (be32 a b c d) = bl 8 a @ bl 8 b @ bl 8 c @ bl 8 d" for a b c d
    by (simp add: bl_def upt_rec be32_def bit_simps u8_bit_high)
  then show ?thesis by (simp add: k raw_key_def block_bits_def)
qed

lemma do_des_block:
  assumes "has_key k c" "count \<noteq> 0"
  shows "do_des l r count c = Some (final_permutation
     ((des_rounds (saltbits c) (if count > 0 then key_schedule (fst k) (snd k) else rev (key_schedule (fst k) (snd k)))
        ^^ nat \<bar>count\<bar>) (initial_perm (l, r))))"
  using assms by (simp add: do_des_def has_key_def Let_def zip_map_fst_snd zip_rev_map)

text \<open>C5: The code computes the Data Encryption Standard. In every well-formed context, after \<open>des_setkey\<close> with a key
  of eight bytes and \<open>setup_salt\<close>, \<open>do_des\<close> with a positive count returns the block that the standard defines
  (for a zero salt and count 1; otherwise with the salted expansion and the rounds iterated), bit for bit, and
  with a negative count the one with the subkeys in reverse order.\<close>
theorem do_des_standard:
  assumes "ctx_wf c" "length key = 8" "count \<noteq> 0"
  shows "\<exists>out. do_des l r count (setup_salt salt (snd (des_setkey key c))) = Some out \<and>
     block_bits out = std_des (map (bit salt) [0..<24])
       ((if count > 0 then \<lambda>ks. ks else rev) (std_key_schedule (concat (map (bl 8) key)))) (nat \<bar>count\<bar>) (block_bits (l, r))"
proof -
  let ?c = "setup_salt salt (snd (des_setkey key c))"
  let ?ks = "key_schedule (fst (raw_key key)) (snd (raw_key key))"
  note k = des_setkey_key [OF assms(1), of key]
  have hk: "has_key (raw_key key) ?c" using k(1) setup_salt_salt(3) [OF k(2)] by blast
  have salt: "saltbits ?c = salt_loop 24 salt 1 0x800000 0" by (rule setup_salt_salt(1) [OF k(2)])
  have ks: "map subkey ?ks = std_key_schedule (concat (map (bl 8) key))"
    using key_schedule_standard [of "fst (raw_key key)" "snd (raw_key key)"] block_raw_key [OF assms(2)] by simp
  have "block_bits (final_permutation ((des_rounds (saltbits ?c) (if count > 0 then ?ks else rev ?ks) ^^ nat \<bar>count\<bar>) (initial_perm (l, r)))) =
      std_des (bl 24 (saltbits ?c)) (map subkey (if count > 0 then ?ks else rev ?ks)) (nat \<bar>count\<bar>) (block_bits (l, r))"
    unfolding salt by (rule des_block_standard) (simp_all add: bits24_salt keys24_schedule)
  then show ?thesis using do_des_block [OF hk assms(3), of l r] by (auto simp: salt bl_salt ks rev_map [symmetric])
qed

theorem do_des_standard_witness:
  "\<exists>c out. des_ctx_init (Some sample_keys) = Inr c \<and>
     do_des 0 0x40 1 (setup_salt 0 (snd (des_setkey [1, 2, 3, 4, 5, 6, 7, 8] c))) = Some out \<and>
     block_bits out = std_des (replicate 24 False) (std_key_schedule (concat (map (bl 8) [1, 2, 3, 4, 5, 6, 7, 8 :: u8]))) 1 (block_bits (0, 0x40))"
proof -
  obtain c where c: "des_ctx_init (Some sample_keys) = Inr c" by (simp add: des_ctx_init_def)
  have "map (bit (0 :: u32)) [0..<24] = replicate 24 False" by (rule nth_equalityI) simp_all
  then show ?thesis
    using do_des_standard [OF des_ctx_init_wf [OF c], of "[1, 2, 3, 4, 5, 6, 7, 8]" 1 0 "0x40" 0] c by auto
qed

section \<open>The traditional crypt\<close>

definition num :: "bits \<Rightarrow> nat" where
  "num xs = foldl (\<lambda>a b. 2 * a + of_bool b) 0 xs"

definition crypt_key :: "cstring \<Rightarrow> u8 list" where
  \<comment> \<open>eight characters, each shifted to leave the parity bit, filled up with zeros\<close>
  "crypt_key key = take 8 (significant key @ replicate 8 0)"

definition crypt_salt :: "cstring \<Rightarrow> bits" where
  \<comment> \<open>twelve bits from the two characters, least significant first, the second character above the first\<close>
  "crypt_salt setting = rev (bl 6 (ascii_to_bin (c_char setting 0))) @ rev (bl 6 (ascii_to_bin (c_char setting 1))) @ replicate 12 False"

definition crypt3 :: "cstring \<Rightarrow> cstring \<Rightarrow> cstring" where
  "crypt3 key setting =
     (let out = std_des (crypt_salt setting) (std_key_schedule (concat (map (bl 8) (crypt_key key)))) 25 (replicate 64 False)
      in [c_char setting 0, if c_char setting 1 \<noteq> 0 then c_char setting 1 else c_char setting 0] @
         map (\<lambda>i. ascii64 ! num (take 6 (drop (6 * i) (out @ [False, False])))) [0..<11])"

lemma num_bl_6: "num (bl 6 w) = unat (w AND 0x3f)" for w :: u32
proof -
  have "unat (w AND 0x3f) = take_bit 6 (unat w)" by (simp add: u32_masks unsigned_take_bit_eq flip: take_bit_eq_mask)
  also have "\<dots> = horner_sum of_bool 2 (map (bit (unat w)) [0..<6])" by (simp add: horner_sum_bit_eq_take_bit)
  finally show ?thesis unfolding num_def bl_def upt_6 by (simp add: bit_unsigned_iff One_nat_def [symmetric] del: One_nat_def)
qed

lemma encode64_num: "encode64 w = ascii64 ! num (bl 6 w)"
  by (simp add: encode64_def num_bl_6)

lemma encode_result_sextets:
  "encode_result r0 r1 = map (\<lambda>i. ascii64 ! num (take 6 (drop (6 * i) (block_bits (r0, r1) @ [False, False])))) [0..<11]"
proof -
  define l1 l2 l3 where "l1 = drop_bit 8 r0" and "l2 = (push_bit 16 r0 OR (drop_bit 16 r1 AND 0xffff) :: u32)" and "l3 = push_bit 2 r1"
  have "block_bits (r0, r1) @ [False, False] = bl 24 l1 @ bl 24 l2 @ bl 18 l3"
  proof -
    have "bl 24 l2 = bl 8 r0 @ bl 16 (drop_bit 16 r1)"
      using bl_append [of 8 16 l2] bl_eqI [of 8 "drop_bit 16 l2" r0] bl_eqI [of 16 l2 "drop_bit 16 r1"]
      by (simp add: l2_def bit_simps u32_masks)
    moreover have "bl 18 l3 = bl 16 r1 @ [False, False]"
      using bl_append [of 16 2 l3] bl_eqI [of 16 "drop_bit 2 l3" r1] by (simp add: l3_def bit_simps) (simp add: bl_def upt_rec bit_simps)
    ultimately show ?thesis using bl_append [of 24 8 r0] bl_append [of 16 16 r1] by (simp add: block_bits_def l1_def)
  qed
  moreover have "bl 24 w = bl 6 (drop_bit 18 w) @ bl 6 (drop_bit 12 w) @ bl 6 (drop_bit 6 w) @ bl 6 w" for w :: u32
    using bl_append [of 6 18 w] bl_append [of 6 12 w] bl_append [of 6 6 w] by simp
  moreover have "bl 18 w = bl 6 (drop_bit 12 w) @ bl 6 (drop_bit 6 w) @ bl 6 w" for w :: u32
    using bl_append [of 6 12 w] bl_append [of 6 6 w] by simp
  moreover have "[0..<11] = [0, 1, 2, 3, 4, 5, 6, 7, 8, 9, 10 :: nat]" by (simp add: upt_rec)
  ultimately show ?thesis
    by (simp add: encode_result_def Let_def encode64_num flip: l1_def l2_def l3_def)
qed

lemma ascii_to_bin_less: "ascii_to_bin c < 64"
  by (auto simp: ascii_to_bin_def Let_def)

lemma rev_bl: "rev (bl n w) = map (bit w) [0..<n]"
  by (rule nth_equalityI) (simp_all add: rev_nth)

lemma crypt_salt_bits: "map (bit (salt_of setting)) [0..<24] = crypt_salt setting"
proof -
  let ?a = "ascii_to_bin (c_char setting 0)" and ?b = "ascii_to_bin (c_char setting 1)"
  have high: "\<not> bit ?a n" "\<not> bit ?b n" if "6 \<le> n" for n
  proof -
    have "64 \<le> (2 :: nat) ^ n" using power_increasing [OF that, of "2 :: nat"] by simp
    then have "?a < 2 ^ n" "?b < 2 ^ n" using ascii_to_bin_less order_less_le_trans by blast+
    then show "\<not> bit ?a n" "\<not> bit ?b n" by (simp_all add: bit_iff_odd)
  qed
  show ?thesis
  proof (rule nth_equalityI)
    fix i assume "i < length (map (bit (salt_of setting)) [0..<24])"
    then have i: "i < 24" by simp
    consider "i < 6" | "6 \<le> i" "i < 12" | "12 \<le> i" by linarith
    then show "map (bit (salt_of setting)) [0..<24] ! i = crypt_salt setting ! i"
    proof cases
      case 1
      then show ?thesis by (simp add: salt_of_def crypt_salt_def rev_bl nth_append bit_simps bit_of_nat_iff)
    next
      case 2
      then have "i - 6 < 6" by simp
      then show ?thesis using 2 high(1) [of i] by (simp add: salt_of_def crypt_salt_def rev_bl nth_append bit_simps bit_of_nat_iff)
    next
      case 3
      then have "6 \<le> i - 6" by simp
      then show ?thesis using 3 i high(1) [of i] high(2) [of "i - 6"]
        by (simp add: salt_of_def crypt_salt_def rev_bl nth_append bit_simps bit_of_nat_iff)
    qed
  qed (simp add: crypt_salt_def)
qed

lemma length_copy_key [simp]: "length (copy_key n key) = n"
  by (simp add: copy_key_eq)

lemma crypt_block_standard:
  "block_bits (crypt_block (copy_key 8 key) (salt_of setting)) =
   std_des (crypt_salt setting) (std_key_schedule (concat (map (bl 8) (crypt_key key)))) 25 (replicate 64 False)"
proof -
  let ?k = "copy_key 8 key"
  have z: "block_bits (0, 0) = replicate 64 False" by (rule nth_equalityI) (simp_all add: block_bit_def)
  have "map subkey (key_schedule (fst (raw_key ?k)) (snd (raw_key ?k))) = std_key_schedule (concat (map (bl 8) ?k))"
    using key_schedule_standard [of "fst (raw_key ?k)" "snd (raw_key ?k)"] block_raw_key [of ?k] by simp
  moreover have "?k = crypt_key key" by (simp only: copy_key_significant crypt_key_def)
  moreover have "crypt_block ?k (salt_of setting) = final_permutation
      ((des_rounds (salt_loop 24 (salt_of setting) 1 0x800000 0) (key_schedule (fst (raw_key ?k)) (snd (raw_key ?k))) ^^ 25) (initial_perm (0, 0)))"
    by (simp only: crypt_block_def raw_key_def fst_conv snd_conv)
  ultimately show ?thesis
    using des_block_standard [OF bits24_salt [of "salt_of setting"] keys24_schedule(1) [of "fst (raw_key ?k)" "snd (raw_key ?k)"], of 25 "(0, 0)"]
    by (simp only: bl_salt crypt_salt_bits z)
qed

lemma des_crypt_r_is_crypt3:
  assumes "21 \<le> sz"
  shows "des_crypt_r (Some mem) key setting sz = Inr (Some (crypt3 key setting))"
proof -
  obtain r0 r1 where b: "crypt_block (copy_key 8 key) (salt_of setting) = (r0, r1)" by fastforce
  show ?thesis
    unfolding des_crypt_r_eq [OF assms] crypt3_def Let_def crypt_block_standard [symmetric] b split
    by (simp only: encode_result_sextets)
qed

text \<open>C6: The password routine is the traditional \<open>crypt\<close>: with a buffer of at least 21 bytes and a context
  allocated, whatever its contents, the result is the salt followed by the eleven characters, six bits each,
  of the zero block encrypted twenty-five times with the salted standard under the first eight characters.\<close>
theorem des_crypt_r_crypt3:
  assumes "21 \<le> sz"
  shows "des_crypt_r (Some mem) key setting sz = Inr (Some (crypt3 key setting))"
  using assms by (rule des_crypt_r_is_crypt3)

theorem des_crypt_r_crypt3_witness:
  "des_crypt_r (Some sample_keys) (of_string ''rtems'') (of_string ''td'') 21 = Inr (Some (crypt3 (of_string ''rtems'') (of_string ''td'')))"
  using des_crypt_r_crypt3 [of 21 sample_keys] by simp

end
