(* ===== verification/Des_Default.thy ===== *)
theory Des_Default
  imports Des_Crypt3 CheckPasswd
begin

unbundle bit_operations_syntax

text \<open>
  The default password. Each table of the standard becomes one rewriting rule on lists of bits, and with these
  rules the twenty-five encryptions are computed inside the logic: the string in \<^verbatim>\<open>telnetd/passwd.h\<close> is the
  encryption of the password its comment names, and that password opens the daemon.
\<close>

section \<open>The tables as rules\<close>

lemma permute_E:
  "permute E_table [x1, x2, x3, x4, x5, x6, x7, x8, x9, x10, x11, x12, x13, x14, x15, x16, x17, x18, x19, x20, x21, x22,
     x23, x24, x25, x26, x27, x28, x29, x30, x31, x32] =
   [x32, x1, x2, x3, x4, x5, x4, x5, x6, x7, x8, x9, x8, x9, x10, x11, x12, x13, x12, x13, x14, x15, x16,
     x17, x16, x17, x18, x19, x20, x21, x20, x21, x22, x23, x24, x25, x24, x25, x26, x27, x28, x29, x28, x29,
     x30, x31, x32, x1]"
  by (simp add: permute_def E_table_def)

lemma permute_P:
  "permute pbox [x1, x2, x3, x4, x5, x6, x7, x8, x9, x10, x11, x12, x13, x14, x15, x16, x17, x18, x19, x20, x21, x22,
     x23, x24, x25, x26, x27, x28, x29, x30, x31, x32] =
   [x16, x7, x20, x21, x29, x12, x28, x17, x1, x15, x23, x26, x5, x18, x31, x10, x2, x8, x24, x14, x32, x27,
     x3, x9, x19, x13, x30, x6, x22, x11, x4, x25]"
  by (simp add: permute_def pbox_def)

lemma permute_PC1:
  "permute key_perm [x1, x2, x3, x4, x5, x6, x7, x8, x9, x10, x11, x12, x13, x14, x15, x16, x17, x18, x19, x20, x21, x22,
     x23, x24, x25, x26, x27, x28, x29, x30, x31, x32, x33, x34, x35, x36, x37, x38, x39, x40, x41, x42, x43,
     x44, x45, x46, x47, x48, x49, x50, x51, x52, x53, x54, x55, x56, x57, x58, x59, x60, x61, x62, x63, x64] =
   [x57, x49, x41, x33, x25, x17, x9, x1, x58, x50, x42, x34, x26, x18, x10, x2, x59, x51, x43, x35, x27,
     x19, x11, x3, x60, x52, x44, x36, x63, x55, x47, x39, x31, x23, x15, x7, x62, x54, x46, x38, x30, x22,
     x14, x6, x61, x53, x45, x37, x29, x21, x13, x5, x28, x20, x12, x4]"
  by (simp add: permute_def key_perm_def)

lemma permute_PC2:
  "permute comp_perm [x1, x2, x3, x4, x5, x6, x7, x8, x9, x10, x11, x12, x13, x14, x15, x16, x17, x18, x19, x20, x21, x22,
     x23, x24, x25, x26, x27, x28, x29, x30, x31, x32, x33, x34, x35, x36, x37, x38, x39, x40, x41, x42, x43,
     x44, x45, x46, x47, x48, x49, x50, x51, x52, x53, x54, x55, x56] =
   [x14, x17, x11, x24, x1, x5, x3, x28, x15, x6, x21, x10, x23, x19, x12, x4, x26, x8, x16, x7, x27, x20,
     x13, x2, x41, x52, x31, x37, x47, x55, x30, x40, x51, x45, x33, x48, x44, x49, x39, x56, x34, x53, x46,
     x42, x50, x36, x29, x32]"
  by (simp add: permute_def comp_perm_def)

lemma permute_IP_inverse:
  "permute IP_inverse [x1, x2, x3, x4, x5, x6, x7, x8, x9, x10, x11, x12, x13, x14, x15, x16, x17, x18, x19, x20, x21, x22,
     x23, x24, x25, x26, x27, x28, x29, x30, x31, x32, x33, x34, x35, x36, x37, x38, x39, x40, x41, x42, x43,
     x44, x45, x46, x47, x48, x49, x50, x51, x52, x53, x54, x55, x56, x57, x58, x59, x60, x61, x62, x63, x64] =
   [x40, x8, x48, x16, x56, x24, x64, x32, x39, x7, x47, x15, x55, x23, x63, x31, x38, x6, x46, x14, x54,
     x22, x62, x30, x37, x5, x45, x13, x53, x21, x61, x29, x36, x4, x44, x12, x52, x20, x60, x28, x35, x3,
     x43, x11, x51, x19, x59, x27, x34, x2, x42, x10, x50, x18, x58, x26, x33, x1, x41, x9, x49, x17, x57,
     x25]"
  by (simp add: permute_def IP_inverse_def)

lemma permute_IP_zero: "permute IP (replicate 64 False) = replicate 64 False"
  by (rule nth_equalityI) (use IP_bounds in simp_all)

definition td_salt :: bits where
  "td_salt = [True, False, False, True, True, True, True, False, False, True, False, True, False, False, False, False,
     False, False, False, False, False, False, False, False]"

lemma crypt_salt_td: "crypt_salt (of_string ''td'') = td_salt"
proof -
  have "ascii_to_bin (c_char (of_string ''td'') 0) = 57" "ascii_to_bin (c_char (of_string ''td'') 1) = 41"
    by (simp_all add: of_string_def c_char_def ascii_to_bin_def)
  moreover have "replicate 12 False = [False, False, False, False, False, False, False, False, False, False, False, False]"
    by (simp add: numeral_eq_Suc)
  ultimately show ?thesis
    unfolding crypt_salt_def td_salt_def bl_def upt_6 by (simp add: bit_numeral_simps bit_Suc_0_iff)
qed

lemma salted_td:
  "salted td_salt [x1, x2, x3, x4, x5, x6, x7, x8, x9, x10, x11, x12, x13, x14, x15, x16, x17, x18, x19, x20, x21, x22,
     x23, x24, x25, x26, x27, x28, x29, x30, x31, x32, x33, x34, x35, x36, x37, x38, x39, x40, x41, x42, x43,
     x44, x45, x46, x47, x48] =
   [x25, x2, x3, x28, x29, x30, x31, x8, x9, x34, x11, x36, x13, x14, x15, x16, x17, x18, x19, x20, x21,
     x22, x23, x24, x1, x26, x27, x4, x5, x6, x7, x32, x33, x10, x35, x12, x37, x38, x39, x40, x41, x42, x43,
     x44, x45, x46, x47, x48]"
  by (simp add: salted_def td_salt_def upt_rec)

lemma xor_bits_48:
  "xor_bits [x1, x2, x3, x4, x5, x6, x7, x8, x9, x10, x11, x12, x13, x14, x15, x16, x17, x18, x19, x20, x21, x22,
     x23, x24, x25, x26, x27, x28, x29, x30, x31, x32, x33, x34, x35, x36, x37, x38, x39, x40, x41, x42, x43,
     x44, x45, x46, x47, x48]
     [y1, y2, y3, y4, y5, y6, y7, y8, y9, y10, y11, y12, y13, y14, y15, y16, y17, y18, y19, y20, y21, y22,
     y23, y24, y25, y26, y27, y28, y29, y30, y31, y32, y33, y34, y35, y36, y37, y38, y39, y40, y41, y42, y43,
     y44, y45, y46, y47, y48] =
   [(x1 \<noteq> y1), (x2 \<noteq> y2), (x3 \<noteq> y3), (x4 \<noteq> y4), (x5 \<noteq> y5), (x6 \<noteq> y6),
     (x7 \<noteq> y7), (x8 \<noteq> y8), (x9 \<noteq> y9), (x10 \<noteq> y10), (x11 \<noteq> y11), (x12 \<noteq> y12),
     (x13 \<noteq> y13), (x14 \<noteq> y14), (x15 \<noteq> y15), (x16 \<noteq> y16), (x17 \<noteq> y17), (x18 \<noteq> y18),
     (x19 \<noteq> y19), (x20 \<noteq> y20), (x21 \<noteq> y21), (x22 \<noteq> y22), (x23 \<noteq> y23), (x24 \<noteq> y24),
     (x25 \<noteq> y25), (x26 \<noteq> y26), (x27 \<noteq> y27), (x28 \<noteq> y28), (x29 \<noteq> y29), (x30 \<noteq> y30),
     (x31 \<noteq> y31), (x32 \<noteq> y32), (x33 \<noteq> y33), (x34 \<noteq> y34), (x35 \<noteq> y35), (x36 \<noteq> y36),
     (x37 \<noteq> y37), (x38 \<noteq> y38), (x39 \<noteq> y39), (x40 \<noteq> y40), (x41 \<noteq> y41), (x42 \<noteq> y42),
     (x43 \<noteq> y43), (x44 \<noteq> y44), (x45 \<noteq> y45), (x46 \<noteq> y46), (x47 \<noteq> y47), (x48 \<noteq> y48)]"
  by (simp add: xor_bits_def)

lemma xor_bits_32:
  "xor_bits [x1, x2, x3, x4, x5, x6, x7, x8, x9, x10, x11, x12, x13, x14, x15, x16, x17, x18, x19, x20, x21, x22,
     x23, x24, x25, x26, x27, x28, x29, x30, x31, x32]
     [y1, y2, y3, y4, y5, y6, y7, y8, y9, y10, y11, y12, y13, y14, y15, y16, y17, y18, y19, y20, y21, y22,
     y23, y24, y25, y26, y27, y28, y29, y30, y31, y32] =
   [(x1 \<noteq> y1), (x2 \<noteq> y2), (x3 \<noteq> y3), (x4 \<noteq> y4), (x5 \<noteq> y5), (x6 \<noteq> y6),
     (x7 \<noteq> y7), (x8 \<noteq> y8), (x9 \<noteq> y9), (x10 \<noteq> y10), (x11 \<noteq> y11), (x12 \<noteq> y12),
     (x13 \<noteq> y13), (x14 \<noteq> y14), (x15 \<noteq> y15), (x16 \<noteq> y16), (x17 \<noteq> y17), (x18 \<noteq> y18),
     (x19 \<noteq> y19), (x20 \<noteq> y20), (x21 \<noteq> y21), (x22 \<noteq> y22), (x23 \<noteq> y23), (x24 \<noteq> y24),
     (x25 \<noteq> y25), (x26 \<noteq> y26), (x27 \<noteq> y27), (x28 \<noteq> y28), (x29 \<noteq> y29), (x30 \<noteq> y30),
     (x31 \<noteq> y31), (x32 \<noteq> y32)]"
  by (simp add: xor_bits_def)

lemma eight_S:
  "concat (map (\<lambda>i. S i (take 6 (drop (6 * i) [x1, x2, x3, x4, x5, x6, x7, x8, x9, x10, x11, x12, x13, x14, x15, x16, x17, x18, x19, x20, x21, x22,
     x23, x24, x25, x26, x27, x28, x29, x30, x31, x32, x33, x34, x35, x36, x37, x38, x39, x40, x41, x42, x43,
     x44, x45, x46, x47, x48]))) [0..<8]) =
   S 0 [x1, x2, x3, x4, x5, x6] @ S 1 [x7, x8, x9, x10, x11, x12] @ S 2 [x13, x14, x15, x16, x17, x18] @ S 3 [x19, x20, x21, x22, x23, x24] @ S 4 [x25, x26, x27, x28, x29, x30] @ S 5 [x31, x32, x33, x34, x35, x36] @ S 6 [x37, x38, x39, x40, x41, x42] @ S 7 [x43, x44, x45, x46, x47, x48]"
proof -
  have "[0..<8] = [0, 1, 2, 3, 4, 5, 6, 7 :: nat]" by (simp add: upt_rec)
  then show ?thesis by simp
qed

lemma rotate_1:
  "rotate (Suc 0) [x1, x2, x3, x4, x5, x6, x7, x8, x9, x10, x11, x12, x13, x14, x15, x16, x17, x18, x19, x20, x21, x22,
     x23, x24, x25, x26, x27, x28] =
   [x2, x3, x4, x5, x6, x7, x8, x9, x10, x11, x12, x13, x14, x15, x16, x17, x18, x19, x20, x21, x22, x23,
     x24, x25, x26, x27, x28, x1]"
  by (simp add: rotate_Suc)

lemma rotate_2:
  "rotate 2 [x1, x2, x3, x4, x5, x6, x7, x8, x9, x10, x11, x12, x13, x14, x15, x16, x17, x18, x19, x20, x21, x22,
     x23, x24, x25, x26, x27, x28] =
   [x3, x4, x5, x6, x7, x8, x9, x10, x11, x12, x13, x14, x15, x16, x17, x18, x19, x20, x21, x22, x23, x24,
     x25, x26, x27, x28, x1, x2]"
  by (simp add: numeral_2_eq_2 rotate_Suc)

lemma upt_4: "[0..<4] = [0, 1, 2, 3 :: nat]"
  by (simp add: upt_rec)

lemma S_0:
  "S 0 [False, False, False, False, False, False] = [True, True, True, False]"
  "S 0 [False, False, False, False, False, True] = [False, False, False, False]"
  "S 0 [False, False, False, False, True, False] = [False, True, False, False]"
  "S 0 [False, False, False, False, True, True] = [True, True, True, True]"
  "S 0 [False, False, False, True, False, False] = [True, True, False, True]"
  "S 0 [False, False, False, True, False, True] = [False, True, True, True]"
  "S 0 [False, False, False, True, True, False] = [False, False, False, True]"
  "S 0 [False, False, False, True, True, True] = [False, True, False, False]"
  "S 0 [False, False, True, False, False, False] = [False, False, True, False]"
  "S 0 [False, False, True, False, False, True] = [True, True, True, False]"
  "S 0 [False, False, True, False, True, False] = [True, True, True, True]"
  "S 0 [False, False, True, False, True, True] = [False, False, True, False]"
  "S 0 [False, False, True, True, False, False] = [True, False, True, True]"
  "S 0 [False, False, True, True, False, True] = [True, True, False, True]"
  "S 0 [False, False, True, True, True, False] = [True, False, False, False]"
  "S 0 [False, False, True, True, True, True] = [False, False, False, True]"
  "S 0 [False, True, False, False, False, False] = [False, False, True, True]"
  "S 0 [False, True, False, False, False, True] = [True, False, True, False]"
  "S 0 [False, True, False, False, True, False] = [True, False, True, False]"
  "S 0 [False, True, False, False, True, True] = [False, True, True, False]"
  "S 0 [False, True, False, True, False, False] = [False, True, True, False]"
  "S 0 [False, True, False, True, False, True] = [True, True, False, False]"
  "S 0 [False, True, False, True, True, False] = [True, True, False, False]"
  "S 0 [False, True, False, True, True, True] = [True, False, True, True]"
  "S 0 [False, True, True, False, False, False] = [False, True, False, True]"
  "S 0 [False, True, True, False, False, True] = [True, False, False, True]"
  "S 0 [False, True, True, False, True, False] = [True, False, False, True]"
  "S 0 [False, True, True, False, True, True] = [False, True, False, True]"
  "S 0 [False, True, True, True, False, False] = [False, False, False, False]"
  "S 0 [False, True, True, True, False, True] = [False, False, True, True]"
  "S 0 [False, True, True, True, True, False] = [False, True, True, True]"
  "S 0 [False, True, True, True, True, True] = [True, False, False, False]"
  "S 0 [True, False, False, False, False, False] = [False, True, False, False]"
  "S 0 [True, False, False, False, False, True] = [True, True, True, True]"
  "S 0 [True, False, False, False, True, False] = [False, False, False, True]"
  "S 0 [True, False, False, False, True, True] = [True, True, False, False]"
  "S 0 [True, False, False, True, False, False] = [True, True, True, False]"
  "S 0 [True, False, False, True, False, True] = [True, False, False, False]"
  "S 0 [True, False, False, True, True, False] = [True, False, False, False]"
  "S 0 [True, False, False, True, True, True] = [False, False, True, False]"
  "S 0 [True, False, True, False, False, False] = [True, True, False, True]"
  "S 0 [True, False, True, False, False, True] = [False, True, False, False]"
  "S 0 [True, False, True, False, True, False] = [False, True, True, False]"
  "S 0 [True, False, True, False, True, True] = [True, False, False, True]"
  "S 0 [True, False, True, True, False, False] = [False, False, True, False]"
  "S 0 [True, False, True, True, False, True] = [False, False, False, True]"
  "S 0 [True, False, True, True, True, False] = [True, False, True, True]"
  "S 0 [True, False, True, True, True, True] = [False, True, True, True]"
  "S 0 [True, True, False, False, False, False] = [True, True, True, True]"
  "S 0 [True, True, False, False, False, True] = [False, True, False, True]"
  "S 0 [True, True, False, False, True, False] = [True, True, False, False]"
  "S 0 [True, True, False, False, True, True] = [True, False, True, True]"
  "S 0 [True, True, False, True, False, False] = [True, False, False, True]"
  "S 0 [True, True, False, True, False, True] = [False, False, True, True]"
  "S 0 [True, True, False, True, True, False] = [False, True, True, True]"
  "S 0 [True, True, False, True, True, True] = [True, True, True, False]"
  "S 0 [True, True, True, False, False, False] = [False, False, True, True]"
  "S 0 [True, True, True, False, False, True] = [True, False, True, False]"
  "S 0 [True, True, True, False, True, False] = [True, False, True, False]"
  "S 0 [True, True, True, False, True, True] = [False, False, False, False]"
  "S 0 [True, True, True, True, False, False] = [False, True, False, True]"
  "S 0 [True, True, True, True, False, True] = [False, True, True, False]"
  "S 0 [True, True, True, True, True, False] = [False, False, False, False]"
  "S 0 [True, True, True, True, True, True] = [True, True, False, True]"
  unfolding S_def S_index_def bl_def upt_4 by (simp_all add: sbox_def bit_numeral_simps bit_Suc_0_iff)

lemma S_1:
  "S (Suc 0) [False, False, False, False, False, False] = [True, True, True, True]"
  "S (Suc 0) [False, False, False, False, False, True] = [False, False, True, True]"
  "S (Suc 0) [False, False, False, False, True, False] = [False, False, False, True]"
  "S (Suc 0) [False, False, False, False, True, True] = [True, True, False, True]"
  "S (Suc 0) [False, False, False, True, False, False] = [True, False, False, False]"
  "S (Suc 0) [False, False, False, True, False, True] = [False, True, False, False]"
  "S (Suc 0) [False, False, False, True, True, False] = [True, True, True, False]"
  "S (Suc 0) [False, False, False, True, True, True] = [False, True, True, True]"
  "S (Suc 0) [False, False, True, False, False, False] = [False, True, True, False]"
  "S (Suc 0) [False, False, True, False, False, True] = [True, True, True, True]"
  "S (Suc 0) [False, False, True, False, True, False] = [True, False, True, True]"
  "S (Suc 0) [False, False, True, False, True, True] = [False, False, True, False]"
  "S (Suc 0) [False, False, True, True, False, False] = [False, False, True, True]"
  "S (Suc 0) [False, False, True, True, False, True] = [True, False, False, False]"
  "S (Suc 0) [False, False, True, True, True, False] = [False, True, False, False]"
  "S (Suc 0) [False, False, True, True, True, True] = [True, True, True, False]"
  "S (Suc 0) [False, True, False, False, False, False] = [True, False, False, True]"
  "S (Suc 0) [False, True, False, False, False, True] = [True, True, False, False]"
  "S (Suc 0) [False, True, False, False, True, False] = [False, True, True, True]"
  "S (Suc 0) [False, True, False, False, True, True] = [False, False, False, False]"
  "S (Suc 0) [False, True, False, True, False, False] = [False, False, True, False]"
  "S (Suc 0) [False, True, False, True, False, True] = [False, False, False, True]"
  "S (Suc 0) [False, True, False, True, True, False] = [True, True, False, True]"
  "S (Suc 0) [False, True, False, True, True, True] = [True, False, True, False]"
  "S (Suc 0) [False, True, True, False, False, False] = [True, True, False, False]"
  "S (Suc 0) [False, True, True, False, False, True] = [False, True, True, False]"
  "S (Suc 0) [False, True, True, False, True, False] = [False, False, False, False]"
  "S (Suc 0) [False, True, True, False, True, True] = [True, False, False, True]"
  "S (Suc 0) [False, True, True, True, False, False] = [False, True, False, True]"
  "S (Suc 0) [False, True, True, True, False, True] = [True, False, True, True]"
  "S (Suc 0) [False, True, True, True, True, False] = [True, False, True, False]"
  "S (Suc 0) [False, True, True, True, True, True] = [False, True, False, True]"
  "S (Suc 0) [True, False, False, False, False, False] = [False, False, False, False]"
  "S (Suc 0) [True, False, False, False, False, True] = [True, True, False, True]"
  "S (Suc 0) [True, False, False, False, True, False] = [True, True, True, False]"
  "S (Suc 0) [True, False, False, False, True, True] = [True, False, False, False]"
  "S (Suc 0) [True, False, False, True, False, False] = [False, True, True, True]"
  "S (Suc 0) [True, False, False, True, False, True] = [True, False, True, False]"
  "S (Suc 0) [True, False, False, True, True, False] = [True, False, True, True]"
  "S (Suc 0) [True, False, False, True, True, True] = [False, False, False, True]"
  "S (Suc 0) [True, False, True, False, False, False] = [True, False, True, False]"
  "S (Suc 0) [True, False, True, False, False, True] = [False, False, True, True]"
  "S (Suc 0) [True, False, True, False, True, False] = [False, True, False, False]"
  "S (Suc 0) [True, False, True, False, True, True] = [True, True, True, True]"
  "S (Suc 0) [True, False, True, True, False, False] = [True, True, False, True]"
  "S (Suc 0) [True, False, True, True, False, True] = [False, True, False, False]"
  "S (Suc 0) [True, False, True, True, True, False] = [False, False, False, True]"
  "S (Suc 0) [True, False, True, True, True, True] = [False, False, True, False]"
  "S (Suc 0) [True, True, False, False, False, False] = [False, True, False, True]"
  "S (Suc 0) [True, True, False, False, False, True] = [True, False, True, True]"
  "S (Suc 0) [True, True, False, False, True, False] = [True, False, False, False]"
  "S (Suc 0) [True, True, False, False, True, True] = [False, True, True, False]"
  "S (Suc 0) [True, True, False, True, False, False] = [True, True, False, False]"
  "S (Suc 0) [True, True, False, True, False, True] = [False, True, True, True]"
  "S (Suc 0) [True, True, False, True, True, False] = [False, True, True, False]"
  "S (Suc 0) [True, True, False, True, True, True] = [True, True, False, False]"
  "S (Suc 0) [True, True, True, False, False, False] = [True, False, False, True]"
  "S (Suc 0) [True, True, True, False, False, True] = [False, False, False, False]"
  "S (Suc 0) [True, True, True, False, True, False] = [False, False, True, True]"
  "S (Suc 0) [True, True, True, False, True, True] = [False, True, False, True]"
  "S (Suc 0) [True, True, True, True, False, False] = [False, False, True, False]"
  "S (Suc 0) [True, True, True, True, False, True] = [True, True, True, False]"
  "S (Suc 0) [True, True, True, True, True, False] = [True, True, True, True]"
  "S (Suc 0) [True, True, True, True, True, True] = [True, False, False, True]"
  unfolding S_def S_index_def bl_def upt_4 by (simp_all add: sbox_def bit_numeral_simps bit_Suc_0_iff)

lemma S_2:
  "S 2 [False, False, False, False, False, False] = [True, False, True, False]"
  "S 2 [False, False, False, False, False, True] = [True, True, False, True]"
  "S 2 [False, False, False, False, True, False] = [False, False, False, False]"
  "S 2 [False, False, False, False, True, True] = [False, True, True, True]"
  "S 2 [False, False, False, True, False, False] = [True, False, False, True]"
  "S 2 [False, False, False, True, False, True] = [False, False, False, False]"
  "S 2 [False, False, False, True, True, False] = [True, True, True, False]"
  "S 2 [False, False, False, True, True, True] = [True, False, False, True]"
  "S 2 [False, False, True, False, False, False] = [False, True, True, False]"
  "S 2 [False, False, True, False, False, True] = [False, False, True, True]"
  "S 2 [False, False, True, False, True, False] = [False, False, True, True]"
  "S 2 [False, False, True, False, True, True] = [False, True, False, False]"
  "S 2 [False, False, True, True, False, False] = [True, True, True, True]"
  "S 2 [False, False, True, True, False, True] = [False, True, True, False]"
  "S 2 [False, False, True, True, True, False] = [False, True, False, True]"
  "S 2 [False, False, True, True, True, True] = [True, False, True, False]"
  "S 2 [False, True, False, False, False, False] = [False, False, False, True]"
  "S 2 [False, True, False, False, False, True] = [False, False, True, False]"
  "S 2 [False, True, False, False, True, False] = [True, True, False, True]"
  "S 2 [False, True, False, False, True, True] = [True, False, False, False]"
  "S 2 [False, True, False, True, False, False] = [True, True, False, False]"
  "S 2 [False, True, False, True, False, True] = [False, True, False, True]"
  "S 2 [False, True, False, True, True, False] = [False, True, True, True]"
  "S 2 [False, True, False, True, True, True] = [True, True, True, False]"
  "S 2 [False, True, True, False, False, False] = [True, False, True, True]"
  "S 2 [False, True, True, False, False, True] = [True, True, False, False]"
  "S 2 [False, True, True, False, True, False] = [False, True, False, False]"
  "S 2 [False, True, True, False, True, True] = [True, False, True, True]"
  "S 2 [False, True, True, True, False, False] = [False, False, True, False]"
  "S 2 [False, True, True, True, False, True] = [True, True, True, True]"
  "S 2 [False, True, True, True, True, False] = [True, False, False, False]"
  "S 2 [False, True, True, True, True, True] = [False, False, False, True]"
  "S 2 [True, False, False, False, False, False] = [True, True, False, True]"
  "S 2 [True, False, False, False, False, True] = [False, False, False, True]"
  "S 2 [True, False, False, False, True, False] = [False, True, True, False]"
  "S 2 [True, False, False, False, True, True] = [True, False, True, False]"
  "S 2 [True, False, False, True, False, False] = [False, True, False, False]"
  "S 2 [True, False, False, True, False, True] = [True, True, False, True]"
  "S 2 [True, False, False, True, True, False] = [True, False, False, True]"
  "S 2 [True, False, False, True, True, True] = [False, False, False, False]"
  "S 2 [True, False, True, False, False, False] = [True, False, False, False]"
  "S 2 [True, False, True, False, False, True] = [False, True, True, False]"
  "S 2 [True, False, True, False, True, False] = [True, True, True, True]"
  "S 2 [True, False, True, False, True, True] = [True, False, False, True]"
  "S 2 [True, False, True, True, False, False] = [False, False, True, True]"
  "S 2 [True, False, True, True, False, True] = [True, False, False, False]"
  "S 2 [True, False, True, True, True, False] = [False, False, False, False]"
  "S 2 [True, False, True, True, True, True] = [False, True, True, True]"
  "S 2 [True, True, False, False, False, False] = [True, False, True, True]"
  "S 2 [True, True, False, False, False, True] = [False, True, False, False]"
  "S 2 [True, True, False, False, True, False] = [False, False, False, True]"
  "S 2 [True, True, False, False, True, True] = [True, True, True, True]"
  "S 2 [True, True, False, True, False, False] = [False, False, True, False]"
  "S 2 [True, True, False, True, False, True] = [True, True, True, False]"
  "S 2 [True, True, False, True, True, False] = [True, True, False, False]"
  "S 2 [True, True, False, True, True, True] = [False, False, True, True]"
  "S 2 [True, True, True, False, False, False] = [False, True, False, True]"
  "S 2 [True, True, True, False, False, True] = [True, False, True, True]"
  "S 2 [True, True, True, False, True, False] = [True, False, True, False]"
  "S 2 [True, True, True, False, True, True] = [False, True, False, True]"
  "S 2 [True, True, True, True, False, False] = [True, True, True, False]"
  "S 2 [True, True, True, True, False, True] = [False, False, True, False]"
  "S 2 [True, True, True, True, True, False] = [False, True, True, True]"
  "S 2 [True, True, True, True, True, True] = [True, True, False, False]"
  unfolding S_def S_index_def bl_def upt_4 by (simp_all add: sbox_def bit_numeral_simps bit_Suc_0_iff)

lemma S_3:
  "S 3 [False, False, False, False, False, False] = [False, True, True, True]"
  "S 3 [False, False, False, False, False, True] = [True, True, False, True]"
  "S 3 [False, False, False, False, True, False] = [True, True, False, True]"
  "S 3 [False, False, False, False, True, True] = [True, False, False, False]"
  "S 3 [False, False, False, True, False, False] = [True, True, True, False]"
  "S 3 [False, False, False, True, False, True] = [True, False, True, True]"
  "S 3 [False, False, False, True, True, False] = [False, False, True, True]"
  "S 3 [False, False, False, True, True, True] = [False, True, False, True]"
  "S 3 [False, False, True, False, False, False] = [False, False, False, False]"
  "S 3 [False, False, True, False, False, True] = [False, True, True, False]"
  "S 3 [False, False, True, False, True, False] = [False, True, True, False]"
  "S 3 [False, False, True, False, True, True] = [True, True, True, True]"
  "S 3 [False, False, True, True, False, False] = [True, False, False, True]"
  "S 3 [False, False, True, True, False, True] = [False, False, False, False]"
  "S 3 [False, False, True, True, True, False] = [True, False, True, False]"
  "S 3 [False, False, True, True, True, True] = [False, False, True, True]"
  "S 3 [False, True, False, False, False, False] = [False, False, False, True]"
  "S 3 [False, True, False, False, False, True] = [False, True, False, False]"
  "S 3 [False, True, False, False, True, False] = [False, False, True, False]"
  "S 3 [False, True, False, False, True, True] = [False, True, True, True]"
  "S 3 [False, True, False, True, False, False] = [True, False, False, False]"
  "S 3 [False, True, False, True, False, True] = [False, False, True, False]"
  "S 3 [False, True, False, True, True, False] = [False, True, False, True]"
  "S 3 [False, True, False, True, True, True] = [True, True, False, False]"
  "S 3 [False, True, True, False, False, False] = [True, False, True, True]"
  "S 3 [False, True, True, False, False, True] = [False, False, False, True]"
  "S 3 [False, True, True, False, True, False] = [True, True, False, False]"
  "S 3 [False, True, True, False, True, True] = [True, False, True, False]"
  "S 3 [False, True, True, True, False, False] = [False, True, False, False]"
  "S 3 [False, True, True, True, False, True] = [True, True, True, False]"
  "S 3 [False, True, True, True, True, False] = [True, True, True, True]"
  "S 3 [False, True, True, True, True, True] = [True, False, False, True]"
  "S 3 [True, False, False, False, False, False] = [True, False, True, False]"
  "S 3 [True, False, False, False, False, True] = [False, False, True, True]"
  "S 3 [True, False, False, False, True, False] = [False, True, True, False]"
  "S 3 [True, False, False, False, True, True] = [True, True, True, True]"
  "S 3 [True, False, False, True, False, False] = [True, False, False, True]"
  "S 3 [True, False, False, True, False, True] = [False, False, False, False]"
  "S 3 [True, False, False, True, True, False] = [False, False, False, False]"
  "S 3 [True, False, False, True, True, True] = [False, True, True, False]"
  "S 3 [True, False, True, False, False, False] = [True, True, False, False]"
  "S 3 [True, False, True, False, False, True] = [True, False, True, False]"
  "S 3 [True, False, True, False, True, False] = [True, False, True, True]"
  "S 3 [True, False, True, False, True, True] = [False, False, False, True]"
  "S 3 [True, False, True, True, False, False] = [False, True, True, True]"
  "S 3 [True, False, True, True, False, True] = [True, True, False, True]"
  "S 3 [True, False, True, True, True, False] = [True, True, False, True]"
  "S 3 [True, False, True, True, True, True] = [True, False, False, False]"
  "S 3 [True, True, False, False, False, False] = [True, True, True, True]"
  "S 3 [True, True, False, False, False, True] = [True, False, False, True]"
  "S 3 [True, True, False, False, True, False] = [False, False, False, True]"
  "S 3 [True, True, False, False, True, True] = [False, True, False, False]"
  "S 3 [True, True, False, True, False, False] = [False, False, True, True]"
  "S 3 [True, True, False, True, False, True] = [False, True, False, True]"
  "S 3 [True, True, False, True, True, False] = [True, True, True, False]"
  "S 3 [True, True, False, True, True, True] = [True, False, True, True]"
  "S 3 [True, True, True, False, False, False] = [False, True, False, True]"
  "S 3 [True, True, True, False, False, True] = [True, True, False, False]"
  "S 3 [True, True, True, False, True, False] = [False, False, True, False]"
  "S 3 [True, True, True, False, True, True] = [False, True, True, True]"
  "S 3 [True, True, True, True, False, False] = [True, False, False, False]"
  "S 3 [True, True, True, True, False, True] = [False, False, True, False]"
  "S 3 [True, True, True, True, True, False] = [False, True, False, False]"
  "S 3 [True, True, True, True, True, True] = [True, True, True, False]"
  unfolding S_def S_index_def bl_def upt_4 by (simp_all add: sbox_def bit_numeral_simps bit_Suc_0_iff)

lemma S_4:
  "S 4 [False, False, False, False, False, False] = [False, False, True, False]"
  "S 4 [False, False, False, False, False, True] = [True, True, True, False]"
  "S 4 [False, False, False, False, True, False] = [True, True, False, False]"
  "S 4 [False, False, False, False, True, True] = [True, False, True, True]"
  "S 4 [False, False, False, True, False, False] = [False, True, False, False]"
  "S 4 [False, False, False, True, False, True] = [False, False, True, False]"
  "S 4 [False, False, False, True, True, False] = [False, False, False, True]"
  "S 4 [False, False, False, True, True, True] = [True, True, False, False]"
  "S 4 [False, False, True, False, False, False] = [False, True, True, True]"
  "S 4 [False, False, True, False, False, True] = [False, True, False, False]"
  "S 4 [False, False, True, False, True, False] = [True, False, True, False]"
  "S 4 [False, False, True, False, True, True] = [False, True, True, True]"
  "S 4 [False, False, True, True, False, False] = [True, False, True, True]"
  "S 4 [False, False, True, True, False, True] = [True, True, False, True]"
  "S 4 [False, False, True, True, True, False] = [False, True, True, False]"
  "S 4 [False, False, True, True, True, True] = [False, False, False, True]"
  "S 4 [False, True, False, False, False, False] = [True, False, False, False]"
  "S 4 [False, True, False, False, False, True] = [False, True, False, True]"
  "S 4 [False, True, False, False, True, False] = [False, True, False, True]"
  "S 4 [False, True, False, False, True, True] = [False, False, False, False]"
  "S 4 [False, True, False, True, False, False] = [False, False, True, True]"
  "S 4 [False, True, False, True, False, True] = [True, True, True, True]"
  "S 4 [False, True, False, True, True, False] = [True, True, True, True]"
  "S 4 [False, True, False, True, True, True] = [True, False, True, False]"
  "S 4 [False, True, True, False, False, False] = [True, True, False, True]"
  "S 4 [False, True, True, False, False, True] = [False, False, True, True]"
  "S 4 [False, True, True, False, True, False] = [False, False, False, False]"
  "S 4 [False, True, True, False, True, True] = [True, False, False, True]"
  "S 4 [False, True, True, True, False, False] = [True, True, True, False]"
  "S 4 [False, True, True, True, False, True] = [True, False, False, False]"
  "S 4 [False, True, True, True, True, False] = [True, False, False, True]"
  "S 4 [False, True, True, True, True, True] = [False, True, True, False]"
  "S 4 [True, False, False, False, False, False] = [False, True, False, False]"
  "S 4 [True, False, False, False, False, True] = [True, False, True, True]"
  "S 4 [True, False, False, False, True, False] = [False, False, True, False]"
  "S 4 [True, False, False, False, True, True] = [True, False, False, False]"
  "S 4 [True, False, False, True, False, False] = [False, False, False, True]"
  "S 4 [True, False, False, True, False, True] = [True, True, False, False]"
  "S 4 [True, False, False, True, True, False] = [True, False, True, True]"
  "S 4 [True, False, False, True, True, True] = [False, True, True, True]"
  "S 4 [True, False, True, False, False, False] = [True, False, True, False]"
  "S 4 [True, False, True, False, False, True] = [False, False, False, True]"
  "S 4 [True, False, True, False, True, False] = [True, True, False, True]"
  "S 4 [True, False, True, False, True, True] = [True, True, True, False]"
  "S 4 [True, False, True, True, False, False] = [False, True, True, True]"
  "S 4 [True, False, True, True, False, True] = [False, False, True, False]"
  "S 4 [True, False, True, True, True, False] = [True, False, False, False]"
  "S 4 [True, False, True, True, True, True] = [True, True, False, True]"
  "S 4 [True, True, False, False, False, False] = [True, True, True, True]"
  "S 4 [True, True, False, False, False, True] = [False, True, True, False]"
  "S 4 [True, True, False, False, True, False] = [True, False, False, True]"
  "S 4 [True, True, False, False, True, True] = [True, True, True, True]"
  "S 4 [True, True, False, True, False, False] = [True, True, False, False]"
  "S 4 [True, True, False, True, False, True] = [False, False, False, False]"
  "S 4 [True, True, False, True, True, False] = [False, True, False, True]"
  "S 4 [True, True, False, True, True, True] = [True, False, False, True]"
  "S 4 [True, True, True, False, False, False] = [False, True, True, False]"
  "S 4 [True, True, True, False, False, True] = [True, False, True, False]"
  "S 4 [True, True, True, False, True, False] = [False, False, True, True]"
  "S 4 [True, True, True, False, True, True] = [False, True, False, False]"
  "S 4 [True, True, True, True, False, False] = [False, False, False, False]"
  "S 4 [True, True, True, True, False, True] = [False, True, False, True]"
  "S 4 [True, True, True, True, True, False] = [True, True, True, False]"
  "S 4 [True, True, True, True, True, True] = [False, False, True, True]"
  unfolding S_def S_index_def bl_def upt_4 by (simp_all add: sbox_def bit_numeral_simps bit_Suc_0_iff)

lemma S_5:
  "S 5 [False, False, False, False, False, False] = [True, True, False, False]"
  "S 5 [False, False, False, False, False, True] = [True, False, True, False]"
  "S 5 [False, False, False, False, True, False] = [False, False, False, True]"
  "S 5 [False, False, False, False, True, True] = [True, True, True, True]"
  "S 5 [False, False, False, True, False, False] = [True, False, True, False]"
  "S 5 [False, False, False, True, False, True] = [False, True, False, False]"
  "S 5 [False, False, False, True, True, False] = [True, True, True, True]"
  "S 5 [False, False, False, True, True, True] = [False, False, True, False]"
  "S 5 [False, False, True, False, False, False] = [True, False, False, True]"
  "S 5 [False, False, True, False, False, True] = [False, True, True, True]"
  "S 5 [False, False, True, False, True, False] = [False, False, True, False]"
  "S 5 [False, False, True, False, True, True] = [True, True, False, False]"
  "S 5 [False, False, True, True, False, False] = [False, True, True, False]"
  "S 5 [False, False, True, True, False, True] = [True, False, False, True]"
  "S 5 [False, False, True, True, True, False] = [True, False, False, False]"
  "S 5 [False, False, True, True, True, True] = [False, True, False, True]"
  "S 5 [False, True, False, False, False, False] = [False, False, False, False]"
  "S 5 [False, True, False, False, False, True] = [False, True, True, False]"
  "S 5 [False, True, False, False, True, False] = [True, True, False, True]"
  "S 5 [False, True, False, False, True, True] = [False, False, False, True]"
  "S 5 [False, True, False, True, False, False] = [False, False, True, True]"
  "S 5 [False, True, False, True, False, True] = [True, True, False, True]"
  "S 5 [False, True, False, True, True, False] = [False, True, False, False]"
  "S 5 [False, True, False, True, True, True] = [True, True, True, False]"
  "S 5 [False, True, True, False, False, False] = [True, True, True, False]"
  "S 5 [False, True, True, False, False, True] = [False, False, False, False]"
  "S 5 [False, True, True, False, True, False] = [False, True, True, True]"
  "S 5 [False, True, True, False, True, True] = [True, False, True, True]"
  "S 5 [False, True, True, True, False, False] = [False, True, False, True]"
  "S 5 [False, True, True, True, False, True] = [False, False, True, True]"
  "S 5 [False, True, True, True, True, False] = [True, False, True, True]"
  "S 5 [False, True, True, True, True, True] = [True, False, False, False]"
  "S 5 [True, False, False, False, False, False] = [True, False, False, True]"
  "S 5 [True, False, False, False, False, True] = [False, True, False, False]"
  "S 5 [True, False, False, False, True, False] = [True, True, True, False]"
  "S 5 [True, False, False, False, True, True] = [False, False, True, True]"
  "S 5 [True, False, False, True, False, False] = [True, True, True, True]"
  "S 5 [True, False, False, True, False, True] = [False, False, True, False]"
  "S 5 [True, False, False, True, True, False] = [False, True, False, True]"
  "S 5 [True, False, False, True, True, True] = [True, True, False, False]"
  "S 5 [True, False, True, False, False, False] = [False, False, True, False]"
  "S 5 [True, False, True, False, False, True] = [True, False, False, True]"
  "S 5 [True, False, True, False, True, False] = [True, False, False, False]"
  "S 5 [True, False, True, False, True, True] = [False, True, False, True]"
  "S 5 [True, False, True, True, False, False] = [True, True, False, False]"
  "S 5 [True, False, True, True, False, True] = [True, True, True, True]"
  "S 5 [True, False, True, True, True, False] = [False, False, True, True]"
  "S 5 [True, False, True, True, True, True] = [True, False, True, False]"
  "S 5 [True, True, False, False, False, False] = [False, True, True, True]"
  "S 5 [True, True, False, False, False, True] = [True, False, True, True]"
  "S 5 [True, True, False, False, True, False] = [False, False, False, False]"
  "S 5 [True, True, False, False, True, True] = [True, True, True, False]"
  "S 5 [True, True, False, True, False, False] = [False, True, False, False]"
  "S 5 [True, True, False, True, False, True] = [False, False, False, True]"
  "S 5 [True, True, False, True, True, False] = [True, False, True, False]"
  "S 5 [True, True, False, True, True, True] = [False, True, True, True]"
  "S 5 [True, True, True, False, False, False] = [False, False, False, True]"
  "S 5 [True, True, True, False, False, True] = [False, True, True, False]"
  "S 5 [True, True, True, False, True, False] = [True, True, False, True]"
  "S 5 [True, True, True, False, True, True] = [False, False, False, False]"
  "S 5 [True, True, True, True, False, False] = [True, False, True, True]"
  "S 5 [True, True, True, True, False, True] = [True, False, False, False]"
  "S 5 [True, True, True, True, True, False] = [False, True, True, False]"
  "S 5 [True, True, True, True, True, True] = [True, True, False, True]"
  unfolding S_def S_index_def bl_def upt_4 by (simp_all add: sbox_def bit_numeral_simps bit_Suc_0_iff)

lemma S_6:
  "S 6 [False, False, False, False, False, False] = [False, True, False, False]"
  "S 6 [False, False, False, False, False, True] = [True, True, False, True]"
  "S 6 [False, False, False, False, True, False] = [True, False, True, True]"
  "S 6 [False, False, False, False, True, True] = [False, False, False, False]"
  "S 6 [False, False, False, True, False, False] = [False, False, True, False]"
  "S 6 [False, False, False, True, False, True] = [True, False, True, True]"
  "S 6 [False, False, False, True, True, False] = [True, True, True, False]"
  "S 6 [False, False, False, True, True, True] = [False, True, True, True]"
  "S 6 [False, False, True, False, False, False] = [True, True, True, True]"
  "S 6 [False, False, True, False, False, True] = [False, True, False, False]"
  "S 6 [False, False, True, False, True, False] = [False, False, False, False]"
  "S 6 [False, False, True, False, True, True] = [True, False, False, True]"
  "S 6 [False, False, True, True, False, False] = [True, False, False, False]"
  "S 6 [False, False, True, True, False, True] = [False, False, False, True]"
  "S 6 [False, False, True, True, True, False] = [True, True, False, True]"
  "S 6 [False, False, True, True, True, True] = [True, False, True, False]"
  "S 6 [False, True, False, False, False, False] = [False, False, True, True]"
  "S 6 [False, True, False, False, False, True] = [True, True, True, False]"
  "S 6 [False, True, False, False, True, False] = [True, True, False, False]"
  "S 6 [False, True, False, False, True, True] = [False, False, True, True]"
  "S 6 [False, True, False, True, False, False] = [True, False, False, True]"
  "S 6 [False, True, False, True, False, True] = [False, True, False, True]"
  "S 6 [False, True, False, True, True, False] = [False, True, True, True]"
  "S 6 [False, True, False, True, True, True] = [True, True, False, False]"
  "S 6 [False, True, True, False, False, False] = [False, True, False, True]"
  "S 6 [False, True, True, False, False, True] = [False, False, True, False]"
  "S 6 [False, True, True, False, True, False] = [True, False, True, False]"
  "S 6 [False, True, True, False, True, True] = [True, True, True, True]"
  "S 6 [False, True, True, True, False, False] = [False, True, True, False]"
  "S 6 [False, True, True, True, False, True] = [True, False, False, False]"
  "S 6 [False, True, True, True, True, False] = [False, False, False, True]"
  "S 6 [False, True, True, True, True, True] = [False, True, True, False]"
  "S 6 [True, False, False, False, False, False] = [False, False, False, True]"
  "S 6 [True, False, False, False, False, True] = [False, True, True, False]"
  "S 6 [True, False, False, False, True, False] = [False, True, False, False]"
  "S 6 [True, False, False, False, True, True] = [True, False, True, True]"
  "S 6 [True, False, False, True, False, False] = [True, False, True, True]"
  "S 6 [True, False, False, True, False, True] = [True, True, False, True]"
  "S 6 [True, False, False, True, True, False] = [True, True, False, True]"
  "S 6 [True, False, False, True, True, True] = [True, False, False, False]"
  "S 6 [True, False, True, False, False, False] = [True, True, False, False]"
  "S 6 [True, False, True, False, False, True] = [False, False, False, True]"
  "S 6 [True, False, True, False, True, False] = [False, False, True, True]"
  "S 6 [True, False, True, False, True, True] = [False, True, False, False]"
  "S 6 [True, False, True, True, False, False] = [False, True, True, True]"
  "S 6 [True, False, True, True, False, True] = [True, False, True, False]"
  "S 6 [True, False, True, True, True, False] = [True, True, True, False]"
  "S 6 [True, False, True, True, True, True] = [False, True, True, True]"
  "S 6 [True, True, False, False, False, False] = [True, False, True, False]"
  "S 6 [True, True, False, False, False, True] = [True, False, False, True]"
  "S 6 [True, True, False, False, True, False] = [True, True, True, True]"
  "S 6 [True, True, False, False, True, True] = [False, True, False, True]"
  "S 6 [True, True, False, True, False, False] = [False, True, True, False]"
  "S 6 [True, True, False, True, False, True] = [False, False, False, False]"
  "S 6 [True, True, False, True, True, False] = [True, False, False, False]"
  "S 6 [True, True, False, True, True, True] = [True, True, True, True]"
  "S 6 [True, True, True, False, False, False] = [False, False, False, False]"
  "S 6 [True, True, True, False, False, True] = [True, True, True, False]"
  "S 6 [True, True, True, False, True, False] = [False, True, False, True]"
  "S 6 [True, True, True, False, True, True] = [False, False, True, False]"
  "S 6 [True, True, True, True, False, False] = [True, False, False, True]"
  "S 6 [True, True, True, True, False, True] = [False, False, True, True]"
  "S 6 [True, True, True, True, True, False] = [False, False, True, False]"
  "S 6 [True, True, True, True, True, True] = [True, True, False, False]"
  unfolding S_def S_index_def bl_def upt_4 by (simp_all add: sbox_def bit_numeral_simps bit_Suc_0_iff)

lemma S_7:
  "S 7 [False, False, False, False, False, False] = [True, True, False, True]"
  "S 7 [False, False, False, False, False, True] = [False, False, False, True]"
  "S 7 [False, False, False, False, True, False] = [False, False, True, False]"
  "S 7 [False, False, False, False, True, True] = [True, True, True, True]"
  "S 7 [False, False, False, True, False, False] = [True, False, False, False]"
  "S 7 [False, False, False, True, False, True] = [True, True, False, True]"
  "S 7 [False, False, False, True, True, False] = [False, True, False, False]"
  "S 7 [False, False, False, True, True, True] = [True, False, False, False]"
  "S 7 [False, False, True, False, False, False] = [False, True, True, False]"
  "S 7 [False, False, True, False, False, True] = [True, False, True, False]"
  "S 7 [False, False, True, False, True, False] = [True, True, True, True]"
  "S 7 [False, False, True, False, True, True] = [False, False, True, True]"
  "S 7 [False, False, True, True, False, False] = [True, False, True, True]"
  "S 7 [False, False, True, True, False, True] = [False, True, True, True]"
  "S 7 [False, False, True, True, True, False] = [False, False, False, True]"
  "S 7 [False, False, True, True, True, True] = [False, True, False, False]"
  "S 7 [False, True, False, False, False, False] = [True, False, True, False]"
  "S 7 [False, True, False, False, False, True] = [True, True, False, False]"
  "S 7 [False, True, False, False, True, False] = [True, False, False, True]"
  "S 7 [False, True, False, False, True, True] = [False, True, False, True]"
  "S 7 [False, True, False, True, False, False] = [False, False, True, True]"
  "S 7 [False, True, False, True, False, True] = [False, True, True, False]"
  "S 7 [False, True, False, True, True, False] = [True, True, True, False]"
  "S 7 [False, True, False, True, True, True] = [True, False, True, True]"
  "S 7 [False, True, True, False, False, False] = [False, True, False, True]"
  "S 7 [False, True, True, False, False, True] = [False, False, False, False]"
  "S 7 [False, True, True, False, True, False] = [False, False, False, False]"
  "S 7 [False, True, True, False, True, True] = [True, True, True, False]"
  "S 7 [False, True, True, True, False, False] = [True, True, False, False]"
  "S 7 [False, True, True, True, False, True] = [True, False, False, True]"
  "S 7 [False, True, True, True, True, False] = [False, True, True, True]"
  "S 7 [False, True, True, True, True, True] = [False, False, True, False]"
  "S 7 [True, False, False, False, False, False] = [False, True, True, True]"
  "S 7 [True, False, False, False, False, True] = [False, False, True, False]"
  "S 7 [True, False, False, False, True, False] = [True, False, True, True]"
  "S 7 [True, False, False, False, True, True] = [False, False, False, True]"
  "S 7 [True, False, False, True, False, False] = [False, True, False, False]"
  "S 7 [True, False, False, True, False, True] = [True, True, True, False]"
  "S 7 [True, False, False, True, True, False] = [False, False, False, True]"
  "S 7 [True, False, False, True, True, True] = [False, True, True, True]"
  "S 7 [True, False, True, False, False, False] = [True, False, False, True]"
  "S 7 [True, False, True, False, False, True] = [False, True, False, False]"
  "S 7 [True, False, True, False, True, False] = [True, True, False, False]"
  "S 7 [True, False, True, False, True, True] = [True, False, True, False]"
  "S 7 [True, False, True, True, False, False] = [True, True, True, False]"
  "S 7 [True, False, True, True, False, True] = [True, False, False, False]"
  "S 7 [True, False, True, True, True, False] = [False, False, True, False]"
  "S 7 [True, False, True, True, True, True] = [True, True, False, True]"
  "S 7 [True, True, False, False, False, False] = [False, False, False, False]"
  "S 7 [True, True, False, False, False, True] = [True, True, True, True]"
  "S 7 [True, True, False, False, True, False] = [False, True, True, False]"
  "S 7 [True, True, False, False, True, True] = [True, True, False, False]"
  "S 7 [True, True, False, True, False, False] = [True, False, True, False]"
  "S 7 [True, True, False, True, False, True] = [True, False, False, True]"
  "S 7 [True, True, False, True, True, False] = [True, True, False, True]"
  "S 7 [True, True, False, True, True, True] = [False, False, False, False]"
  "S 7 [True, True, True, False, False, False] = [True, True, True, True]"
  "S 7 [True, True, True, False, False, True] = [False, False, True, True]"
  "S 7 [True, True, True, False, True, False] = [False, False, True, True]"
  "S 7 [True, True, True, False, True, True] = [False, True, False, True]"
  "S 7 [True, True, True, True, False, False] = [False, True, False, True]"
  "S 7 [True, True, True, True, False, True] = [False, True, True, False]"
  "S 7 [True, True, True, True, True, False] = [True, False, False, False]"
  "S 7 [True, True, True, True, True, True] = [True, False, True, True]"
  unfolding S_def S_index_def bl_def upt_4 by (simp_all add: sbox_def bit_numeral_simps bit_Suc_0_iff)

section \<open>The key schedule and the rounds\<close>

lemma upt_8: "[0..<8] = [0, 1, 2, 3, 4, 5, 6, 7 :: nat]"
  by (simp add: upt_rec)

lemma halves_56:
  "take 28 [x1, x2, x3, x4, x5, x6, x7, x8, x9, x10, x11, x12, x13, x14, x15, x16, x17, x18, x19, x20, x21, x22,
     x23, x24, x25, x26, x27, x28, x29, x30, x31, x32, x33, x34, x35, x36, x37, x38, x39, x40, x41, x42, x43,
     x44, x45, x46, x47, x48, x49, x50, x51, x52, x53, x54, x55, x56] =
   [x1, x2, x3, x4, x5, x6, x7, x8, x9, x10, x11, x12, x13, x14, x15, x16, x17, x18, x19, x20, x21, x22,
     x23, x24, x25, x26, x27, x28]"
  "drop 28 [x1, x2, x3, x4, x5, x6, x7, x8, x9, x10, x11, x12, x13, x14, x15, x16, x17, x18, x19, x20, x21, x22,
     x23, x24, x25, x26, x27, x28, x29, x30, x31, x32, x33, x34, x35, x36, x37, x38, x39, x40, x41, x42, x43,
     x44, x45, x46, x47, x48, x49, x50, x51, x52, x53, x54, x55, x56] =
   [x29, x30, x31, x32, x33, x34, x35, x36, x37, x38, x39, x40, x41, x42, x43, x44, x45, x46, x47, x48, x49,
     x50, x51, x52, x53, x54, x55, x56]"
  by simp_all

definition rtems_keys :: "bits list" where
  "rtems_keys = [
   [True, False, True, False, False, True, True, False, True, True, False, False, True, True, True, True,
     False, False, False, True, False, False, True, False, False, True, True, False, False, False, False,
     False, False, False, True, True, False, True, True, False, False, False, False, False, True, False, False,
     True],
   [True, False, True, False, False, True, True, False, False, True, True, True, False, False, True, True,
     False, False, False, False, False, False, True, True, False, False, True, False, True, False, True, False,
     True, False, False, True, False, True, False, False, False, False, False, True, False, False, False,
     True],
   [False, False, True, False, True, False, True, True, False, False, False, True, False, True, True, True,
     False, True, True, False, False, True, False, True, False, False, False, False, True, False, True, True,
     False, True, False, False, False, True, False, True, False, False, True, False, False, True, True, False],
   [True, True, False, False, True, False, False, True, False, True, False, True, False, False, False, False,
     True, True, False, True, True, False, False, True, False, False, False, False, True, True, False, False,
     False, True, False, False, True, False, False, True, True, False, False, False, False, False, False,
     False],
   [False, False, False, True, False, True, False, True, True, True, False, False, False, False, True, True,
     True, True, True, True, True, False, False, False, True, True, False, False, False, False, False, False,
     False, True, False, False, False, False, False, False, False, True, False, True, False, True, False,
     True],
   [True, False, False, True, False, True, True, False, False, True, False, True, True, False, False, True,
     True, False, False, False, False, False, True, True, True, True, False, False, False, False, True, True,
     True, False, False, False, False, False, True, False, True, False, False, False, True, False, False,
     False],
   [False, False, True, True, True, False, True, True, False, False, True, False, True, False, True, True,
     False, True, False, False, False, True, False, True, True, False, False, True, False, False, False, False,
     False, False, False, True, False, True, True, True, False, False, False, False, True, False, False, True],
   [False, False, False, False, True, False, False, True, False, True, True, True, False, True, False, False,
     True, False, False, False, True, True, False, True, False, False, False, True, True, False, True, False,
     False, False, False, True, False, False, True, False, False, False, True, False, False, True, False,
     False],
   [False, True, False, False, True, True, False, True, False, False, True, False, False, True, False, False,
     True, True, False, False, True, True, False, False, False, False, False, False, True, False, False, False,
     False, True, False, False, False, False, False, False, True, True, True, False, False, True, True, False],
   [False, True, False, True, False, False, True, False, True, True, False, False, True, True, False, False,
     True, False, True, True, True, False, False, False, False, False, False, False, False, True, False, False,
     True, True, True, False, True, False, False, False, True, False, False, False, False, True, False, True],
   [True, True, False, True, True, True, False, False, True, False, True, False, True, False, False, True,
     False, False, True, False, False, False, True, False, True, False, True, False, False, False, True, False,
     False, False, False, False, False, True, False, False, True, True, False, True, False, False, False,
     True],
   [True, False, True, False, False, False, True, False, True, False, True, False, True, True, True, False,
     False, False, False, False, True, True, True, True, True, False, False, False, True, False, True, True,
     True, False, False, False, False, False, True, True, False, False, False, False, False, False, True,
     True],
   [False, True, True, False, True, False, False, True, False, False, True, True, False, True, True, False,
     False, False, False, False, False, True, True, False, False, False, False, True, False, True, True, False,
     False, True, False, False, False, True, True, True, False, False, False, False, False, False, False,
     False],
   [False, True, True, False, False, False, False, False, True, False, False, True, True, True, False, False,
     True, True, True, True, True, False, False, False, False, True, False, True, True, False, False, False,
     False, False, False, False, False, False, False, True, False, True, False, False, False, True, False,
     False],
   [True, True, False, True, False, True, False, False, True, True, True, False, False, False, False, False,
     False, True, True, True, False, False, True, False, True, True, False, False, False, False, False, False,
     True, True, True, False, False, False, False, False, True, False, False, False, True, False, False, False],
   [True, False, False, True, False, True, False, False, True, True, False, False, True, False, True, True,
     False, True, True, True, False, True, True, False, False, False, False, False, False, False, False, True,
     True, False, True, False, True, True, False, False, True, True, False, False, True, False, False, True]]"

lemma crypt_key_rtems: "crypt_key (of_string ''rtems'') = [228, 232, 202, 218, 230, 0, 0, 0]"
  by code_simp

lemma key_bits_rtems:
  "concat (map (bl 8) [228, 232, 202, 218, 230, 0, 0, 0 :: u8]) =
   [True, True, True, False, False, True, False, False, True, True, True, False, True, False, False, False,
     True, True, False, False, True, False, True, False, True, True, False, True, True, False, True, False,
     True, True, True, False, False, True, True, False, False, False, False, False, False, False, False, False,
     False, False, False, False, False, False, False, False, False, False, False, False, False, False, False,
     False]"
  unfolding bl_def upt_8 by (simp add: bit_numeral_simps)

lemma std_key_schedule_rtems: "std_key_schedule (concat (map (bl 8) (crypt_key (of_string ''rtems'')))) = rtems_keys"
  unfolding crypt_key_rtems key_bits_rtems std_key_schedule_def permute_PC1 key_shifts_def rtems_keys_def
  by (simp only: std_subkeys.simps halves_56 permute_PC2 rotate_1 rotate_2 Let_def One_nat_def append_Cons append_Nil)

lemma std_round_td:
  "std_round td_salt [k1, k2, k3, k4, k5, k6, k7, k8, k9, k10, k11, k12, k13, k14, k15, k16, k17, k18, k19, k20, k21, k22,
     k23, k24, k25, k26, k27, k28, k29, k30, k31, k32, k33, k34, k35, k36, k37, k38, k39, k40, k41, k42, k43,
     k44, k45, k46, k47, k48]
     ([l1, l2, l3, l4, l5, l6, l7, l8, l9, l10, l11, l12, l13, l14, l15, l16, l17, l18, l19, l20, l21, l22,
     l23, l24, l25, l26, l27, l28, l29, l30, l31, l32],
      [r1, r2, r3, r4, r5, r6, r7, r8, r9, r10, r11, r12, r13, r14, r15, r16, r17, r18, r19, r20, r21, r22,
     r23, r24, r25, r26, r27, r28, r29, r30, r31, r32]) =
   ([r1, r2, r3, r4, r5, r6, r7, r8, r9, r10, r11, r12, r13, r14, r15, r16, r17, r18, r19, r20, r21, r22,
     r23, r24, r25, r26, r27, r28, r29, r30, r31, r32],
    xor_bits [l1, l2, l3, l4, l5, l6, l7, l8, l9, l10, l11, l12, l13, l14, l15, l16, l17, l18, l19, l20, l21, l22,
     l23, l24, l25, l26, l27, l28, l29, l30, l31, l32] (permute pbox (S 0 [(r16 \<noteq> k1), (r1 \<noteq> k2), (r2 \<noteq> k3), (r19 \<noteq> k4), (r20 \<noteq> k5), (r21 \<noteq> k6)] @ S 1 [(r20 \<noteq> k7), (r5 \<noteq> k8), (r6 \<noteq> k9), (r23 \<noteq> k10), (r8 \<noteq> k11), (r25 \<noteq> k12)] @ S 2 [(r8 \<noteq> k13), (r9 \<noteq> k14), (r10 \<noteq> k15), (r11 \<noteq> k16), (r12 \<noteq> k17), (r13 \<noteq> k18)] @ S 3 [(r12 \<noteq> k19), (r13 \<noteq> k20), (r14 \<noteq> k21), (r15 \<noteq> k22), (r16 \<noteq> k23), (r17 \<noteq> k24)] @ S 4 [(r32 \<noteq> k25), (r17 \<noteq> k26), (r18 \<noteq> k27), (r3 \<noteq> k28), (r4 \<noteq> k29), (r5 \<noteq> k30)] @ S 5 [(r4 \<noteq> k31), (r21 \<noteq> k32), (r22 \<noteq> k33), (r7 \<noteq> k34), (r24 \<noteq> k35), (r9 \<noteq> k36)] @ S 6 [(r24 \<noteq> k37), (r25 \<noteq> k38), (r26 \<noteq> k39), (r27 \<noteq> k40), (r28 \<noteq> k41), (r29 \<noteq> k42)] @ S 7 [(r28 \<noteq> k43), (r29 \<noteq> k44), (r30 \<noteq> k45), (r31 \<noteq> k46), (r32 \<noteq> k47), (r1 \<noteq> k48)])))"
  unfolding std_round_def cipher_def Let_def fst_conv snd_conv permute_E salted_td xor_bits_48 eight_S by simp

lemmas td_rules = std_round_td permute_P xor_bits_32 S_0 S_1 S_2 S_3 S_4 S_5 S_6 S_7 append_Cons append_Nil simp_thms One_nat_def

lemma funpow_25: "(f ^^ 25) x = f (f (f (f (f (f (f (f (f (f (f (f (f (f (f (f (f (f (f (f (f (f (f (f (f (x)))))))))))))))))))))))))"
  by (simp add: eval_nat_numeral)

lemma twenty_five_rtems:
  "(std_rounds td_salt rtems_keys ^^ 25)
   ([False, False, False, False, False, False, False, False, False, False, False, False, False, False, False,
     False, False, False, False, False, False, False, False, False, False, False, False, False, False, False,
     False, False],
    [False, False, False, False, False, False, False, False, False, False, False, False, False, False, False,
     False, False, False, False, False, False, False, False, False, False, False, False, False, False, False,
     False, False]) =
   ([True, True, True, False, True, False, True, True, False, True, False, True, True, True, True, False,
     True, False, True, False, True, True, False, False, True, True, False, False, False, False, False, False],
    [True, True, True, False, False, False, True, True, False, False, False, True, False, True, True, True,
     True, False, False, False, True, True, True, True, False, True, False, False, True, True, True, False])"
  by (simp only: funpow_25 std_rounds_def rtems_keys_def fold_simps prod.swap_def fst_conv snd_conv td_rules)

lemma replicate_64: "replicate 64 False = [False, False, False, False, False, False, False, False, False, False, False, False, False, False, False,
     False, False, False, False, False, False, False, False, False, False, False, False, False, False, False,
     False, False, False, False, False, False, False, False, False, False, False, False, False, False, False,
     False, False, False, False, False, False, False, False, False, False, False, False, False, False, False,
     False, False, False, False]"
  by (simp add: eval_nat_numeral)

lemma crypt3_rtems: "crypt3 (of_string ''rtems'') (of_string ''td'') = TELNETD_DEFAULT_PASSWD"
proof -
  have "std_des (crypt_salt (of_string ''td'')) (std_key_schedule (concat (map (bl 8) (crypt_key (of_string ''rtems'')))))
      25 (replicate 64 False) = [True, True, True, False, True, False, False, False, True, True, True, True, True, False, True, False,
     False, False, True, True, True, True, True, False, False, True, False, True, True, True, True, False,
     False, False, True, True, False, False, False, False, True, True, False, False, False, True, False, False,
     True, True, False, True, False, False, True, True, True, True, False, False, True, True, False, True]" (is "?out = ?bits")
  proof -
    have "(take 32 (replicate 64 False), drop 32 (replicate 64 False)) =
      ([False, False, False, False, False, False, False, False, False, False, False, False, False, False, False,
     False, False, False, False, False, False, False, False, False, False, False, False, False, False, False,
     False, False],
    [False, False, False, False, False, False, False, False, False, False, False, False, False, False, False,
     False, False, False, False, False, False, False, False, False, False, False, False, False, False, False,
     False, False])" by (simp add: replicate_64)
    then show ?thesis
      unfolding crypt_salt_td std_key_schedule_rtems std_des_def permute_IP_zero Let_def
      by (simp only: twenty_five_rtems fst_conv snd_conv append_Cons append_Nil permute_IP_inverse)
  qed
  moreover have "[0..<11] = [0, 1, 2, 3, 4, 5, 6, 7, 8, 9, 10 :: nat]" by (simp add: upt_rec)
  ultimately show ?thesis
    by (simp add: crypt3_def TELNETD_DEFAULT_PASSWD_def of_string_def c_char_def num_def ascii64_def)
qed

section \<open>The login\<close>

text \<open>C7: The default installation opens with the password that \<^verbatim>\<open>passwd.h\<close> names in its comment. With
  \<open>TELNETD_PASSWD\<close> unset or empty, a user who types \<open>rtems\<close> at the first prompt, with any line ending, is let in:
  the default string is the traditional encryption of \<open>rtems\<close> under the salt \<open>td\<close>.\<close>
theorem default_password_opens:
  assumes "env = None \<or> env = Some []" and "list_all is_eol eol"
    and "inp 0 = Some (of_string ''rtems'' @ eol)" and "mem 0 = Some m"
  shows "\<exists>evs. check_passwd peer env (Some t) True inp mem = Inr (0, evs)"
proof -
  have pw: "select_passwd env = TELNETD_DEFAULT_PASSWD" using assms(1) by (auto simp: select_passwd_def)
  have salt: "take 2 TELNETD_DEFAULT_PASSWD = of_string ''td''" by (simp add: TELNETD_DEFAULT_PASSWD_def of_string_def)
  have line: "strip_eol (of_string ''rtems'' @ eol) = of_string ''rtems''"
    by (rule strip_eol_line) (use assms(2) in \<open>simp_all add: of_string_def cstring_ok_def is_eol_def\<close>)
  have "des_crypt_r (Some m) (of_string ''rtems'') (of_string ''td'') 21 = Inr (Some TELNETD_DEFAULT_PASSWD)"
    by (simp add: des_crypt_r_is_crypt3 crypt3_rtems)
  with assms(3,4) line show ?thesis
    by (simp add: check_passwd_def Let_def pw salt numeral_3_eq_3)
qed

theorem default_password_opens_witness:
  "\<exists>evs. check_passwd None None (Some sample_termios) True (\<lambda>_. Some (of_string ''rtems'' @ [13, 10]))
     (\<lambda>_. Some sample_keys) = Inr (0, evs)"
  using default_password_opens [of None "[13, 10]" "\<lambda>_. Some (of_string ''rtems'' @ [13, 10])" "\<lambda>_. Some sample_keys"]
  by (simp add: is_eol_def)

end
