(* ===== verification/Telnet_Login.thy ===== *)
theory Telnet_Login
  imports Pty_Protocol Telnetd_Sessions Des_Default
begin

unbundle bit_operations_syntax

text \<open>
  From the bytes on the wire to the shell: the pseudo-terminal driver (\<^verbatim>\<open>telnetd/pty.c\<close>), the
  login dialogue (\<^verbatim>\<open>telnetd/check_passwd.c\<close>) and the session (\<^verbatim>\<open>telnetd/telnetd.c\<close>) put together.

  Between the driver and \<open>fgets\<close> stands RTEMS termios in the mode that \<open>check_passwd\<close> sets: it
  polls the driver, takes every non-negative result as a character and hands it on, with a
  carriage return translated to a newline when ICRNL is set. That translation is the parameter
  \<open>cook\<close> with the law \<open>cooks\<close>. When the dialogue waits for input the client types some option negotiation, a
  word and an end of line; \<open>line_read\<close> is what the \<open>k\<close>-th \<open>fgets\<close> of the dialogue then stores. A call of
  \<open>fgets\<close> takes one line and leaves what follows it for the next. Before every prompt stands \<open>fflush(stdin)\<close>,
  whose effect on an input stream the C standard leaves open: whether what is left before the \<open>k\<close>-th prompt
  survives it is the parameter \<open>kept k\<close>.
  The end-to-end theorem is in the root theory.
\<close>

section \<open>What the dialogue reads\<close>

fun poll_bytes :: "int \<Rightarrow> u8 list \<Rightarrow> driver \<Rightarrow> (u8 list \<times> sysop list \<times> driver) res" where
  \<comment> \<open>termios polling the driver while the given bytes arrive\<close>
  "poll_bytes minor [] d = Inr ([], [], d)"
| "poll_bytes minor (b # bs) d =
     (case ptyPollRead minor (Rd_byte b) d of Inl e \<Rightarrow> Inl e
      | Inr (r, ops, d) \<Rightarrow>
          (case poll_bytes minor bs d of Inl e \<Rightarrow> Inl e
           | Inr (out, ops', d) \<Rightarrow> Inr ((if r < 0 then [] else [word_of_int r]) @ out, ops @ ops', d)))"

fun fgets_bytes :: "nat \<Rightarrow> u8 list \<Rightarrow> u8 list" where
  "fgets_bytes 0 bs = []"
| "fgets_bytes (Suc n) [] = []"
| "fgets_bytes (Suc n) (b # bs) = (if b = 10 then [b] else b # fgets_bytes n bs)"

text \<open>The state of the input between two calls of \<open>fgets\<close>: the characters left, how many answers the client has
  typed, and the driver.\<close>

type_synonym input_state = "u8 list \<times> nat \<times> driver"

definition read_line :: "(u8 \<Rightarrow> u8) \<Rightarrow> int \<Rightarrow> (nat \<Rightarrow> u8 list) \<Rightarrow> bool \<Rightarrow> input_state \<Rightarrow> cstring option \<times> input_state" where
  \<comment> \<open>\<open>fflush(stdin)\<close> and \<open>fgets(buf, 30, stdin)\<close>: a line that is there already, or else what the client types
     next, before the time-out\<close>
  "read_line cook minor sends keep st =
     (case st of (left, i, d) \<Rightarrow>
        let left = (if keep then left else []) in
        if 10 \<in> set left \<or> 29 \<le> length left
        then (let l = fgets_bytes 29 left in (Some l, drop (length l) left, i, d))
        else (case poll_bytes minor (sends i) d of
                Inl e \<Rightarrow> (None, left, i, d)
              | Inr (out, ops, d) \<Rightarrow>
                  (let chars = left @ map cook out; l = fgets_bytes 29 chars in
                   (if chars = [] then None else Some l, drop (length l) chars, Suc i, d))))"

fun input_after :: "(u8 \<Rightarrow> u8) \<Rightarrow> int \<Rightarrow> (nat \<Rightarrow> u8 list) \<Rightarrow> (nat \<Rightarrow> bool) \<Rightarrow> nat \<Rightarrow> driver \<Rightarrow> input_state" where
  \<comment> \<open>the input when \<open>k\<close> lines have been read\<close>
  "input_after cook minor sends kept 0 d = ([], 0, d)"
| "input_after cook minor sends kept (Suc k) d =
     snd (read_line cook minor sends (kept k) (input_after cook minor sends kept k d))"

definition line_read :: "(u8 \<Rightarrow> u8) \<Rightarrow> int \<Rightarrow> (nat \<Rightarrow> u8 list) \<Rightarrow> (nat \<Rightarrow> bool) \<Rightarrow> driver \<Rightarrow> nat \<Rightarrow> cstring option" where
  "line_read cook minor sends kept d k =
     fst (read_line cook minor sends (kept k) (input_after cook minor sends kept k d))"

definition cooks :: "(u8 \<Rightarrow> u8) \<Rightarrow> bool" where
  "cooks cook \<longleftrightarrow> (\<forall>b. b \<noteq> 13 \<longrightarrow> cook b = b) \<and> cook 13 \<in> {10, 13}"

section \<open>The client\<close>

text \<open>An option request with its verb, or a subnegotiation.\<close>

datatype nego = Request u8 u8 | Subneg "u8 list"

fun nego_ok :: "nego \<Rightarrow> bool" where
  "nego_ok (Request verb opt) = (verb \<in> {IAC_WILL, IAC_WONT, IAC_DO, IAC_DONT})"
| "nego_ok (Subneg bs) = (255 \<notin> set bs)"

fun nego_bytes :: "nego \<Rightarrow> u8 list" where
  "nego_bytes (Request verb opt) = [IAC_ESC, verb, opt]"
| "nego_bytes (Subneg bs) = [IAC_ESC, IAC_SB] @ bs @ [IAC_ESC, 240]"

record answer =
  negos :: "nego list"
  word :: cstring
  eol :: "u8 list"

definition answer_ok :: "(u8 \<Rightarrow> u8) \<Rightarrow> answer \<Rightarrow> bool" where
  \<comment> \<open>the word fits the buffer of 30 bytes with its end of line, which reaches \<open>fgets\<close> as a newline\<close>
  "answer_ok cook a \<longleftrightarrow> list_all nego_ok (negos a) \<and> set (word a) \<inter> {0, 10, 13} = {} \<and> length (word a) \<le> 27 \<and>
     (eol a = [13, 10] \<or> eol a = [13, 0] \<and> cook 13 = 10)"

definition answer_bytes :: "answer \<Rightarrow> u8 list" where
  "answer_bytes a = concat (map nego_bytes (negos a)) @ nvt_encode (word a) @ eol a"

section \<open>What the automaton delivers\<close>

lemma admits_append: "admits ok st a (xs @ ys) \<longleftrightarrow> admits ok st a xs \<and> admits ok st (snd (run st a xs)) ys"
  by (induction xs arbitrary: a) (simp_all add: Let_def split_beta)

text \<open>In data mode, whatever the carriage return flag, the bytes are conforming, the characters
  are delivered, and the automaton is in data mode again.\<close>

definition speaks :: "u8 list \<Rightarrow> u8 list \<Rightarrow> bool" where
  "speaks bs out \<longleftrightarrow> (\<forall>cr. admits nvt_ok nvt_step (Data, cr) bs \<and>
     List.map_filter (\<lambda>x. x) (fst (run nvt_step (Data, cr) bs)) = out \<and> fst (snd (run nvt_step (Data, cr) bs)) = Data)"

lemma map_filter_append: "List.map_filter f (xs @ ys) = List.map_filter f xs @ List.map_filter f ys"
  by (simp add: List.map_filter_def)

lemma speaks_append: "speaks xs out \<Longrightarrow> speaks ys out' \<Longrightarrow> speaks (xs @ ys) (out @ out')"
proof -
  assume xs: "speaks xs out" and ys: "speaks ys out'"
  show ?thesis
    unfolding speaks_def
  proof
    fix cr
    obtain cr' where "snd (run nvt_step (Data, cr) xs) = (Data, cr')"
      using xs by (metis speaks_def prod.collapse)
    then show "admits nvt_ok nvt_step (Data, cr) (xs @ ys) \<and>
      List.map_filter (\<lambda>x. x) (fst (run nvt_step (Data, cr) (xs @ ys))) = out @ out' \<and>
      fst (snd (run nvt_step (Data, cr) (xs @ ys))) = Data"
      using xs ys by (simp add: speaks_def admits_append run_append map_filter_append Let_def split_beta)
  qed
qed

lemma speaks_Nil [simp]: "speaks [] []"
  by (simp add: speaks_def)

lemma speaks_concat: "list_all (\<lambda>bs. speaks bs []) bss \<Longrightarrow> speaks (concat bss) []"
proof (induction bss)
  case (Cons bs bss)
  with speaks_append [of bs "[]" "concat bss" "[]"] show ?case by simp
qed simp

lemma run_sub:
  "255 \<notin> set bs \<Longrightarrow> admits nvt_ok nvt_step (Sub, cr) bs \<and>
     List.map_filter (\<lambda>x. x) (fst (run nvt_step (Sub, cr) bs)) = [] \<and> snd (run nvt_step (Sub, cr) bs) = (Sub, cr)"
  by (induction bs) (simp_all add: nvt_ok_def Let_def split_beta)

lemma speaks_nego: "nego_ok n \<Longrightarrow> speaks (nego_bytes n) []"
proof (cases n)
  case (Request verb opt)
  moreover assume "nego_ok n"
  ultimately show ?thesis by (auto simp: speaks_def nvt_ok_def nvt_cmd_def)
next
  case (Subneg bs)
  moreover assume "nego_ok n"
  ultimately show ?thesis
    using run_sub [of bs] by (simp add: speaks_def nvt_ok_def nvt_cmd_def admits_append run_append map_filter_append Let_def split_beta)
qed

lemma speaks_word: "set w \<inter> {0, 13} = {} \<Longrightarrow> speaks (nvt_encode w) w"
proof (induction w)
  case Nil
  show ?case by (simp add: nvt_encode_def)
next
  case (Cons b w)
  have "speaks (if b = 255 then [255, 255] else if b = 13 then [13, 0] else [b]) [b]"
    using Cons.prems by (simp add: speaks_def nvt_ok_def)
  with Cons show ?case
    using speaks_append [of _ "[b]" "nvt_encode w" w] by (simp add: nvt_encode_Cons)
qed

lemma speaks_answer:
  assumes "answer_ok cook a"
  shows "speaks (answer_bytes a) (word a @ (if eol a = [13, 0] then [13] else [13, 10]))"
proof -
  have "speaks (concat (map nego_bytes (negos a))) []"
    using assms by (intro speaks_concat) (auto simp: answer_ok_def list_all_iff speaks_nego)
  moreover have "speaks (nvt_encode (word a)) (word a)"
    using assms by (intro speaks_word) (auto simp: answer_ok_def)
  moreover have "speaks (eol a) (if eol a = [13, 0] then [13] else [13, 10])"
    using assms by (auto simp: answer_ok_def speaks_def nvt_ok_def)
  ultimately show ?thesis
    unfolding answer_bytes_def by (metis append_Nil speaks_append)
qed

section \<open>What the driver delivers\<close>

lemma delivered_map_filter: "delivered outs = List.map_filter (\<lambda>x. x) (map rx_out outs)"
  by (induction outs) (simp_all add: delivered_def split: option.split)

lemma nvt_abs_Data: "fst (nvt_abs p) = Data \<longleftrightarrow> iac_mode p = 0"
  by (simp add: nvt_abs_def Let_def)

lemma rx_run_speaks:
  assumes "decoder_wf p" and "iac_mode p = 0" and "speaks bs out"
  shows "delivered (fst (run rx_step p bs)) = out \<and> decoder_wf (snd (run rx_step p bs)) \<and>
    iac_mode (snd (run rx_step p bs)) = 0"
proof -
  have a: "nvt_abs p = (Data, last_cr p)" using assms(2) by (rule nvt_abs_eq)
  have "admits nvt_ok nvt_step (nvt_abs p) bs" using assms(3) by (simp add: a speaks_def)
  from telnet_rx.run_simulates [OF assms(1) this]
  have r: "map rx_out (fst (run rx_step p bs)) = fst (run nvt_step (Data, last_cr p) bs)"
    "nvt_abs (snd (run rx_step p bs)) = snd (run nvt_step (Data, last_cr p) bs)" by (simp_all add: a)
  then have "delivered (fst (run rx_step p bs)) = out" "fst (nvt_abs (snd (run rx_step p bs))) = Data"
    using assms(3) by (simp_all add: delivered_map_filter speaks_def)
  with telnet_rx.run_inv [OF assms(1)] show ?thesis by (simp add: nvt_abs_Data)
qed

lemma rx_run_socket: "socket (snd (run rx_step p bs)) = socket p"
  by (induction bs arbitrary: p) (simp_all add: Let_def split_beta read_byte_frame)

lemma set_pty_twice [simp]: "set_pty n q (set_pty n p d) = set_pty n q d"
  by (simp add: set_pty_def)

lemma poll_bytes_run:
  assumes "length (telnet_ptys d) = MAX_PTYS" and "n < MAX_PTYS" and "0 \<le> socket (telnet_ptys d ! n)"
    and "decoder_wf (telnet_ptys d ! n)"
  shows "poll_bytes (int n) bs d = Inr (delivered (fst (run rx_step (telnet_ptys d ! n) bs)),
    replies (fst (run rx_step (telnet_ptys d ! n) bs)), set_pty (int n) (snd (run rx_step (telnet_ptys d ! n) bs)) d)"
  using assms
proof (induction bs arbitrary: d)
  case Nil
  then show ?case by (simp add: delivered_def replies_def set_pty_def)
next
  case (Cons b bs)
  let ?p = "telnet_ptys d ! n"
  let ?d = "set_pty (int n) (snd (snd (read_byte ?p b))) d"
  have "ptyPollRead (int n) (Rd_byte b) d = Inr (fst (read_byte ?p b), fst (snd (read_byte ?p b)), ?d)"
    using Cons.prems by (simp add: ptyPollRead_def read_pty_def pty_at_def read_byte_eq split_beta)
  moreover have "telnet_ptys ?d ! n = snd (rx_step ?p b)" using Cons.prems by simp
  moreover have "length (telnet_ptys ?d) = MAX_PTYS" using Cons.prems by (simp add: set_pty_def)
  ultimately show ?case
    using Cons.IH [of ?d] Cons.prems
    by (simp add: Let_def split_beta delivered_def replies_def rx_out_def read_byte_frame read_byte_decoder_wf)
qed

text \<open>A slot that is bound, open and between two commands.\<close>

definition listening :: "nat \<Rightarrow> driver \<Rightarrow> bool" where
  "listening n d \<longleftrightarrow> n < MAX_PTYS \<and> length (telnet_ptys d) = MAX_PTYS \<and> 0 \<le> socket (telnet_ptys d ! n) \<and>
     decoder_wf (telnet_ptys d ! n) \<and> iac_mode (telnet_ptys d ! n) = 0"

lemma poll_bytes_speaks:
  assumes "listening n d" and "speaks bs out"
  obtains ops d' where "poll_bytes (int n) bs d = Inr (out, ops, d')" "listening n d'"
proof -
  let ?p = "telnet_ptys d ! n"
  have p: "decoder_wf ?p" "iac_mode ?p = 0" using assms(1) by (simp_all add: listening_def)
  note r = rx_run_speaks [OF p assms(2)]
  have "poll_bytes (int n) bs d = Inr (out, replies (fst (run rx_step ?p bs)), set_pty (int n) (snd (run rx_step ?p bs)) d)"
    using assms(1) r poll_bytes_run [of d n bs] by (simp add: listening_def)
  moreover have "listening n (set_pty (int n) (snd (run rx_step ?p bs)) d)"
    using assms(1) r by (simp add: listening_def set_pty_def rx_run_socket)
  ultimately show thesis by (rule that)
qed

section \<open>What the dialogue reads from a client\<close>

lemma fgets_bytes_line:
  "10 \<notin> set w \<Longrightarrow> length w + length e \<le> n \<Longrightarrow> fgets_bytes n (w @ e) = w @ fgets_bytes (n - length w) e"
proof (induction w arbitrary: n)
  case (Cons b w)
  then show ?case by (cases n) auto
qed simp

text \<open>An answer whose carriage return becomes a newline and is followed by a line feed leaves that behind.\<close>

definition leaves_lf :: "(u8 \<Rightarrow> u8) \<Rightarrow> answer \<Rightarrow> bool" where
  "leaves_lf cook a \<longleftrightarrow> cook 13 = 10 \<and> eol a = [13, 10]"

fun attempt :: "(nat \<Rightarrow> bool) \<Rightarrow> (nat \<Rightarrow> bool) \<Rightarrow> nat \<Rightarrow> bool \<times> nat" where
  \<comment> \<open>before the \<open>k\<close>-th attempt: whether a line feed is left, and the number of answers typed\<close>
  "attempt kept leaves 0 = (False, 0)"
| "attempt kept leaves (Suc k) =
     (case attempt kept leaves k of (lf, i) \<Rightarrow> if lf \<and> kept k then (False, i) else (leaves i, Suc i))"

definition tried :: "(nat \<Rightarrow> bool) \<Rightarrow> (nat \<Rightarrow> bool) \<Rightarrow> (nat \<Rightarrow> cstring) \<Rightarrow> nat \<Rightarrow> cstring" where
  \<comment> \<open>the word of the \<open>k\<close>-th attempt: the next one typed, or the empty one that a line feed left over stands for\<close>
  "tried kept leaves w k = (case attempt kept leaves k of (lf, i) \<Rightarrow> if lf \<and> kept k then [] else w i)"

lemma attempt_clean:
  assumes "\<And>k i. \<not> (kept k \<and> leaves i)"
  shows "snd (attempt kept leaves k) = k \<and> (fst (attempt kept leaves k) \<longrightarrow> (\<exists>i. leaves i))"
proof (induction k)
  case (Suc k)
  obtain lf i where a: "attempt kept leaves k = (lf, i)" by fastforce
  with Suc have "i = k" "lf \<longrightarrow> (\<exists>i. leaves i)" by simp_all
  with assms have "\<not> (lf \<and> kept k)" by blast
  with \<open>i = k\<close> a show ?case by auto
qed simp

lemma tried_clean:
  assumes "\<And>k i. \<not> (kept k \<and> leaves i)"
  shows "tried kept leaves w k = w k"
  using attempt_clean [of kept leaves k] assms by (auto simp: tried_def split: prod.splits)

lemma read_line_answer:
  assumes "listening n d" "cooks cook" "answer_ok cook (says i)" and left: "\<not> keep \<or> left = []"
  obtains buf d' where "read_line cook (int n) (\<lambda>k. answer_bytes (says k)) keep (left, i, d) =
      (Some buf, if leaves_lf cook (says i) then [10] else [], Suc i, d')"
    "strip_eol buf = word (says i)" "listening n d'"
proof -
  let ?w = "word (says i)" and ?e = "if eol (says i) = [13, 0] then [13] else [13, 10 :: u8]"
  obtain ops d' where p: "poll_bytes (int n) (answer_bytes (says i)) d = Inr (?w @ ?e, ops, d')" "listening n d'"
    using poll_bytes_speaks [OF assms(1) speaks_answer [OF assms(3)]] .
  have w: "set ?w \<inter> {0, 10, 13} = {}" "length ?w \<le> 27" using assms(3) by (simp_all add: answer_ok_def)
  have cw: "map cook ?w = ?w" using w(1) assms(2) by (intro map_idI) (metis cooks_def disjoint_iff insertCI)
  have n2: "29 - length ?w = Suc (Suc (27 - length ?w))" using w(2) by arith
  obtain e where e: "fgets_bytes (29 - length ?w) (map cook ?e) = e" "list_all is_eol e"
    "drop (length e) (map cook ?e) = (if leaves_lf cook (says i) then [10] else [])" "e \<noteq> []"
    using assms(2,3) by (intro that [OF refl]) (auto simp: n2 cooks_def is_eol_def answer_ok_def leaves_lf_def)
  have "fgets_bytes 29 (?w @ map cook ?e) = ?w @ e"
    using w e(1) fgets_bytes_line [of ?w "map cook ?e" 29] by auto
  then have "read_line cook (int n) (\<lambda>k. answer_bytes (says k)) keep (left, i, d) =
      (Some (?w @ e), if leaves_lf cook (says i) then [10] else [], Suc i, d')"
    using left p(1) cw e(3,4) by (auto simp: read_line_def Let_def)
  moreover have "strip_eol (?w @ e) = ?w"
  proof (rule strip_eol_line)
    show "cstring_ok ?w" using w(1) by (auto simp: cstring_ok_def)
    show "?w = [] \<or> \<not> is_eol (last ?w)" using w(1) by (metis disjoint_iff insertCI is_eol_def last_in_set)
  qed (rule e)
  ultimately show thesis using p(2) by (rule that)
qed

lemma read_line_left: "read_line cook minor sends True ([10], i, d) = (Some [10], [], i, d)"
  by (simp add: read_line_def fgets_bytes.simps numeral_eq_Suc)

text \<open>The input between two lines, and the line of the \<open>k\<close>-th attempt.\<close>

lemma line_read_tried:
  fixes says :: "nat \<Rightarrow> answer"
  defines "sends \<equiv> \<lambda>k. answer_bytes (says k)"
  assumes "listening n d" "cooks cook" "\<And>i. answer_ok cook (says i)"
  shows "(\<exists>d'. input_after cook (int n) sends kept k d =
        (if fst (attempt kept (\<lambda>i. leaves_lf cook (says i)) k) then [10] else [],
         snd (attempt kept (\<lambda>i. leaves_lf cook (says i)) k), d') \<and> listening n d') \<and>
    (\<exists>buf. line_read cook (int n) sends kept d k = Some buf \<and>
       strip_eol buf = tried kept (\<lambda>i. leaves_lf cook (says i)) (\<lambda>i. word (says i)) k)"
proof (induction k)
  case 0
  obtain buf d' where "read_line cook (int n) sends (kept 0) ([], 0, d) =
      (Some buf, if leaves_lf cook (says 0) then [10] else [], Suc 0, d')" "strip_eol buf = word (says 0)"
    using read_line_answer [OF assms(2,3), of says 0 "kept 0" "[]"] assms(4) unfolding sends_def by blast
  then show ?case using assms(2) by (simp add: line_read_def tried_def)
next
  case (Suc k)
  let ?leaves = "\<lambda>i. leaves_lf cook (says i)"
  obtain lf i where a: "attempt kept ?leaves k = (lf, i)" by fastforce
  obtain d' where st: "input_after cook (int n) sends kept k d = (if lf then [10] else [], i, d')" "listening n d'"
    using Suc a by auto
  obtain d'' where st': "input_after cook (int n) sends kept (Suc k) d =
      (if fst (attempt kept ?leaves (Suc k)) then [10] else [], snd (attempt kept ?leaves (Suc k)), d'')" "listening n d''"
  proof (cases "lf \<and> kept k")
    case True
    then have "input_after cook (int n) sends kept (Suc k) d = ([], i, d')" using st(1) by (simp add: read_line_left)
    then show thesis using that [of d'] True a st(2) by simp
  next
    case False
    then have "\<not> kept k \<or> (if lf then [10] else [] :: u8 list) = []" by simp
    then obtain buf d3 where
      "read_line cook (int n) sends (kept k) (if lf then [10] else [], i, d') = (Some buf, if ?leaves i then [10] else [], Suc i, d3)"
      "listening n d3"
      unfolding sends_def using read_line_answer [where says = says and i = i, OF st(2) assms(3) assms(4)] by blast
    then show thesis using that [of d3] False a st(1) by simp
  qed
  obtain lf' j where a': "attempt kept ?leaves (Suc k) = (lf', j)" by fastforce
  have "\<exists>buf. line_read cook (int n) sends kept d (Suc k) = Some buf \<and> strip_eol buf = tried kept ?leaves (\<lambda>i. word (says i)) (Suc k)"
  proof (cases "lf' \<and> kept (Suc k)")
    case True
    have "strip_eol [10] = []" using strip_eol_line [of "[]" "[10]"] by (simp add: cstring_ok_def is_eol_def)
    then show ?thesis using True st'(1) a' by (simp add: line_read_def tried_def read_line_left del: input_after.simps attempt.simps)
  next
    case False
    then have "\<not> kept (Suc k) \<or> (if lf' then [10] else [] :: u8 list) = []" by simp
    then obtain buf d3 where
      "read_line cook (int n) sends (kept (Suc k)) (if lf' then [10] else [], j, d'') = (Some buf, if ?leaves j then [10] else [], Suc j, d3)"
      "strip_eol buf = word (says j)"
      unfolding sends_def using read_line_answer [where says = says and i = j, OF st'(2) assms(3) assms(4)] by blast
    then show ?thesis using False st'(1) a' by (auto simp: line_read_def tried_def simp del: input_after.simps attempt.simps)
  qed
  then show ?case using st' by blast
qed

section \<open>The dialogue\<close>

lemma matches_crypt3: "matches pw buf \<longleftrightarrow> crypt3 (strip_eol buf) (take 2 pw) = pw"
  by (simp add: matches_iff [of _ _ sample_keys] des_crypt_r_is_crypt3)

lemma login_decides:
  assumes "pw_attrs e = Some t" "pw_set_ok e" and "\<And>k. pw_mem e k \<noteq> None"
    and lines: "\<And>k. \<exists>buf. pw_lines e k = Some buf \<and> strip_eol buf = w k"
  defines "pw \<equiv> select_passwd (pw_env e)"
  shows "\<exists>evs. login peer e = Inr (if \<exists>j<3. crypt3 (w j) (take 2 pw) = pw then 0 else -1, evs)"
proof -
  have "(\<exists>buf. pw_lines e j = Some buf \<and> matches pw buf) \<longleftrightarrow> crypt3 (w j) (take 2 pw) = pw" for j
    using lines [of j] by (auto simp: matches_crypt3)
  moreover have "pw_lines e i \<noteq> None" for i using lines [of i] by auto
  ultimately have iff: "outcome pw (pw_lines e) 0 3 = Accepted \<longleftrightarrow> (\<exists>j<3. crypt3 (w j) (take 2 pw) = pw)"
    by (simp only: outcome_accepted_iff add_0) simp
  obtain es where "ask_passwd pw (pw_lines e) (pw_mem e) 0 3 = Inr (outcome pw (pw_lines e) 0 3, es)"
    using ask_passwd_outcome assms(3) by blast
  with assms(1,2) show ?thesis unfolding iff [symmetric] by (simp add: login_def check_passwd_def Let_def pw_def)
qed

section \<open>The session\<close>

lemma rc_open_streams_listening:
  assumes "pty_ready (fst s)" and n: "n < MAX_PTYS" and "snd s n = 0" and b: "bound s (dev_name n) = Some sock"
  obtains t where "open_streams (rc_open dflt) (dev_name n) 3 0 s = (3, t)" "listening n (fst t)"
proof -
  let ?d = "fst s"
  let ?q = "(telnet_ptys ?d ! n)\<lparr>opened := True, ttyp := Some n, iac_mode := 0, sb_ind := 0, width := 0, height := 0, c_cflag := dflt\<rparr>"
  have sock: "\<not> socket (telnet_ptys ?d ! n) < 0" using b n by (auto simp: pool_held_dev_name Let_def split: if_splits)
  have "ptyPollInitialize (int n) n dflt ?d = Inr (0, set_pty (int n) ?q ?d)"
    using sock n assms(1) by (simp add: ptyPollInitialize_def ptySetAttributes_def pty_at_def)
  then have "open_streams (rc_open dflt) (dev_name n) 3 0 s = (3, (set_pty (int n) ?q ?d, (snd s)(n := 3)))"
    using n assms(3) by (simp add: numeral_3_eq_3 rc_open_def)
  moreover have "listening n (set_pty (int n) ?q ?d)"
    using sock n assms(1) pty_ready_slot [OF assms(1) n] by (simp add: listening_def slot_wf_def decoder_wf_def valid_mode_def)
  ultimately show thesis by (rule that [of "(set_pty (int n) ?q ?d, (snd s)(n := 3))", unfolded fst_conv])
qed

text \<open>What the dialogue of a session reads: the client's answers as they pass through the driver,
  starting when the session has opened its three streams.\<close>

definition session_lines :: "(u8 \<Rightarrow> u8) \<Rightarrow> u32 \<Rightarrow> (nat \<Rightarrow> answer) \<Rightarrow> (nat \<Rightarrow> bool) \<Rightarrow> devptr \<Rightarrow> counts sys \<Rightarrow>
    nat \<Rightarrow> cstring option" where
  "session_lines cook dflt says kept h s =
     (case slot_of h of None \<Rightarrow> (\<lambda>k. None)
      | Some n \<Rightarrow> line_read cook (int n) (\<lambda>k. answer_bytes (says k)) kept (fst (snd (open_streams (rc_open dflt) h 3 0 s))))"

lemma session_shell:
  assumes s: "pty_ready (fst s)" "h \<in> pty_handles" "rc_opens s h = 0" "bound s h = Some sock"
    and "libio_sc e = 0" and tty: "pw_attrs (sess_login e) = Some t" "pw_set_ok (sess_login e)"
    and mem: "\<And>k. pw_mem (sess_login e) k \<noteq> None"
    and client: "cooks cook" "\<And>k. answer_ok cook (says k)" and lines: "pw_lines (sess_login e) = session_lines cook dflt says kept h s"
    and sh: "spawned_shell (rc_open dflt) rc_close talk g e h arg peer s = Inr (evs, s')"
  defines "pw \<equiv> select_passwd (pw_env (sess_login e))"
    and "words \<equiv> tried kept (\<lambda>i. leaves_lf cook (says i)) (\<lambda>i. word (says i))"
  shows "Ev_shell (telnetd_shell g) h arg \<in> set evs \<longleftrightarrow> (\<exists>j<3. crypt3 (words j) (take 2 pw) = pw)"
proof -
  obtain n where n: "n < MAX_PTYS" "h = dev_name n" using s(2) by (auto simp: pty_handles_def)
  with s(3) have "snd s n = 0" by (simp add: rc_opens_def)
  with s n obtain u where u: "open_streams (rc_open dflt) h 3 0 s = (3, u)" "listening n (fst u)"
    using rc_open_streams_listening [of s n sock dflt] by auto
  have "\<exists>buf. pw_lines (sess_login e) k = Some buf \<and> strip_eol buf = words k" for k
    using line_read_tried [OF u(2) client, where kept = kept and k = k] u(1) n by (simp add: lines session_lines_def words_def)
  from login_decides [OF tty mem this, of peer] obtain pevs where
    "login peer (sess_login e) = Inr (if \<exists>j<3. crypt3 (words j) (take 2 pw) = pw then 0 else -1, pevs)"
    unfolding pw_def by blast
  with sh u(1) assms(5) show ?thesis
    by (auto simp: spawned_shell_def release_a_Connection_def split: prod.splits if_splits)
qed

text \<open>A line feed left over counts as an attempt. When termios turns CR into a newline, the client ends its lines
  with CR LF and nothing is discarded before a prompt, the second attempt is an empty word, the third is the
  second word typed, and a third word is never tried.\<close>

lemma tried_left_over:
  assumes "\<And>k. kept k" "\<And>i. leaves i"
  shows "map (tried kept leaves w) [0..<3] = [w 0, [], w 1]"
  using assms by (simp add: tried_def upt_rec numeral_3_eq_3)

end
