(* ===== verification/Pty_Driver.thy ===== *)
theory Pty_Driver
  imports Telnetd_Sessions
begin

text \<open>
  The entry points of the pseudo-terminal driver in \<^verbatim>\<open>telnetd/pty.c\<close> and its tables. RTEMS termios, to which
  open, close, read and write hand their arguments, is a set of parameters: \<open>'a\<close> is the type of the argument block
  that libio passes and \<open>'k\<close> what termios keeps. Shown is that with a termios that counts the opens of a device, and
  calls the first open and the last close of the callback table, the entry points are the open and the close that
  the session theorems assume; and that the constructor and destructor of the module bracket the life of the
  driver.
\<close>

section \<open>Model\<close>

record callbacks =
  firstOpen :: "int \<Rightarrow> nat \<Rightarrow> driver \<Rightarrow> (int \<times> driver) res"
  lastClose :: "int \<Rightarrow> driver \<Rightarrow> (int \<times> sysop list \<times> driver) res"
  pollRead :: "int \<Rightarrow> rd \<Rightarrow> driver \<Rightarrow> (int \<times> sysop list \<times> driver) res"
  cb_write :: "int \<Rightarrow> u8 list \<Rightarrow> int \<Rightarrow> driver \<Rightarrow> (int \<times> sysop list) res"
  setAttributes :: "int \<Rightarrow> u32 \<Rightarrow> driver \<Rightarrow> (int \<times> driver) res"
  stopRemoteTx :: "(int \<Rightarrow> int) option"
  startRemoteTx :: "(int \<Rightarrow> int) option"
  outputUsesInterrupts :: int

definition pty_poll_callbacks :: "u32 \<Rightarrow> callbacks" where
  \<comment> \<open>\<open>dflt\<close> is \<open>B9600|CS8\<close>\<close>
  "pty_poll_callbacks dflt =
     \<lparr>firstOpen = \<lambda>minor tty. ptyPollInitialize minor tty dflt, lastClose = ptyShutdown, pollRead = ptyPollRead,
      cb_write = ptyPollWrite, setAttributes = ptySetAttributes, stopRemoteTx = None, startRemoteTx = None,
      outputUsesInterrupts = 0\<rparr>"

definition pty_get_termios_handlers :: "u32 \<Rightarrow> bool \<Rightarrow> callbacks" where
  "pty_get_termios_handlers dflt polled = pty_poll_callbacks dflt"

definition my_pty_open ::
  "(u32 \<Rightarrow> u32 \<Rightarrow> 'a \<Rightarrow> callbacks \<Rightarrow> 'k sys \<Rightarrow> 'r) \<Rightarrow> u32 \<Rightarrow> u32 \<Rightarrow> u32 \<Rightarrow> 'a \<Rightarrow> 'k sys \<Rightarrow> 'r" where
  "my_pty_open rtems_termios_open dflt major minor arg s =
     rtems_termios_open major minor arg (pty_get_termios_handlers dflt False) s"

definition my_pty_close :: "('a \<Rightarrow> 'k sys \<Rightarrow> 'r) \<Rightarrow> u32 \<Rightarrow> u32 \<Rightarrow> 'a \<Rightarrow> 'k sys \<Rightarrow> 'r" where
  "my_pty_close rtems_termios_close major minor arg s = rtems_termios_close arg s"

definition my_pty_read :: "('a \<Rightarrow> 'k sys \<Rightarrow> 'r) \<Rightarrow> u32 \<Rightarrow> u32 \<Rightarrow> 'a \<Rightarrow> 'k sys \<Rightarrow> 'r" where
  "my_pty_read rtems_termios_read major minor arg s = rtems_termios_read arg s"

definition my_pty_write :: "('a \<Rightarrow> 'k sys \<Rightarrow> 'r) \<Rightarrow> u32 \<Rightarrow> u32 \<Rightarrow> 'a \<Rightarrow> 'k sys \<Rightarrow> 'r" where
  "my_pty_write rtems_termios_write major minor arg s = rtems_termios_write arg s"

record module_state =
  nest :: int
  ini_drv :: driver

definition TelnetPtyIni :: "(driver \<Rightarrow> bool \<times> driver) \<Rightarrow> module_state \<Rightarrow> module_state" where
  \<comment> \<open>the constructor\<close>
  "TelnetPtyIni register st =
     (let st' = st\<lparr>nest := nest st + 1\<rparr> in
      if nest st = 0 then st'\<lparr>ini_drv := snd (pty_do_initialize register (ini_drv st'))\<rparr> else st')"

definition TelnetPtyIni_destroy :: "bool \<Rightarrow> (nat \<Rightarrow> bool) \<Rightarrow> module_state \<Rightarrow> module_state" where
  \<comment> \<open>the destructor\<close>
  "TelnetPtyIni_destroy unreg unlinked st =
     (let st' = st\<lparr>nest := nest st - 1\<rparr> in
      if nest st' = 0 then st'\<lparr>ini_drv := snd (snd (pty_do_finalize unreg unlinked (ini_drv st')))\<rparr> else st')"

definition telnet_pty_initialize :: "bool \<Rightarrow> (driver \<Rightarrow> bool \<times> driver) \<Rightarrow> driver \<Rightarrow> bool \<times> driver" where
  \<comment> \<open>compiled as C++ it only reports, as C it registers the driver\<close>
  "telnet_pty_initialize cplusplus register d =
     (if cplusplus then (telnet_pty_inited d, d) else pty_do_initialize register d)"

definition telnet_pty_finalize :: "bool \<Rightarrow> bool \<Rightarrow> (nat \<Rightarrow> bool) \<Rightarrow> driver \<Rightarrow> int \<times> sysop list \<times> driver" where
  "telnet_pty_finalize cplusplus unreg unlinked d =
     (if cplusplus then (if telnet_pty_inited d then 1 else 0, [], d) else pty_do_finalize unreg unlinked d)"

section \<open>A termios that counts\<close>

text \<open>The argument block is the minor device, which libio keeps with the open file; the termios block of a minor
  device has its number as address.\<close>

definition count_open :: "u32 \<Rightarrow> u32 \<Rightarrow> nat \<Rightarrow> callbacks \<Rightarrow> counts sys \<Rightarrow> bool \<times> counts sys" where
  "count_open major minor arg cb s =
     (let n = unat minor in
      if snd s n = 0 then
        (case firstOpen cb (int n) arg (fst s) of
           Inl e \<Rightarrow> (False, s) | Inr (r, d) \<Rightarrow> (True, (d, (snd s)(n := 1))))
      else (True, (fst s, (snd s)(n := Suc (snd s n)))))"

definition count_close :: "callbacks \<Rightarrow> nat \<Rightarrow> counts sys \<Rightarrow> sysop list \<times> counts sys" where
  "count_close cb arg s =
     (if snd s arg = 1 then
        (case lastClose cb (int arg) (fst s) of
           Inl e \<Rightarrow> ([], s) | Inr (r, ops, d) \<Rightarrow> (ops, (d, (snd s)(arg := 0))))
      else ([], (fst s, (snd s)(arg := snd s arg - 1))))"

text \<open>The entry points of the driver are the open and close that the session theorems are about: with a termios
  that counts the opens of each device and calls the callbacks of the driver's table at the first open and at the
  last close, opening and closing any of the sixteen minor devices through the driver does to driver and counts
  exactly what opening and closing the device of that name does in the sessions.\<close>
theorem pty_entry_points:
  assumes "n < MAX_PTYS"
  shows "my_pty_open count_open dflt major (word_of_nat n) n s = rc_open dflt (dev_name n) s \<and>
    my_pty_close (count_close (pty_get_termios_handlers dflt p)) major (word_of_nat n) n s = rc_close (dev_name n) s"
proof -
  have "unat (word_of_nat n :: u32) = n" using assms by (simp add: unsigned_of_nat take_bit_eq_mod)
  then show ?thesis
    using assms
    by (simp add: my_pty_open_def my_pty_close_def count_open_def count_close_def rc_open_def rc_close_def
        pty_get_termios_handlers_def pty_poll_callbacks_def Let_def)
qed

theorem pty_entry_points_witness:
  "\<exists>d. my_pty_open count_open 0 5 0 0 (sample_connected, \<lambda>_. 0) = (True, d) \<and>
     rc_open 0 (dev_name 0) (sample_connected, \<lambda>_. 0) = (True, d)"
proof -
  have "fst (rc_open 0 (dev_name 0) (sample_connected, \<lambda>_. 0))"
    using sample_connected_ready dev_name_handle [of 0] by (intro rc_open_ok) simp_all
  then obtain d where "rc_open 0 (dev_name 0) (sample_connected, \<lambda>_. 0) = (True, d)" by (metis prod.collapse)
  then show ?thesis using pty_entry_points [of 0 0 5 "(sample_connected, \<lambda>_. 0)" False] by simp
qed

section \<open>The life of the driver\<close>

definition ini_wf :: "module_state \<Rightarrow> bool" where
  "ini_wf st \<longleftrightarrow> 0 \<le> nest st \<and> (0 < nest st \<longrightarrow> telnet_pty_inited (ini_drv st))"

text \<open>Each constructor of the module finds the driver registered or registers it, and only the destructor that
  matches the first constructor removes it, unless a device is still open.\<close>

lemma TelnetPtyIni_wf:
  assumes "ini_wf st" and "\<And>d. fst (register d)"
  shows "ini_wf (TelnetPtyIni register st)" "telnet_pty_inited (ini_drv (TelnetPtyIni register st))"
  using assms(1) assms(2) [of "ini_drv st"]
  by (auto simp: ini_wf_def TelnetPtyIni_def pty_do_initialize_def Let_def split_beta)

lemma TelnetPtyIni_destroy_wf:
  assumes "ini_wf st" "0 < nest st"
  shows "ini_wf (TelnetPtyIni_destroy unreg unlinked st)"
    and "nest st = 1 \<Longrightarrow> unreg \<Longrightarrow> telnet_pty_inited (ini_drv (TelnetPtyIni_destroy unreg unlinked st)) =
      list_ex opened (telnet_ptys (ini_drv st))"
  using assms by (auto simp: ini_wf_def TelnetPtyIni_destroy_def pty_do_finalize_def Let_def)

lemma TelnetPtyIni_bracket:
  assumes "ini_wf st" and "\<And>d. fst (register d)" "0 < nest st"
  shows "TelnetPtyIni_destroy unreg unlinked (TelnetPtyIni register st) = st"
  using assms by (simp add: TelnetPtyIni_destroy_def TelnetPtyIni_def Let_def)

end
