(* ===== verification/Glue.thy ===== *)
theory Glue
  imports Telnetd_Sessions
begin

text \<open>
  The password generator \<^verbatim>\<open>telnetd/genpw.c\<close>, a program for the development host, and the module
  initialisation \<^verbatim>\<open>telnetd/telnetd.mod.c\<close> that starts the daemon with Cexp as its shell. The library
  function \<open>crypt\<close> of the host and the address of the shell wrapper are parameters.
\<close>

section \<open>The password generator\<close>

datatype gp_out = Usage | Unknown_option char | Define cstring

fun genpw_options :: "(char \<times> cstring) list \<Rightarrow> cstring \<Rightarrow> gp_out list + cstring" where
  \<comment> \<open>the options as \<open>getopt\<close> returns them; what is printed before leaving, or the salt\<close>
  "genpw_options [] salt = Inr salt"
| "genpw_options ((ch, optarg) # opts) salt =
     (if ch = CHR ''s'' then genpw_options opts optarg
      else if ch = CHR ''h'' then Inl [Usage]
      else Inl [Unknown_option ch, Usage])"

definition genpw :: "(cstring \<Rightarrow> cstring \<Rightarrow> cstring) \<Rightarrow> (char \<times> cstring) list \<Rightarrow> cstring list \<Rightarrow> int \<times> gp_out list" where
  "genpw crypt opts args =
     (case genpw_options opts (of_string ''td'') of
        Inl evs \<Rightarrow> (0, evs)
      | Inr salt \<Rightarrow> (case args of [] \<Rightarrow> (1, [Usage]) | a # _ \<Rightarrow> (0, [Define (crypt a salt)])))"

section \<open>Module initialisation\<close>

definition cexpModuleInitialize ::
  "nat \<Rightarrow> (driver \<Rightarrow> bool \<times> driver) \<Rightarrow> int \<Rightarrow> u32 \<Rightarrow> spawn_env \<Rightarrow> telnetd \<Rightarrow> driver \<Rightarrow> td_event list \<times> telnetd \<times> driver" where
  \<comment> \<open>\<open>cexpWrap\<close> is the address of the wrapper\<close>
  "cexpModuleInitialize cexpWrap register net_prio min_stack e g d =
     snd (startTelnetd register net_prio min_stack e (Some cexpWrap) 0 0 32000 0 g d)"

section \<open>Properties\<close>

text \<open>A password generated by \<open>genpw\<close> on a host whose \<open>crypt\<close> is the traditional DES one opens the daemon: with
  the generated string as the daemon's password, the clear text given to \<open>genpw\<close> is accepted at the first
  prompt, whatever end of line the client sends.\<close>
theorem genpw_login:
  assumes "\<And>k s. c_char s 0 \<noteq> 0 \<Longrightarrow> c_char s 1 \<noteq> 0 \<Longrightarrow> des_crypt_r (Some m) k s 21 = Inr (Some (crypt k s))"
    and "genpw crypt [] [key] = (r, evs)"
    and "cstring_ok key" "key = [] \<or> \<not> is_eol (last key)" "list_all is_eol eol"
    and "inp 0 = Some (key @ eol)" and "mem 0 = Some m'"
  shows "\<exists>pw. r = 0 \<and> evs = [Define pw] \<and> (\<exists>log. check_passwd peer (Some pw) (Some t) True inp mem = Inr (0, log))"
proof -
  let ?salt = "of_string ''td''"
  have s: "c_char ?salt 0 \<noteq> 0" "c_char ?salt 1 \<noteq> 0" by (simp_all add: c_char_def of_string_def)
  have "r = 0 \<and> evs = [Define (crypt key ?salt)]" using assms(2) by (simp add: genpw_def)
  then show ?thesis using set_password_accepted [where inp = inp and mem = mem, OF assms(1) [OF s, of key] s assms(3-7)] by blast
qed

text \<open>Loading the module on a system whose pty driver is registered starts the daemon: one task is created
  and started, sessions get Cexp as their shell and 32000 bytes of stack and are spawned as tasks of their own.\<close>
theorem module_starts_daemon:
  assumes "telnetd_task_id g = 0" "fst (pty_do_initialize register d)" "telnetd_spawn_task g = Dflt_spawn"
    "pwa_mem e" "create_sc e = 0" "start_sc e = 0" "new_id e \<noteq> 0"
    and "cexpModuleInitialize cexpWrap register net_prio min_stack e g d = (evs, g', d')"
  shows "telnetd_shell g' = Some cexpWrap \<and> telnetd_stack_size g' = 32000 \<and> telnetd_dont_spawn g' = 0 \<and>
         Ev_task_start (new_id e) \<in> set evs \<and> telnet_pty_inited d' = telnet_pty_inited (snd (pty_do_initialize register d))"
proof -
  obtain d1 where "pty_do_initialize register d = (True, d1)" using assms(2) by (metis prod.collapse)
  with assms show ?thesis
    by (auto simp: cexpModuleInitialize_def startTelnetd_def initialize_telnetd_def spawn_task_def telnetd_dflt_spawn_def
        Let_def split: if_splits)
qed

section \<open>Concrete instances\<close>

definition des_crypt :: "cstring \<Rightarrow> cstring \<Rightarrow> cstring" where
  \<comment> \<open>a host whose \<open>crypt\<close> is the repository's own implementation\<close>
  "des_crypt k s = (case des_crypt_r (Some sample_keys) k s 21 of Inr (Some pw) \<Rightarrow> pw | _ \<Rightarrow> [])"

lemma des_crypt_total: "c_char s 0 \<noteq> 0 \<Longrightarrow> c_char s 1 \<noteq> 0 \<Longrightarrow> des_crypt_r (Some sample_keys) k s 21 = Inr (Some (des_crypt k s))"
  by (simp add: des_crypt_def des_crypt_r_eq split: prod.splits)

theorem genpw_login_witness:
  "\<exists>pw. genpw des_crypt [] [of_string ''secret''] = (0, [Define pw]) \<and>
     (\<exists>log. check_passwd None (Some pw) (Some sample_termios) True
        (\<lambda>_. Some (of_string ''secret'' @ [13, 10])) (\<lambda>_. Some sample_keys) = Inr (0, log))"
proof -
  obtain r evs where g: "genpw des_crypt [] [of_string ''secret''] = (r, evs)" by (cases "genpw des_crypt [] [of_string ''secret'']")
  have "cstring_ok (of_string ''secret'')" "of_string ''secret'' = [] \<or> \<not> is_eol (last (of_string ''secret''))"
    "list_all is_eol [13, 10]"
    by (simp_all add: of_string_def cstring_ok_def is_eol_def)
  from genpw_login [OF des_crypt_total g this, of "\<lambda>_. Some (of_string ''secret'' @ [13, 10])" "\<lambda>_. Some sample_keys" sample_keys None
      sample_termios] g
  show ?thesis by auto
qed

theorem module_starts_daemon_witness:
  "\<exists>evs g' d'. cexpModuleInitialize 0x4000 (\<lambda>d. (False, d)) 50 8192 (conn_spawn sample_conn) (sample_config 0) sample_registered = (evs, g', d') \<and>
     telnetd_shell g' = Some 0x4000 \<and> Ev_task_start (new_id (conn_spawn sample_conn)) \<in> set evs"
proof -
  obtain evs g' d' where run: "cexpModuleInitialize 0x4000 (\<lambda>d. (False, d)) 50 8192 (conn_spawn sample_conn) (sample_config 0)
      sample_registered = (evs, g', d')" using prod_cases3 by blast
  have "telnet_pty_inited sample_registered" using sample_registered_ready by (simp add: pty_ready_def)
  then have "fst (pty_do_initialize (\<lambda>d. (False, d)) sample_registered)" by (simp add: pty_do_initialize_def)
  moreover have "telnetd_task_id (sample_config 0) = 0" "telnetd_spawn_task (sample_config 0) = Dflt_spawn"
    "pwa_mem (conn_spawn sample_conn)" "create_sc (conn_spawn sample_conn) = 0" "start_sc (conn_spawn sample_conn) = 0"
    "new_id (conn_spawn sample_conn) \<noteq> 0"
    by (simp_all add: sample_config_def sample_conn_def)
  ultimately show ?thesis using module_starts_daemon [OF _ _ _ _ _ _ _ run] run by blast
qed

end
