(* ===== verification/Des_Bits.thy ===== *)
theory Des_Bits
  imports Des_Crypt3
begin

unbundle bit_operations_syntax

text \<open>
  The interface of \<^verbatim>\<open>telnetd/des.c\<close> in bytes that hold one bit each, \<open>setkey\<close> and \<open>encrypt\<close>, as compiled without
  \<open>REENTRANT\<close>: one static context, which the first call of \<open>des_init\<close> resets. Shown is that the two functions
  compute the standard and its inverse.
\<close>

section \<open>Model\<close>

record des_static =
  single :: des_context
  des_initialised :: bool

definition des_init_static :: "des_static \<Rightarrow> des_static" where
  \<comment> \<open>the tables are constants of the model; without \<open>REENTRANT\<close> the context is \<open>single\<close>, so the reset cannot fail\<close>
  "des_init_static s =
     (if des_initialised s then s
      else s\<lparr>single := (single s)\<lparr>old_rawkey0 := 0, old_rawkey1 := 0, saltbits := 0, old_salt := 0\<rparr>,
             des_initialised := True\<rparr>)"

definition setkey :: "u8 list \<Rightarrow> des_static \<Rightarrow> des_static" where
  \<comment> \<open>\<open>des_setkey\<close> calls \<open>des_init\<close> first\<close>
  "setkey key s =
     (let p = map (\<lambda>i. or_masks (\<lambda>j. key ! (8 * i + j) AND 1 \<noteq> 0) (\<lambda>j. word_of_nat (bits8 ! j)) [0..<8] 0) [0..<8];
          s = des_init_static s in
      s\<lparr>single := snd (des_setkey p (single s))\<rparr>)"

definition encrypt :: "u8 list \<Rightarrow> int \<Rightarrow> des_static \<Rightarrow> u8 list \<times> des_static" where
  \<comment> \<open>the 64 bytes of the block are replaced; an error of \<open>do_des\<close> would leave \<open>io\<close> as it is\<close>
  "encrypt blk flag s =
     (let s = des_init_static s;
          s = s\<lparr>single := setup_salt 0 (single s)\<rparr>;
          io = map (\<lambda>i. or_masks (\<lambda>j. blk ! (32 * i + j) AND 1 \<noteq> 0) (\<lambda>j. bits32 ! j) [0..<32] 0) [0..<2];
          io = (case do_des (io ! 0) (io ! 1) (if flag \<noteq> 0 then -1 else 1) (single s) of
                  None \<Rightarrow> io | Some (l, r) \<Rightarrow> [l, r]) in
      (concat (map (\<lambda>i. map (\<lambda>j. if io ! i AND bits32 ! j \<noteq> 0 then 1 else 0) [0..<32]) [0..<2]), s))"

definition des_crypt_static :: "des_context option \<Rightarrow> cstring \<Rightarrow> cstring \<Rightarrow> cstring option res" where
  \<comment> \<open>\<open>__des_crypt\<close>: into a static buffer of 21 bytes\<close>
  "des_crypt_static mem key setting = des_crypt_r mem key setting 21"

section \<open>Bytes that hold bits\<close>

definition byte_of :: "bool \<Rightarrow> u8" where
  "byte_of b = (if b then 1 else 0)"

definition pack_block :: "u8 list \<Rightarrow> u32 \<times> u32" where
  "pack_block blk =
     (or_masks (\<lambda>j. blk ! j AND 1 \<noteq> 0) (\<lambda>j. bits32 ! j) [0..<32] 0,
      or_masks (\<lambda>j. blk ! (32 + j) AND 1 \<noteq> 0) (\<lambda>j. bits32 ! j) [0..<32] 0)"

lemma and_1_odd: "w AND 1 \<noteq> 0 \<longleftrightarrow> odd w" for w :: u8
  using and_exp_eq_0_iff_not_bit [of w 0] by (simp add: bit_0)

lemma bl_pack_8: "bl 8 (or_masks P (\<lambda>j. word_of_nat (bits8 ! j)) [0..<8] 0 :: u8) = map P [0..<8]"
proof (rule nth_equalityI)
  fix i assume "i < length (bl 8 (or_masks P (\<lambda>j. word_of_nat (bits8 ! j)) [0..<8] 0 :: u8))"
  then have i: "i < 8" by simp
  have "bit (word_of_nat (bits8 ! j) :: u8) (7 - i) \<longleftrightarrow> j = i" if "j < 8" for j using i that by (auto simp: bits8_power bit_exp_iff bit_of_nat_iff)
  with i show "bl 8 (or_masks P (\<lambda>j. word_of_nat (bits8 ! j)) [0..<8] 0 :: u8) ! i = map P [0..<8] ! i" by (auto simp: bit_or_masks)
qed simp

lemma bl_pack_32: "bl 32 (or_masks P (\<lambda>j. bits32 ! j) [0..<32] 0) = map P [0..<32]"
proof (rule nth_equalityI)
  fix i assume "i < length (bl 32 (or_masks P (\<lambda>j. bits32 ! j) [0..<32] 0))"
  then have i: "i < 32" by simp
  have "bit (bits32 ! j) (31 - i) \<longleftrightarrow> j = i" if "j < 32" for j using i that by (auto simp: bit_bits32)
  with i show "bl 32 (or_masks P (\<lambda>j. bits32 ! j) [0..<32] 0) ! i = map P [0..<32] ! i" by (auto simp: bit_or_masks)
qed simp

lemma map_blocks: "concat (map (\<lambda>i. map (\<lambda>j. f (m * i + j)) [0..<m]) [0..<n]) = map f [0..<m * n]"
proof (induction n)
  case (Suc n)
  have "[0..<m * Suc n] = [0..<m * n] @ map (\<lambda>j. m * n + j) [0..<m]"
    by (rule nth_equalityI) (auto simp: nth_append)
  with Suc show ?case by simp
qed simp

lemma map_nth_le: "n = length xs \<Longrightarrow> map (\<lambda>i. f (xs ! i)) [0..<n] = map f xs"
  by (rule nth_equalityI) simp_all

definition packed_key :: "u8 list \<Rightarrow> u8 list" where
  "packed_key key = map (\<lambda>i. or_masks (\<lambda>j. key ! (8 * i + j) AND 1 \<noteq> 0) (\<lambda>j. word_of_nat (bits8 ! j)) [0..<8] 0) [0..<8]"

lemma key_bits_packed:
  assumes "length key = 64"
  shows "concat (map (bl 8) (packed_key key)) = map odd key"
  using map_blocks [where f = "\<lambda>i. odd (key ! i)" and m = 8 and n = 8] assms map_nth_le [of 64 key odd]
  by (simp add: packed_key_def comp_def bl_pack_8 and_1_odd)

lemma block_pack: "length blk = 64 \<Longrightarrow> block_bits (pack_block blk) = map odd blk"
  by (rule nth_equalityI) (auto simp: block_bits_def pack_block_def bl_pack_32 and_1_odd nth_append)

lemma block_inj: "block_bits x = block_bits y \<Longrightarrow> x = y"
proof -
  assume *: "block_bits x = block_bits y"
  have "bl 32 (fst x) = bl 32 (fst y)" "bl 32 (snd x) = bl 32 (snd y)"
    using arg_cong [OF *, of "take 32"] arg_cong [OF *, of "drop 32"] by simp_all
  moreover have "v = w" if "bl 32 v = bl 32 w" for v w :: u32
  proof (rule bit_word_eqI)
    fix n assume "n < LENGTH(32)"
    then show "bit v n = bit w n" using arg_cong [OF that, of "\<lambda>xs. xs ! (31 - n)"] by simp
  qed
  ultimately show ?thesis by (simp add: prod_eq_iff)
qed

lemma unpack_bits:
  "concat (map (\<lambda>i. map (\<lambda>j. if [l, r] ! i AND bits32 ! j \<noteq> 0 then 1 else 0) [0..<32]) [0..<2]) = map byte_of (block_bits (l, r))"
proof -
  have "w AND bits32 ! j \<noteq> 0 \<longleftrightarrow> bit w (31 - j)" if "j < 32" for w j
    using that and_exp_eq_0_iff_not_bit [of w "31 - j"] by (simp add: bits32_list)
  then have "map (\<lambda>j. if w AND bits32 ! j \<noteq> 0 then 1 else 0) [0..<32] = map byte_of (bl 32 w)" for w
    by (auto simp: byte_of_def bl_def)
  moreover have "[0..<2] = [0, 1 :: nat]" by (simp add: upt_rec)
  ultimately show ?thesis by (simp add: block_bits_def)
qed

lemma odd_byte_of [simp]: "odd (byte_of b) = b"
  by (simp add: byte_of_def)

lemma pack_unpack: "pack_block (map byte_of (block_bits lr)) = lr"
  by (rule block_inj) (simp add: block_pack comp_def)

section \<open>The static context\<close>

definition static_wf :: "des_static \<Rightarrow> bool" where
  "static_wf s \<longleftrightarrow> ctx_wf (single s)"

definition zero_static :: des_static where
  \<comment> \<open>static storage starts out as zeros\<close>
  "zero_static = \<lparr>single = \<lparr>en_keysl = replicate 16 0, en_keysr = replicate 16 0, de_keysl = replicate 16 0,
     de_keysr = replicate 16 0, saltbits = 0, old_salt = 0, old_rawkey0 = 0, old_rawkey1 = 0\<rparr>, des_initialised = False\<rparr>"

lemma static_wf_zero: "static_wf zero_static"
  by (simp add: static_wf_def ctx_wf_def zero_static_def salt_loop_0)

lemma des_init_static_wf: "static_wf s \<Longrightarrow> static_wf (des_init_static s)" "des_initialised (des_init_static s)"
  by (simp_all add: des_init_static_def static_wf_def ctx_wf_def salt_loop_0)

definition keyed :: "u32 \<times> u32 \<Rightarrow> des_static \<Rightarrow> bool" where
  "keyed k s \<longleftrightarrow> des_initialised s \<and> static_wf s \<and> has_key k (single s)"

lemma keyed_setkey: "static_wf s \<Longrightarrow> keyed (raw_key (packed_key key)) (setkey key s)"
  using des_init_static_wf [of s] des_setkey_key [of "single (des_init_static s)" "packed_key key"]
  by (simp add: keyed_def setkey_def Let_def static_wf_def flip: packed_key_def)

definition one_pass :: "bool \<Rightarrow> u32 \<times> u32 \<Rightarrow> u32 \<times> u32 \<Rightarrow> u32 \<times> u32" where
  "one_pass dec k lr = final_permutation (des_rounds 0
     ((if dec then rev else (\<lambda>ks. ks)) (key_schedule (fst k) (snd k))) (initial_perm lr))"

lemma encrypt_pass:
  assumes "keyed k s"
  shows "\<exists>s'. encrypt blk flag s = (map byte_of (block_bits (one_pass (flag \<noteq> 0) k (pack_block blk))), s') \<and> keyed k s'"
proof -
  let ?s = "s\<lparr>single := setup_salt 0 (single s)\<rparr>"
  from assms have i: "des_init_static s = s" and wf: "ctx_wf (single s)" and key: "has_key k (single s)"
    by (simp_all add: keyed_def des_init_static_def static_wf_def)
  have sb: "saltbits (setup_salt 0 (single s)) = 0" using setup_salt_salt(1) [OF wf, of 0] by (simp add: salt_loop_0)
  have "has_key k (setup_salt 0 (single s))" using setup_salt_salt(3) [OF wf] key by blast
  note d = do_des_block [OF this, unfolded sb]
  obtain l r where lr: "one_pass (flag \<noteq> 0) k (pack_block blk) = (l, r)" by fastforce
  have "do_des (fst (pack_block blk)) (snd (pack_block blk)) (if flag \<noteq> 0 then -1 else 1) (single ?s) = Some (l, r)"
    using d [of "if flag \<noteq> 0 then -1 else 1" "fst (pack_block blk)" "snd (pack_block blk)"] lr by (auto simp: one_pass_def)
  moreover have "map (\<lambda>i. or_masks (\<lambda>j. blk ! (32 * i + j) AND 1 \<noteq> 0) (\<lambda>j. bits32 ! j) [0..<32] 0) [0..<2] =
      [fst (pack_block blk), snd (pack_block blk)]"
    by (simp add: pack_block_def upt_rec [of 0 2] upt_rec [of "Suc 0" 2])
  ultimately have "encrypt blk flag s = (map byte_of (block_bits (l, r)), ?s)"
    unfolding encrypt_def i Let_def by (simp add: unpack_bits)
  moreover have "keyed k ?s" using assms setup_salt_salt [OF wf] by (simp add: keyed_def static_wf_def)
  ultimately show ?thesis using lr by auto
qed

lemma one_pass_inverse: "one_pass True k (one_pass False k lr) = lr"
  using des_feistel.rounds_pow_rev [where salt = 0 and n = 1] unfolding one_pass_def
  by (simp add: initial_final final_initial des_rounds_feistel)

lemma one_pass_standard:
  assumes "length key = 64"
  shows "block_bits (one_pass dec (raw_key (packed_key key)) lr) =
     std_des (replicate 24 False) ((if dec then rev else (\<lambda>ks. ks)) (std_key_schedule (map odd key))) 1 (block_bits lr)"
proof -
  let ?k = "raw_key (packed_key key)"
  let ?ks = "key_schedule (fst ?k) (snd ?k)"
  have "map subkey ?ks = std_key_schedule (map odd key)"
    using key_schedule_standard [of "fst ?k" "snd ?k"] block_raw_key [of "packed_key key"] key_bits_packed [OF assms]
    by (simp add: packed_key_def del: map_map)
  moreover have "bl 24 (0 :: u32) = replicate 24 False" "bits24 (0 :: u32)"
    by (auto simp: bl_def map_replicate_const bits24_def)
  ultimately show ?thesis
    using des_block_standard [of 0 "(if dec then rev else (\<lambda>ks. ks)) ?ks" 1 lr] keys24_schedule [of "fst ?k" "snd ?k"]
    by (auto simp: one_pass_def rev_map [symmetric])
qed

section \<open>Properties\<close>

text \<open>C20: The interface in bits is the standard: on every state the static storage can be in, after \<open>setkey\<close>
  with 64 bytes \<open>encrypt\<close> replaces the 64 bytes of the block by zeros and ones, the bits that the standard
  defines for the low bits of key and block, with the subkeys in reverse order when the flag is set. A second call
  with the flag set gives the low bits of the original block back.\<close>
theorem setkey_encrypt_standard:
  assumes "static_wf s" "length key = 64" "length blk = 64"
  shows "fst (encrypt blk flag (setkey key s)) = map byte_of (std_des (replicate 24 False)
           ((if flag \<noteq> 0 then rev else (\<lambda>ks. ks)) (std_key_schedule (map odd key))) 1 (map odd blk)) \<and>
     (case encrypt blk 0 (setkey key s) of (out, s') \<Rightarrow> fst (encrypt out 1 s') = map (\<lambda>b. byte_of (odd b)) blk)"
proof -
  let ?k = "raw_key (packed_key key)"
  note k = keyed_setkey [OF assms(1), of key]
  obtain s' where s': "encrypt blk 0 (setkey key s) = (map byte_of (block_bits (one_pass False ?k (pack_block blk))), s')" "keyed ?k s'"
    using encrypt_pass [OF k, of blk 0] by auto
  obtain s'' where "encrypt (fst (encrypt blk 0 (setkey key s))) 1 s' = (map byte_of (block_bits (pack_block blk)), s'')"
    using encrypt_pass [OF s'(2), of "fst (encrypt blk 0 (setkey key s))" 1] s'(1) by (auto simp: pack_unpack one_pass_inverse)
  moreover obtain t where "encrypt blk flag (setkey key s) = (map byte_of (block_bits (one_pass (flag \<noteq> 0) ?k (pack_block blk))), t)"
    using encrypt_pass [OF k, of blk flag] by auto
  ultimately show ?thesis
    using s' by (simp add: one_pass_standard [OF assms(2)] block_pack [OF assms(3)] comp_def)
qed

theorem setkey_encrypt_standard_witness:
  "fst (encrypt (replicate 64 1) 0 (setkey (replicate 64 0) zero_static)) =
     map byte_of (std_des (replicate 24 False) (std_key_schedule (replicate 64 False)) 1 (replicate 64 True))"
  using setkey_encrypt_standard [OF static_wf_zero, of "replicate 64 0" "replicate 64 1" 0]
  by (simp add: map_replicate)

text \<open>The routine with the static buffer never reports an error when memory is available.\<close>

lemma des_crypt_static_crypt3: "des_crypt_static (Some mem) key setting = Inr (Some (crypt3 key setting))"
  by (simp add: des_crypt_static_def des_crypt_r_is_crypt3)

end
