(* ===== verification/Host_Login.thy ===== *)
theory Host_Login
  imports Des_Default
begin

text \<open>
  The test program for the login check on a host, \<open>main\<close> of \<^verbatim>\<open>telnetd/check_passwd.c\<close>. The function \<open>crypt\<close> of the host's
  library and the options as \<open>getopt\<close> returns them are parameters.
\<close>

section \<open>Model\<close>

datatype hl_out = Generated cstring | Unknown_opt | Dialogue "pw_event list" | Check_failed

fun host_options :: "(cstring \<Rightarrow> cstring \<Rightarrow> cstring) \<Rightarrow> (char \<times> cstring) list \<Rightarrow> cstring option \<Rightarrow> hl_out list \<Rightarrow>
    hl_out list + (cstring option \<times> hl_out list)" where
  \<comment> \<open>\<open>enc\<close> and what was printed so far; \<open>Inl\<close>: the program ends with status 1\<close>
  "host_options crypt [] enc out = Inr (enc, out)"
| "host_options crypt ((ch, optarg) # opts) enc out =
     (if ch = CHR ''g'' then
        (let enc = crypt optarg (of_string ''td'') in host_options crypt opts (Some enc) (out @ [Generated enc]))
      else Inl (out @ [Unknown_opt]))"

definition host_main :: "(cstring \<Rightarrow> cstring \<Rightarrow> cstring) \<Rightarrow> (char \<times> cstring) list \<Rightarrow> cstring list \<Rightarrow> bool \<Rightarrow> cstring option \<Rightarrow>
    termios option \<Rightarrow> bool \<Rightarrow> (nat \<Rightarrow> cstring option) \<Rightarrow> (nat \<Rightarrow> des_context option) \<Rightarrow> (int \<times> hl_out list) res" where
  \<comment> \<open>\<open>str_mem\<close>: whether the string for \<open>putenv\<close> could be allocated; then what \<open>check_passwd\<close> obtains\<close>
  "host_main crypt opts args str_mem env attrs set_ok inp mem =
     (case host_options crypt opts None [] of
        Inl out \<Rightarrow> Inr (1, out)
      | Inr (enc, out) \<Rightarrow>
          (let enc = (if args \<noteq> [] \<and> enc = None then Some (hd args) else enc) in
           if enc \<noteq> None \<and> \<not> str_mem then Inl NullDeref
           else (case check_passwd None (if enc = None then env else enc) attrs set_ok inp mem of
               Inl e \<Rightarrow> Inl e
             | Inr (r, evs) \<Rightarrow> Inr (0, out @ [Dialogue evs] @ (if r \<noteq> 0 then [Check_failed] else [])))))"

section \<open>Properties\<close>

text \<open>On a host whose \<open>crypt\<close> is the traditional one, the password given with \<open>-g\<close> passes the check that follows;
  and without arguments and without the environment variable the default password does.\<close>

lemma host_main_accepts:
  assumes "\<And>k. crypt k (of_string ''td'') = crypt3 k (of_string ''td'')"
    and "cstring_ok key" "key = [] \<or> \<not> is_eol (last key)" "list_all is_eol eol"
    and "inp 0 = Some (key @ eol)" "mem 0 = Some m"
  shows "\<exists>evs. host_main crypt [(CHR ''g'', key)] [] True env (Some t) True inp mem =
    Inr (0, [Generated (crypt3 key (of_string ''td'')), Dialogue evs])"
proof -
  let ?salt = "of_string ''td''"
  have s: "c_char ?salt 0 \<noteq> 0" "c_char ?salt 1 \<noteq> 0" by (simp_all add: c_char_def of_string_def)
  have "des_crypt_r (Some m) key ?salt 21 = Inr (Some (crypt3 key ?salt))" by (simp add: des_crypt_r_is_crypt3)
  from set_password_accepted [where inp = inp and mem = mem, OF this s assms(2-6)]
  obtain evs where "check_passwd None (Some (crypt3 key ?salt)) (Some t) True inp mem = Inr (0, evs)" by blast
  then show ?thesis by (simp add: host_main_def assms(1) Let_def)
qed

lemma host_main_unknown_option:
  "ch \<noteq> CHR ''g'' \<Longrightarrow> host_main crypt ((ch, a) # opts) args str_mem env attrs set_ok inp mem = Inr (1, [Unknown_opt])"
  by (simp add: host_main_def)

end
