(* ===== verification/VecAlloc.thy ===== *)
theory VecAlloc
  imports Prelude
begin

unbundle bit_operations_syntax

text \<open>
  The allocator for 16-byte aligned memory, \<^verbatim>\<open>altivec/vec_alloc.c\<close>. Pointers and \<open>size_t\<close> are
  32-bit words. The block that \<open>malloc\<close> returns for the requested size is an argument (0 for
  failure); the word memory, in which the back pointers live, is passed explicitly, and the
  calls to the C library are collected in program order.
\<close>

section \<open>Model\<close>

type_synonym memory = "u32 \<Rightarrow> u32"    \<comment> \<open>the 32-bit word stored at an address\<close>

datatype heapop =
    Malloc u32
  | Free u32
  | Memset u32 u32          \<comment> \<open>address, length; value 0\<close>
  | Memcpy u32 u32 u32      \<comment> \<open>to, from, length\<close>
  | Resize u32 u32
  | Set_EINVAL

definition vec_malloc :: "(u32 \<Rightarrow> u32) \<Rightarrow> u32 \<Rightarrow> memory \<Rightarrow> u32 \<times> heapop list \<times> memory" where
  "vec_malloc mal s m =
     (if s = 0 then (0, [], m)
      else
        (let punaligned = mal (s + 16) in
         if punaligned = 0 then (0, [Malloc (s + 16)], m)
         else
           (let paligned = (punaligned + 16) AND NOT 15 in
            (paligned, [Malloc (s + 16)], m(paligned - 4 := punaligned)))))"

definition vec_free :: "u32 \<Rightarrow> memory \<Rightarrow> heapop list" where
  "vec_free paligned m = (if paligned \<noteq> 0 then [Free (m (paligned - 4))] else [])"

definition vec_calloc :: "(u32 \<Rightarrow> u32) \<Rightarrow> u32 \<Rightarrow> u32 \<Rightarrow> memory \<Rightarrow> u32 \<times> heapop list \<times> memory" where
  "vec_calloc mal nmemb s m =
     (let s = s * nmemb; (rval, ops, m) = vec_malloc mal s m in
      (rval, ops @ (if rval \<noteq> 0 then [Memset rval s] else []), m))"

text \<open>What \<open>vec_realloc\<close> obtains from RTEMS: whether it is called where it may not block, the
  status of \<open>rtems_region_resize_segment\<close> (0 successful, 13 unsatisfied) if the RTEMS version
  has it, and the segment size, if the address is one of a segment.\<close>

record realloc_env =
  in_critical :: bool
  resize_sc :: "nat option"
  segment_size :: "u32 \<Rightarrow> u32 option"

abbreviation RTEMS_UNSATISFIED :: nat where "RTEMS_UNSATISFIED \<equiv> 13"

definition vec_realloc_move :: "realloc_env \<Rightarrow> (u32 \<Rightarrow> u32) \<Rightarrow> u32 \<Rightarrow> u32 \<Rightarrow> memory \<Rightarrow> u32 \<times> heapop list \<times> memory" where
  \<comment> \<open>the part after the attempt to resize in place\<close>
  "vec_realloc_move e mal p s m =
     (let (pu, ops, m) = vec_malloc mal s m in
      if pu = 0 then (0, ops, m)
      else case segment_size e pu of
        None \<Rightarrow> (0, ops @ [Set_EINVAL], m)
      | Some old_size \<Rightarrow>
          (let old_size = old_size - 16;
               pold = p;
               p = (pu + 16) AND NOT 15 in
           (p, ops @ [Memcpy p pold (if s < old_size then s else old_size)] @ vec_free pold m,
            m(p - 4 := pu))))"

definition vec_realloc :: "realloc_env \<Rightarrow> (u32 \<Rightarrow> u32) \<Rightarrow> u32 \<Rightarrow> u32 \<Rightarrow> memory \<Rightarrow> u32 \<times> heapop list \<times> memory" where
  "vec_realloc e mal p s m =
     (if in_critical e then (0, [], m)
      else if s = 0 then (0, vec_free p m, m)
      else if p = 0 then vec_malloc mal s m
      else
        (let pu = m (p - 4) in
         case resize_sc e of
           None \<Rightarrow> vec_realloc_move e mal p s m
         | Some sc \<Rightarrow>
             if sc = 0 then (p, [Resize pu (s + 16)], m)
             else if sc \<noteq> RTEMS_UNSATISFIED then (0, [Resize pu (s + 16), Set_EINVAL], m)
             else (let (r, ops, m) = vec_realloc_move e mal p s m in (r, Resize pu (s + 16) # ops, m))))"

section \<open>Properties\<close>

text \<open>The block \<open>malloc\<close> returned: aligned to 4 bytes at least, of \<open>n\<close> bytes, not wrapping
  around the end of memory.\<close>

definition good_block :: "u32 \<Rightarrow> int \<Rightarrow> bool" where
  "good_block pu n \<longleftrightarrow> pu \<noteq> 0 \<and> uint pu mod 4 = 0 \<and> uint pu + n < 2 ^ 32"

lemma aligned_in_block:
  assumes "good_block pu n" and "16 \<le> n"
  shows "uint ((pu + 16) AND NOT 15) mod 16 = 0"
    and "uint pu + 4 \<le> uint ((pu + 16) AND NOT 15)" "uint ((pu + 16) AND NOT 15) \<le> uint pu + 16"
proof -
  have e: "uint ((pu + 16) AND NOT 15) = uint pu + 16 - (uint pu + 16) mod 16"
    unfolding align_16 using assms uint_plus_u32 [of pu 16] by (simp add: good_block_def)
  show "uint ((pu + 16) AND NOT 15) mod 16 = 0" unfolding e by presburger
  show "uint ((pu + 16) AND NOT 15) \<le> uint pu + 16" unfolding e by simp
  have "uint pu mod 4 = 0" using assms(1) by (simp add: good_block_def)
  then have "(uint pu + 16) mod 16 \<le> 12" by presburger
  then show "uint pu + 4 \<le> uint ((pu + 16) AND NOT 15)" unfolding e by simp
qed

text \<open>C26: For a request whose size plus 16 does not overflow, \<open>vec_malloc\<close> returns a 16-byte
  aligned address such that the word before it, where the back pointer goes, and the requested
  bytes after it lie within the block that \<open>malloc\<close> returned; and \<open>vec_free\<close> of that address
  frees exactly this block.\<close>

theorem vec_malloc_correct:
  assumes "s \<noteq> 0" and "uint s + 16 < 2 ^ 32" and "good_block (mal (s + 16)) (uint (s + 16))"
    and "vec_malloc mal s m = (p, ops, m')"
  shows "uint p mod 16 = 0 \<and> uint (mal (s + 16)) \<le> uint p - 4 \<and>
    uint p + uint s \<le> uint (mal (s + 16)) + uint (s + 16) \<and>
    vec_free p m' = [Free (mal (s + 16))] \<and> (\<forall>a. a \<noteq> p - 4 \<longrightarrow> m' a = m a)"
proof -
  have sz: "uint (s + 16) = uint s + 16" using assms(2) uint_plus_u32 [of s 16] by simp
  have n: "16 \<le> uint (s + 16)" using sz uint_u32_bounds(1) [of s] by simp
  from assms(1,3,4) have p: "p = (mal (s + 16) + 16) AND NOT 15" "m' = m(p - 4 := mal (s + 16))"
    by (auto simp: vec_malloc_def Let_def good_block_def)
  note A = aligned_in_block [OF assms(3) n, folded p(1)]
  have "p \<noteq> 0"
  proof
    assume "p = 0"
    then have "uint (mal (s + 16)) + 4 \<le> 0" using A(2) by simp
    then show False using uint_u32_bounds(1) [of "mal (s + 16)"] by simp
  qed
  with A sz show ?thesis by (auto simp: p(2) vec_free_def)
qed

theorem vec_malloc_correct_witness:
  "vec_malloc (\<lambda>n. 0x10008) 100 (\<lambda>_. 0) = (0x10010, [Malloc 116], (\<lambda>_. 0)(0x1000c := 0x10008)) \<and>
   uint (0x10010 :: u32) mod 16 = 0 \<and> vec_free 0x10010 ((\<lambda>_. 0)(0x1000c := 0x10008)) = [Free 0x10008]"
proof -
  have v: "vec_malloc (\<lambda>n. 0x10008) 100 (\<lambda>_. 0) = (0x10010, [Malloc 116], (\<lambda>_. 0)(0x1000c := 0x10008))"
    by (simp add: vec_malloc_def Let_def)
  from vec_malloc_correct [of 100 "\<lambda>_. 0x10008", OF _ _ _ v] v show ?thesis
    by (simp add: good_block_def)
qed

text \<open>When \<open>vec_realloc\<close> has to move a block, the region it returns is not inside the new
  block: it adds the alignment offset a second time, so that the requested size ends at least four
  bytes behind the block's end, and the back pointer it leaves is the inner address, so that
  \<open>vec_free\<close> hands \<open>free\<close> a pointer that \<open>malloc\<close> never returned.\<close>

theorem vec_realloc_move_overruns:
  assumes "s \<noteq> 0" and "uint s + 16 < 2 ^ 32" and "good_block (mal (s + 16)) (uint (s + 16) + 16)"
    and "vec_realloc_move e mal p s m = (q, ops, m')" and "q \<noteq> 0"
  shows "uint (mal (s + 16)) + uint (s + 16) + 4 \<le> uint q + uint s \<and> vec_free q m' \<noteq> [Free (mal (s + 16))]"
proof -
  let ?pu = "mal (s + 16)"
  let ?pa = "(?pu + 16) AND NOT 15"
  have sz: "uint (s + 16) = uint s + 16" using assms(2) uint_plus_u32 [of s 16] by simp
  have n: "16 \<le> uint (s + 16)" using sz uint_u32_bounds(1) [of s] by simp
  have g: "good_block ?pu (uint (s + 16))" using assms(3) by (simp add: good_block_def)
  note A = aligned_in_block [OF g n]
  have q: "q = (?pa + 16) AND NOT 15" "m' (q - 4) = ?pa"
    using assms(1,4,5) g
    by (auto simp: vec_realloc_move_def vec_malloc_def Let_def good_block_def split: if_splits option.splits)
  have "uint ?pa + 16 < 2 ^ 32"
    using A(3) assms(3) sz uint_u32_bounds(1) [of s] unfolding good_block_def by linarith
  then have pl: "uint (?pa + 16) = uint ?pa + 16" using uint_plus_u32 [of ?pa 16] by simp
  have "uint q = uint ?pa + 16"
    unfolding q(1) align_16 [of "?pa + 16"] pl using A(1) by simp
  moreover have "?pa \<noteq> ?pu" using A(2) by (metis add_le_same_cancel1 not_numeral_le_zero)
  ultimately show ?thesis using A(2) sz assms(5) q(2) by (simp add: vec_free_def)
qed

theorem vec_realloc_move_overruns_witness:
  "\<exists>q ops m'. vec_realloc_move \<lparr>in_critical = False, resize_sc = Some 13, segment_size = \<lambda>_. Some 116\<rparr>
     (\<lambda>n. 0x10008) 0x20010 100 (\<lambda>_. 0x20008) = (q, ops, m') \<and> 0x10008 + 116 + 4 \<le> uint q + 100"
proof -
  let ?e = "\<lparr>in_critical = False, resize_sc = Some 13, segment_size = \<lambda>_. Some 116\<rparr>"
  have "\<exists>ops m'. vec_realloc_move ?e (\<lambda>n. 0x10008) 0x20010 100 (\<lambda>_. 0x20008) = (0x10020, ops, m')"
    by (simp add: vec_realloc_move_def vec_malloc_def Let_def)
  then obtain ops m' where v: "vec_realloc_move ?e (\<lambda>n. 0x10008) 0x20010 100 (\<lambda>_. 0x20008) = (0x10020, ops, m')" by blast
  from vec_realloc_move_overruns [of 100 "\<lambda>_. 0x10008", OF _ _ _ v] v show ?thesis
    by (auto simp: good_block_def)
qed

text \<open>\<open>vec_calloc\<close> does not detect an overflowing product: for a successful call whose
  mathematical size does not fit 32 bits, the number of bytes reserved and cleared is less than
  \<open>nmemb * s\<close>.\<close>

theorem vec_calloc_overflow:
  assumes "2 ^ 32 \<le> uint nmemb * uint s" and "vec_calloc mal nmemb s m = (p, ops, m')" and "p \<noteq> 0"
  shows "\<exists>n. Memset p n \<in> set ops \<and> uint n < uint nmemb * uint s"
proof -
  have "Memset p (s * nmemb) \<in> set ops"
    using assms(2,3) by (auto simp: vec_calloc_def Let_def split: prod.splits if_splits)
  moreover have "uint (s * nmemb) < uint nmemb * uint s"
    using assms(1) uint_u32_bounds(2) [of "s * nmemb"] by linarith
  ultimately show ?thesis by blast
qed

theorem vec_calloc_overflow_witness:
  "\<exists>p ops m' n. vec_calloc (\<lambda>_. 0x10008) 0x10001 0x10000 (\<lambda>_. 0) = (p, ops, m') \<and> Memset p n \<in> set ops \<and>
     uint n < 0x10001 * 0x10000"
proof -
  have "\<exists>ops m'. vec_calloc (\<lambda>_. 0x10008) 0x10001 0x10000 (\<lambda>_. 0) = (0x10010, ops, m')"
    by (simp add: vec_calloc_def vec_malloc_def Let_def)
  then obtain ops m' where v: "vec_calloc (\<lambda>_. 0x10008) 0x10001 0x10000 (\<lambda>_. 0) = (0x10010, ops, m')" by blast
  from vec_calloc_overflow [OF _ v] v show ?thesis by auto
qed

end
