(* ===== verification/VecSave.thy ===== *)
theory VecSave
  imports Prelude
begin

text \<open>
  Saving and restoring the vector registers, the assembly of \<open>save_vec_context\<close> and
  \<open>load_vec_context\<close> in \<^verbatim>\<open>altivec/vec_context.c\<close> (built with \<open>IGNORE_VRSAVE\<close>, as the source
  does).

  The macros of the source are functions that produce the same lists of instructions, and a
  small interpreter gives the PowerPC and AltiVec instructions they use their meaning. A
  context buffer is 32-byte aligned, so memory is addressed by 16-byte slots relative to its
  start: the base operands \<open>%1\<close> to \<open>%4\<close> are slots 0 to 3, and a cache line is two slots.
\<close>

section \<open>Registers and instructions\<close>

type_synonym vec = "u32 \<times> u32 \<times> u32 \<times> u32"
type_synonym slots = "nat \<Rightarrow> vec"

record vregs =
  vr :: "nat \<Rightarrow> vec"
  vrsave :: u32
  vscr :: u32

record vmachine =
  regs :: vregs
  gpr :: "nat \<Rightarrow> nat"       \<comment> \<open>general purpose registers holding offsets\<close>
  r0 :: u32                 \<comment> \<open>register 0, or 4 while loading: a value from or to memory\<close>
  slots :: slots

datatype insn =
    Stvxl nat nat nat       \<comment> \<open>vector register, base slot, offset register\<close>
  | Lvxl nat nat nat
  | Dcbz nat nat            \<comment> \<open>base slot, offset register: clear the cache line\<close>
  | Addi nat nat nat
  | Li nat nat
  | Mfvrsave | Mtvrsave
  | Mfvscr | Mtvscr         \<comment> \<open>through vector register 0\<close>
  | Stw0 | Lwz0             \<comment> \<open>the word at offset 0\<close>
  | Stvewx nat | Lvewx nat  \<comment> \<open>one word of vector register 0, offset register\<close>

definition word_at :: "nat \<Rightarrow> vec \<Rightarrow> u32" where
  "word_at n v = (case v of (a, b, c, d) \<Rightarrow> if n = 0 then a else if n = 1 then b else if n = 2 then c else d)"

definition set_word :: "nat \<Rightarrow> u32 \<Rightarrow> vec \<Rightarrow> vec" where
  "set_word n w v = (case v of (a, b, c, d) \<Rightarrow>
     if n = 0 then (w, b, c, d) else if n = 1 then (a, w, c, d) else if n = 2 then (a, b, w, d) else (a, b, c, w))"

definition slot :: "nat \<Rightarrow> nat \<Rightarrow> vmachine \<Rightarrow> nat" where
  "slot b r st = b + gpr st r div 16"

fun exec :: "insn \<Rightarrow> vmachine \<Rightarrow> vmachine" where
  "exec (Stvxl i b r) st = st\<lparr>slots := (slots st)(slot b r st := vr (regs st) i)\<rparr>"
| "exec (Lvxl i b r) st = st\<lparr>regs := (regs st)\<lparr>vr := (vr (regs st))(i := slots st (slot b r st))\<rparr>\<rparr>"
| "exec (Dcbz b r) st =
     (let l = slot b r st div 2 in
      st\<lparr>slots := (slots st)(2 * l := (0, 0, 0, 0), 2 * l + 1 := (0, 0, 0, 0))\<rparr>)"
| "exec (Addi rd rs n) st = st\<lparr>gpr := (gpr st)(rd := gpr st rs + n)\<rparr>"
| "exec (Li rd n) st = st\<lparr>gpr := (gpr st)(rd := n)\<rparr>"
| "exec Mfvrsave st = st\<lparr>r0 := vrsave (regs st)\<rparr>"
| "exec Mtvrsave st = st\<lparr>regs := (regs st)\<lparr>vrsave := r0 st\<rparr>\<rparr>"
| "exec Mfvscr st = st\<lparr>regs := (regs st)\<lparr>vr := (vr (regs st))(0 := (0, 0, 0, vscr (regs st)))\<rparr>\<rparr>"
| "exec Mtvscr st = st\<lparr>regs := (regs st)\<lparr>vscr := word_at 3 (vr (regs st) 0)\<rparr>\<rparr>"
| "exec Stw0 st = st\<lparr>slots := (slots st)(0 := set_word 0 (r0 st) (slots st 0))\<rparr>"
| "exec Lwz0 st = st\<lparr>r0 := word_at 0 (slots st 0)\<rparr>"
| "exec (Stvewx r) st =
     (let k = slot 0 r st; n = gpr st r div 4 mod 4 in
      st\<lparr>slots := (slots st)(k := set_word n (word_at n (vr (regs st) 0)) (slots st k))\<rparr>)"
| "exec (Lvewx r) st =
     (let k = slot 0 r st; n = gpr st r div 4 mod 4 in
      st\<lparr>regs := (regs st)\<lparr>vr := (vr (regs st))(0 := set_word n (word_at n (slots st k)) (vr (regs st) 0))\<rparr>\<rparr>)"

definition exec_all :: "insn list \<Rightarrow> vmachine \<Rightarrow> vmachine" where
  "exec_all = fold exec"

section \<open>The macros\<close>

definition S4VEC :: "nat \<Rightarrow> nat \<Rightarrow> insn list" where
  "S4VEC i ro = [Stvxl (i + 0) 0 ro, Stvxl (i + 1) 1 ro, Stvxl (i + 2) 2 ro, Stvxl (i + 3) 3 ro]"

definition L4VEC :: "nat \<Rightarrow> nat \<Rightarrow> insn list" where
  "L4VEC i ro = [Lvxl (i + 0) 0 ro, Lvxl (i + 1) 1 ro, Lvxl (i + 2) 2 ro, Lvxl (i + 3) 3 ro]"

definition Z4VEC :: "nat \<Rightarrow> insn list" where
  "Z4VEC ro = [Dcbz 0 ro, Dcbz 2 ro]"

definition P4VEC :: "nat \<Rightarrow> nat \<Rightarrow> insn list" where
  "P4VEC ri rj = Addi rj ri 64 # Z4VEC rj"

definition L4VECA :: "nat \<Rightarrow> nat \<Rightarrow> insn list" where
  "L4VECA i ro = L4VEC i ro @ [Addi ro ro 64]"

definition S4VEC_P :: "nat \<Rightarrow> nat \<Rightarrow> nat \<Rightarrow> insn list" where
  "S4VEC_P i ri rj = P4VEC ri rj @ S4VEC i ri"

definition S8VEC_P :: "nat \<Rightarrow> nat \<Rightarrow> nat \<Rightarrow> insn list" where
  "S8VEC_P i ri rj = S4VEC_P (i + 0) ri rj @ S4VEC_P (i + 4) rj ri"

definition L8VECA :: "nat \<Rightarrow> nat \<Rightarrow> insn list" where
  "L8VECA i ro = L4VECA i ro @ L4VECA (i + 4) ro"

definition S32VEC :: "nat \<Rightarrow> nat \<Rightarrow> insn list" where
  "S32VEC ri rj = S8VEC_P 0 ri rj @ S8VEC_P 8 ri rj @ S8VEC_P 16 ri rj @ S4VEC_P 24 ri rj @ S4VEC 28 rj"

definition L32VEC :: "nat \<Rightarrow> insn list" where
  "L32VEC ro = L8VECA 0 ro @ L8VECA 8 ro @ L8VECA 16 ro @ L4VECA 24 ro @ L4VEC 28 ro"

definition save_code :: "insn list" where
  "save_code = [Mfvrsave, Li 5 32, Dcbz 0 5, Dcbz 2 5] @ S32VEC 5 4 @ [Mfvscr, Stw0, Li 5 12, Stvewx 5]"

definition load_code :: "insn list" where
  "load_code = [Lwz0, Mtvrsave, Li 4 12, Lvewx 4, Mtvscr, Addi 4 4 20] @ L32VEC 4"

definition machine0 :: "vregs \<Rightarrow> slots \<Rightarrow> vmachine" where
  "machine0 rs b = \<lparr>regs = rs, gpr = \<lambda>_. 0, r0 = 0, slots = b\<rparr>"

definition save_vec_context :: "vregs \<Rightarrow> slots \<Rightarrow> slots" where
  \<comment> \<open>the buffer afterwards; the registers are about to be overwritten or switched off\<close>
  "save_vec_context rs b = slots (exec_all save_code (machine0 rs b))"

definition load_vec_context :: "vregs \<Rightarrow> slots \<Rightarrow> vregs" where
  "load_vec_context rs b = regs (exec_all load_code (machine0 rs b))"

section \<open>Four registers at a time\<close>

lemma exec_all_simps [simp]:
  "exec_all [] st = st" "exec_all (i # is) st = exec_all is (exec i st)"
  "exec_all (xs @ ys) st = exec_all ys (exec_all xs st)"
  by (simp_all add: exec_all_def)

text \<open>Slots \<open>k\<close> to \<open>k + 3\<close> with registers \<open>i\<close> to \<open>i + 3\<close>.\<close>

definition put4 :: "vregs \<Rightarrow> nat \<Rightarrow> nat \<Rightarrow> slots \<Rightarrow> slots" where
  "put4 rs i k b = (\<lambda>n. if k \<le> n \<and> n < k + 4 then vr rs (i + (n - k)) else b n)"

definition zero4 :: "nat \<Rightarrow> slots \<Rightarrow> slots" where
  "zero4 k b = (\<lambda>n. if k \<le> n \<and> n < k + 4 then (0, 0, 0, 0) else b n)"

lemma between4: "(k :: nat) \<le> n \<and> n < k + 4 \<longleftrightarrow> n = k \<or> n = k + 1 \<or> n = k + 2 \<or> n = k + 3"
  by auto

lemma exec_S4VEC:
  "gpr st ro = 16 * k \<Longrightarrow> exec_all (S4VEC i ro) st = st\<lparr>slots := put4 (regs st) i k (slots st)\<rparr>"
  by (auto simp: S4VEC_def put4_def slot_def fun_eq_iff between4 intro!: vmachine.equality)

lemma exec_Z4VEC:
  "gpr st ro = 32 * k \<Longrightarrow> exec_all (Z4VEC ro) st = st\<lparr>slots := zero4 (2 * k) (slots st)\<rparr>"
  by (auto simp: Z4VEC_def zero4_def slot_def Let_def fun_eq_iff between4 intro!: vmachine.equality)

lemma exec_S4VEC_P:
  assumes "gpr st ri = 32 * k" and "ri \<noteq> rj"
  shows "exec_all (S4VEC_P i ri rj) st =
    st\<lparr>gpr := (gpr st)(rj := 32 * k + 64), slots := put4 (regs st) i (2 * k) (zero4 (2 * k + 4) (slots st))\<rparr>"
proof -
  let ?st = "st\<lparr>gpr := (gpr st)(rj := 32 * k + 64)\<rparr>"
  have e: "2 * (k + 2) = 2 * k + 4" by simp
  have "exec (Addi rj ri 64) st = ?st" using assms(1) by simp
  moreover have "exec_all (Z4VEC rj) ?st = ?st\<lparr>slots := zero4 (2 * k + 4) (slots st)\<rparr>"
    using exec_Z4VEC [of ?st rj "k + 2", unfolded e] by simp
  moreover have "gpr ?st ri = 16 * (2 * k)" using assms by simp
  ultimately show ?thesis
    by (simp add: S4VEC_P_def P4VEC_def exec_S4VEC [where k = "2 * k"])
qed

lemma put4_zero4: "put4 rs i k (zero4 (k + 4) b) = zero4 (k + 4) (put4 rs i k b)"
  "put4 rs i k (zero4 k b) = put4 rs i k b"
  by (auto simp: put4_def zero4_def fun_eq_iff)

definition putn :: "vregs \<Rightarrow> nat \<Rightarrow> slots \<Rightarrow> slots" where
  "putn rs m b = (\<lambda>n. if 2 \<le> n \<and> n < 2 + m then vr rs (n - 2) else b n)"

lemma put4_putn: "k = 2 + m \<Longrightarrow> put4 rs m k (putn rs m b) = putn rs (m + 4) b"
  by (auto simp: put4_def putn_def fun_eq_iff)

lemma putn_0: "putn rs 0 b = b"
  by (auto simp: putn_def fun_eq_iff)

text \<open>The zeroed lines are those the next group of stores fills.\<close>

lemma exec_S32VEC:
  assumes "gpr st 5 = 32"
  shows "slots (exec_all (S32VEC 5 4) (st\<lparr>slots := zero4 2 b\<rparr>)) = putn (regs st) 32 b \<and>
    regs (exec_all (S32VEC 5 4) (st\<lparr>slots := zero4 2 b\<rparr>)) = regs st \<and>
    r0 (exec_all (S32VEC 5 4) (st\<lparr>slots := zero4 2 b\<rparr>)) = r0 st"
proof -
  have step: "put4 rs i k (zero4 (k + 4) (zero4 k (putn rs i b'))) = zero4 (k + 4) (putn rs (i + 4) b')"
    if "k = 2 + i" for rs i k b'
    by (simp only: put4_zero4 put4_putn [OF that])
  have last: "put4 rs i k (zero4 k (putn rs i b')) = putn rs (i + 4) b'" if "k = 2 + i" for rs i k b'
    by (simp only: put4_zero4 put4_putn [OF that])
  note S = step [where i = 0 and k = 2] step [where i = 4 and k = 6] step [where i = 8 and k = 10]
    step [where i = 12 and k = 14] step [where i = 16 and k = 18] step [where i = 20 and k = 22]
    step [where i = 24 and k = 26] last [where i = 28 and k = 30]
  show ?thesis
    using assms S [of "regs st" b, simplified]
    by (simp add: S32VEC_def S8VEC_P_def exec_S4VEC_P [where k = 1] exec_S4VEC_P [where k = 3] exec_S4VEC_P [where k = 5]
        exec_S4VEC_P [where k = 7] exec_S4VEC_P [where k = 9] exec_S4VEC_P [where k = 11] exec_S4VEC_P [where k = 13]
        exec_S4VEC [where k = 30] putn_0)
qed

lemma save_vec_context_eq:
  "save_vec_context rs b =
     (putn rs 32 b)(0 := set_word 3 (vscr rs) (set_word 0 (vrsave rs) (b 0)))"
proof -
  let ?st = "(machine0 rs b)\<lparr>gpr := (\<lambda>_. 0)(5 := 32), r0 := vrsave rs\<rparr>"
  have z: "exec_all [Mfvrsave, Li 5 32, Dcbz 0 5, Dcbz 2 5] (machine0 rs b) = ?st\<lparr>slots := zero4 2 b\<rparr>"
    by (auto simp: machine0_def slot_def Let_def zero4_def fun_eq_iff between4 [of 2, simplified]
        intro!: vmachine.equality)
  let ?t = "exec_all (S32VEC 5 4) (?st\<lparr>slots := zero4 2 b\<rparr>)"
  have t: "slots ?t = putn rs 32 b" "regs ?t = rs" "r0 ?t = vrsave rs"
    using exec_S32VEC [of ?st b] by (simp_all add: machine0_def)
  have "save_vec_context rs b = slots (exec_all [Mfvscr, Stw0, Li 5 12, Stvewx 5] ?t)"
    by (simp only: save_vec_context_def save_code_def exec_all_simps(3) z)
  then show ?thesis
    by (simp add: t slot_def Let_def word_at_def putn_def)
qed

lemma exec_L4VEC:
  "gpr st ro = 16 * k \<Longrightarrow> exec_all (L4VEC i ro) st =
     st\<lparr>regs := (regs st)\<lparr>vr := (\<lambda>n. if i \<le> n \<and> n < i + 4 then slots st (k + (n - i)) else vr (regs st) n)\<rparr>\<rparr>"
  by (auto simp: L4VEC_def slot_def fun_eq_iff between4 add.commute intro!: vmachine.equality vregs.equality)

definition loaded :: "slots \<Rightarrow> nat \<Rightarrow> (nat \<Rightarrow> vec) \<Rightarrow> nat \<Rightarrow> vec" where
  "loaded b m f = (\<lambda>n. if n < m then b (n + 2) else f n)"

lemma exec_L4VEC_loaded:
  assumes "gpr st ro = 16 * k" and "k = i + 2" and "vr (regs st) = loaded (slots st) i f"
  shows "exec_all (L4VEC i ro) st = st\<lparr>regs := (regs st)\<lparr>vr := loaded (slots st) (i + 4) f\<rparr>\<rparr>"
proof -
  have "(\<lambda>n. if i \<le> n \<and> n < i + 4 then slots st (k + (n - i)) else loaded (slots st) i f n) = loaded (slots st) (i + 4) f"
    using assms(2) by (auto simp: loaded_def fun_eq_iff)
  then show ?thesis
    unfolding exec_L4VEC [OF assms(1)] assms(3) by (rule arg_cong)
qed

lemma exec_L4VECA_loaded:
  assumes "gpr st ro = 16 * k" and "k = i + 2" and "vr (regs st) = loaded (slots st) i f"
  shows "exec_all (L4VECA i ro) st =
    st\<lparr>gpr := (gpr st)(ro := 16 * (k + 4)), regs := (regs st)\<lparr>vr := loaded (slots st) (i + 4) f\<rparr>\<rparr>"
  using exec_L4VEC_loaded [OF assms] assms(1) by (auto simp: L4VECA_def intro!: vmachine.equality)

lemma exec_L32VEC:
  assumes "gpr st 4 = 32"
  shows "exec_all (L32VEC 4) st =
    st\<lparr>gpr := (gpr st)(4 := 480), regs := (regs st)\<lparr>vr := loaded (slots st) 32 (vr (regs st))\<rparr>\<rparr>"
proof -
  let ?f = "vr (regs st)"
  have 0: "vr (regs st) = loaded (slots st) 0 ?f" by (simp add: loaded_def)
  show ?thesis
    using assms 0
    by (simp add: L32VEC_def L8VECA_def exec_L4VECA_loaded [where k = 2 and f = ?f] exec_L4VECA_loaded [where k = 6 and f = ?f]
        exec_L4VECA_loaded [where k = 10 and f = ?f] exec_L4VECA_loaded [where k = 14 and f = ?f]
        exec_L4VECA_loaded [where k = 18 and f = ?f] exec_L4VECA_loaded [where k = 22 and f = ?f]
        exec_L4VECA_loaded [where k = 26 and f = ?f] exec_L4VEC_loaded [where k = 30 and f = ?f])
qed

lemma word_at_set_word: "word_at 0 (set_word 0 w v) = w" "word_at 3 (set_word 3 w v) = w"
  "word_at 0 (set_word 3 w v) = word_at 0 v" "word_at (Suc 0) (set_word 3 w v) = word_at (Suc 0) v" "word_at (Suc 0) (set_word 0 w v) = word_at (Suc 0) v"
  by (simp_all add: word_at_def set_word_def split: prod.split)

lemma load_vec_context_eq:
  "vr (load_vec_context rs b) n = (if n < 32 then b (n + 2) else vr rs n)"
  "vrsave (load_vec_context rs b) = word_at 0 (b 0)"
  "vscr (load_vec_context rs b) = word_at 3 (b 0)"
proof -
  let ?st = "exec_all [Lwz0, Mtvrsave, Li 4 12, Lvewx 4, Mtvscr, Addi 4 4 20] (machine0 rs b)"
  have st: "gpr ?st 4 = 32" "slots ?st = b" "vrsave (regs ?st) = word_at 0 (b 0)" "vscr (regs ?st) = word_at 3 (b 0)"
    "\<And>n. n \<noteq> 0 \<Longrightarrow> vr (regs ?st) n = vr rs n"
    by (simp_all add: machine0_def slot_def Let_def word_at_set_word)
  have L: "regs (exec_all (L32VEC 4) st) = (regs st)\<lparr>vr := loaded (slots st) 32 (vr (regs st))\<rparr>" if "gpr st 4 = 32" for st
    using exec_L32VEC [OF that] by simp
  have l: "load_vec_context rs b = (regs ?st)\<lparr>vr := loaded b 32 (vr (regs ?st))\<rparr>"
    by (simp only: load_vec_context_def load_code_def exec_all_simps(3) L [OF st(1)] st(2))
  show "vr (load_vec_context rs b) n = (if n < 32 then b (n + 2) else vr rs n)"
    "vrsave (load_vec_context rs b) = word_at 0 (b 0)" "vscr (load_vec_context rs b) = word_at 3 (b 0)"
    unfolding l using st by (simp_all add: loaded_def del: exec_all_simps)
qed

section \<open>Properties\<close>

text \<open>The part of the vector unit's state that belongs to a thread.\<close>

type_synonym vstate = "vec list \<times> u32 \<times> u32"

definition vstate_of :: "vregs \<Rightarrow> vstate" where
  "vstate_of rs = (map (vr rs) [0..<32], vrsave rs, vscr rs)"

definition vstate_of_buf :: "slots \<Rightarrow> vstate" where
  "vstate_of_buf b = (map (\<lambda>n. b (n + 2)) [0..<32], word_at 0 (b 0), word_at 3 (b 0))"

lemma vstate_load: "vstate_of (load_vec_context rs b) = vstate_of_buf b"
  by (simp add: vstate_of_def vstate_of_buf_def load_vec_context_eq)

lemma vstate_save: "vstate_of_buf (save_vec_context rs b) = vstate_of rs"
  by (simp add: vstate_of_def vstate_of_buf_def save_vec_context_eq word_at_set_word putn_def)

text \<open>C14: The assembly that saves a vector context stores all 32 registers, VRSAVE and VSCR
  within the 34 slots of the buffer: slot \<open>i + 2\<close> holds register \<open>i\<close>, the cache lines cleared ahead
  of the stores are those the stores fill, the word with the pointer to the allocated block
  keeps its value, and nothing behind the buffer changes. Loading the buffer, whatever the
  registers hold at that time, brings back the same registers.\<close>

theorem vec_save_load_roundtrip:
  "vstate_of (load_vec_context rs' (save_vec_context rs b)) = vstate_of rs \<and>
   word_at 1 (save_vec_context rs b 0) = word_at 1 (b 0) \<and>
   (\<forall>i. save_vec_context rs b (i + 34) = b (i + 34)) \<and> save_vec_context rs b 1 = b 1"
  by (simp add: vstate_load vstate_save) (simp add: save_vec_context_eq word_at_set_word putn_def)

end
