(* ===== verification/VecContext.thy ===== *)
theory VecContext
  imports VecSave
begin

unbundle bit_operations_syntax

text \<open>
  Vector register contexts of threads, \<^verbatim>\<open>altivec/vec_context.c\<close>, in the build without
  \<open>ALL_THREADS_ALTIVEC\<close> (the theory \<open>VecAllThreads\<close> has the other one): threads obtain a context buffer with \<open>vec_task_enable\<close>, and the
  registers are saved and loaded lazily when a thread with a buffer is switched to that is not
  the owner of the registers.

  Threads and buffers are named by their addresses. The abstract view gives every enabled thread
  vector registers of its own; the thread-switch extension refines it.
\<close>

section \<open>State\<close>

record vecsys =
  vec_owner :: "nat option"
  vec_extension_id :: nat
  ext :: "nat \<Rightarrow> u32 option"       \<comment> \<open>\<open>thread->extensions[vec_idx]\<close>, \<open>None\<close> for null\<close>
  bufs :: "u32 \<Rightarrow> slots"           \<comment> \<open>the buffers' contents\<close>
  cpu :: vregs
  msr :: u32
  tmsr :: "nat \<Rightarrow> u32"             \<comment> \<open>\<open>thread->Registers.msr\<close>\<close>
  tgpr1 :: "nat \<Rightarrow> u32"            \<comment> \<open>\<open>thread->Registers.gpr1\<close>\<close>
  stack_mem :: "u32 \<Rightarrow> u32"        \<comment> \<open>the words of the threads' stacks, by address\<close>
  executing :: nat                 \<comment> \<open>\<open>_Thread_Executing\<close>\<close>

abbreviation MSR_VE :: u32 where "MSR_VE \<equiv> 0x02000000"
abbreviation VSCR_INIT_VAL :: u32 where "VSCR_INIT_VAL \<equiv> 0"
abbreviation vrsave_init_val :: u32 where "vrsave_init_val \<equiv> 0xffffffff"
abbreviation RTEMS_NO_MEMORY :: int where "RTEMS_NO_MEMORY \<equiv> 26"
abbreviation VecCtxtBuf_size :: int where "VecCtxtBuf_size \<equiv> 544"

section \<open>Allocation\<close>

definition extalloc :: "u32 \<Rightarrow> vecsys \<Rightarrow> (u32 \<times> vecsys) res" where
  \<comment> \<open>\<open>p\<close> is what \<open>_Workspace_Allocate\<close> returned for 544 + 28 bytes; the back pointer is
      stored before anything is tested\<close>
  "extalloc p s =
     (let paligned = (p + 28) AND NOT 31 in
      if paligned = 0 then Inl NullDeref
      else if \<not> (p \<le> paligned \<and> paligned AND 31 = 0) then Inl Fatal
      else Inr (paligned, s\<lparr>bufs := (bufs s)(paligned := (bufs s paligned)(0 := set_word 1 p (bufs s paligned 0)))\<rparr>))"

definition extfree :: "u32 \<Rightarrow> vecsys \<Rightarrow> u32" where
  \<comment> \<open>the address handed to \<open>_Workspace_Free\<close>\<close>
  "extfree vc s = word_at 1 (bufs s vc 0)"

definition init_vec_ctxt :: "slots \<Rightarrow> slots" where
  "init_vec_ctxt b = b(0 := set_word 3 VSCR_INIT_VAL (set_word 0 vrsave_init_val (b 0)))"

section \<open>The extension\<close>

definition get_tcp :: "nat \<Rightarrow> vecsys \<Rightarrow> u32 option" where
  "get_tcp thread s = ext s thread"

definition set_tcp :: "nat \<Rightarrow> u32 option \<Rightarrow> vecsys \<Rightarrow> vecsys" where
  "set_tcp thread vp s = s\<lparr>ext := (ext s)(thread := vp)\<rparr>"

definition set_MSR_VE :: "vecsys \<Rightarrow> u32 \<times> vecsys" where
  "set_MSR_VE s = (msr s, s\<lparr>msr := msr s OR MSR_VE\<rparr>)"

definition clr_MSR_VE :: "vecsys \<Rightarrow> vecsys" where
  "clr_MSR_VE s = s\<lparr>msr := msr s AND NOT MSR_VE\<rparr>"

definition rst_MSR_VE :: "u32 \<Rightarrow> vecsys \<Rightarrow> vecsys" where
  "rst_MSR_VE old s = s\<lparr>msr := old\<rparr>"

lemmas msr_defs [simp] = get_tcp_def set_tcp_def set_MSR_VE_def clr_MSR_VE_def rst_MSR_VE_def

definition vec_thread_switch :: "nat \<Rightarrow> vecsys \<Rightarrow> vecsys res" where
  \<comment> \<open>saving and loading without the enable bit would raise the exception for an unavailable unit; the hints
      to the data cache have no other effect\<close>
  "vec_thread_switch heir s =
     (case get_tcp heir s of None \<Rightarrow> Inr s
      | Some vp \<Rightarrow>
          if vec_owner s = Some heir then Inr s
          else
            (let (old, s) = set_MSR_VE s in
             if msr s AND MSR_VE = 0 then Inl Fatal
             else
               (case (case vec_owner s of None \<Rightarrow> Inr s
                      | Some w \<Rightarrow>
                          (case get_tcp w s of None \<Rightarrow> Inl NullDeref
                           | Some b \<Rightarrow> Inr (s\<lparr>bufs := (bufs s)(b := save_vec_context (cpu s) (bufs s b))\<rparr>))) of
                  Inl f \<Rightarrow> Inl f
                | Inr s \<Rightarrow> Inr (rst_MSR_VE old (s\<lparr>cpu := load_vec_context (cpu s) (bufs s vp), vec_owner := Some heir\<rparr>)))))"

definition vec_thread_delete :: "nat \<Rightarrow> vecsys \<Rightarrow> u32 list \<times> vecsys" where
  \<comment> \<open>the blocks returned to the workspace\<close>
  "vec_thread_delete deletee s =
     (let s = (if vec_owner s = Some deletee
               then (if executing s = deletee then clr_MSR_VE s else s)\<lparr>vec_owner := None\<rparr>
               else s);
          s = s\<lparr>tmsr := (tmsr s)(deletee := tmsr s deletee AND NOT MSR_VE)\<rparr> in
      case get_tcp deletee s of None \<Rightarrow> ([], s)
      | Some vc \<Rightarrow> ([extfree vc s], set_tcp deletee None s))"

definition vec_thread_fixup_env :: "nat \<Rightarrow> vecsys \<Rightarrow> vecsys" where
  "vec_thread_fixup_env thread s =
     (let sp = tgpr1 s thread AND NOT 15 in
      s\<lparr>tmsr := (tmsr s)(thread := tmsr s thread AND NOT MSR_VE),
        tgpr1 := (tgpr1 s)(thread := sp), stack_mem := (stack_mem s)(sp := 0)\<rparr>)"

definition vec_thread_create :: "nat \<Rightarrow> vecsys \<Rightarrow> bool" where
  "vec_thread_create new_task s = True"

definition vec_thread_start :: "nat \<Rightarrow> vecsys \<Rightarrow> vecsys" where
  "vec_thread_start startee s = vec_thread_fixup_env startee s"

definition vec_thread_restart :: "nat \<Rightarrow> vecsys \<Rightarrow> u32 list \<times> vecsys" where
  "vec_thread_restart restartee s =
     (let (freed, s) = vec_thread_delete restartee s in (freed, vec_thread_fixup_env restartee s))"

text \<open>The walk along the stack frames in \<open>vec_task_enable\<close>: the list has the frame addresses
  from the current one to the last, whose back chain is null.\<close>

fun walk_stack :: "nat \<Rightarrow> u32 list \<Rightarrow> u32 option \<Rightarrow> (u32 \<times> u32 option) res" where
  "walk_stack i [] misa = Inl NullDeref"
| "walk_stack i [r1] misa = Inr (r1, if r1 AND 15 \<noteq> 0 then Some r1 else misa)"
| "walk_stack i (r1 # r # rs) misa =
     (if i < 100 then walk_stack (Suc i) (r # rs) (if r1 AND 15 \<noteq> 0 then Some r1 else misa)
      else Inl Fatal)"

definition vec_task_enable :: "u32 list \<Rightarrow> u32 \<Rightarrow> vecsys \<Rightarrow> (int \<times> vecsys) res" where
  \<comment> \<open>the stack frames, the result of \<open>_Workspace_Allocate\<close>\<close>
  "vec_task_enable frames p s =
     (if vec_extension_id s = 0 then Inr (-1, s)
      else case walk_stack 0 frames None of Inl f \<Rightarrow> Inl f
      | Inr (r1, Some misa) \<Rightarrow> Inr (-1, s)
      | Inr (r1, None) \<Rightarrow>
          if msr s AND MSR_VE \<noteq> 0 then Inr (-1, s)
          else (case extalloc p s of Inl f \<Rightarrow> Inl f
                | Inr (tcbext, s) \<Rightarrow>
                    if tcbext = 0 then Inr (RTEMS_NO_MEMORY, s)
                    else
                      (let s = s\<lparr>bufs := (bufs s)(tcbext := init_vec_ctxt (bufs s tcbext))\<rparr>;
                           s = set_tcp (executing s) (Some tcbext) s in
                       case vec_thread_switch (executing s) s of Inl f \<Rightarrow> Inl f
                       | Inr s \<Rightarrow> Inr (0, snd (set_MSR_VE s)))))"

section \<open>Installing and removing the extension\<close>

record install_env =
  PPC_STACK_ALIGNMENT :: u32  \<comment> \<open>the CPU support's constant\<close>
  probe_frames :: "u32 \<times> u32" \<comment> \<open>the stack pointer in the probe and in the routine it calls\<close>
  has_altivec :: bool
  ext_create :: "nat option"  \<comment> \<open>the id, if \<open>rtems_extension_create\<close> succeeds\<close>

definition probe_ppc_stack_alignment :: "u32 \<times> u32 \<Rightarrow> u32" where
  "probe_ppc_stack_alignment r = (fst r - snd r) AND NOT 0xf"

definition check_stack_alignment :: "install_env \<Rightarrow> u32" where
  "check_stack_alignment e =
     (if PPC_STACK_ALIGNMENT e < 16 then 1 else 0) OR
     (if probe_ppc_stack_alignment (probe_frames e) < 16 then 2 else 0)"

definition vec_install_extension :: "install_env \<Rightarrow> vecsys \<Rightarrow> (int \<times> vecsys) res" where
  "vec_install_extension e s =
     (if vec_extension_id s \<noteq> 0 then Inr (-1, s)
      else if check_stack_alignment e AND 2 \<noteq> 0 then Inl Fatal
      else if \<not> has_altivec e then Inr (-1, s)
      else case ext_create e of None \<Rightarrow> Inr (-1, s)
      | Some i \<Rightarrow> Inr (0, s\<lparr>vec_extension_id := i\<rparr>))"

definition cexpModuleFinalize :: "bool \<Rightarrow> vecsys \<Rightarrow> int \<times> vecsys" where
  \<comment> \<open>\<open>del\<close>: \<open>rtems_extension_delete\<close> succeeds\<close>
  "cexpModuleFinalize del s =
     (if vec_owner s \<noteq> None then (-1, s)
      else if vec_extension_id s \<noteq> 0 \<and> \<not> del then (-1, s)
      else (0, s\<lparr>vec_extension_id := 0\<rparr>))"

text \<open>The variant for RTEMS versions with native support: every task may use the vector unit, and the
  entry points only check that the system is set up for it.\<close>

definition native_vec_task_enable :: int where
  "native_vec_task_enable = 0"

definition native_vec_install_extension :: "bool \<Rightarrow> bool \<Rightarrow> u32 \<Rightarrow> int" where
  \<comment> \<open>built for the simulator; \<open>ppc_cpu_has_altivec()\<close>; the machine state register\<close>
  "native_vec_install_extension psim altivec m =
     (if MSR_VE AND m = 0 then -1 else if \<not> psim \<and> \<not> altivec then -1 else 0)"

section \<open>The system as a machine\<close>

text \<open>
  What happens to the vector unit: the scheduler switches to a thread, exchanging the machine
  state register as it does, the executing thread computes with the vector registers if
  they are switched on for it, it enables them, or a thread is deleted, started or restarted. The
  environment's guarantees are part of the step: the workspace never hands out a block that is in
  use, what a fresh block contains is an input, and only a thread without a context is started.
  A fault leaves the state as it is and is the step's output.
\<close>

datatype vstep =
    Switch nat
  | Compute "vstate \<Rightarrow> vregs"
  | Enable "u32 list" u32 slots
  | Delete nat
  | Start nat
  | Restart nat

definition on_res :: "vecsys \<Rightarrow> (vecsys \<Rightarrow> vecsys) \<Rightarrow> vecsys res \<Rightarrow> fault option \<times> vecsys" where
  "on_res s f r = (case r of Inl e \<Rightarrow> (Some e, s) | Inr s' \<Rightarrow> (None, f s'))"

definition dispatch :: "nat \<Rightarrow> vecsys \<Rightarrow> vecsys" where
  "dispatch t s =
     (let tm = (tmsr s)(executing s := msr s) in s\<lparr>tmsr := tm, msr := tm t, executing := t\<rparr>)"

definition align32 :: "u32 \<Rightarrow> u32" where
  "align32 p = (p + 28) AND NOT 31"

fun vec_step :: "vecsys \<Rightarrow> vstep \<Rightarrow> fault option \<times> vecsys" where
  "vec_step s (Switch t) = on_res s (dispatch t) (vec_thread_switch t s)"
| "vec_step s (Compute f) =
     (None, if msr s AND MSR_VE = 0 then s else s\<lparr>cpu := f (vstate_of (cpu s))\<rparr>)"
| "vec_step s (Enable frames p content) =
     (if align32 p \<in> ran (ext s) then (None, s)
      else let s0 = s\<lparr>bufs := (bufs s)(align32 p := content)\<rparr> in
        on_res s0 (\<lambda>s. s) (map_sum id snd (vec_task_enable frames p s0)))"
| "vec_step s (Delete t) = (None, snd (vec_thread_delete t s))"
| "vec_step s (Start t) = (None, if ext s t = None then vec_thread_start t s else s)"
| "vec_step s (Restart t) = (None, snd (vec_thread_restart t s))"

section \<open>The abstract view\<close>

text \<open>Every enabled thread has a buffer and vector registers of its own.\<close>

record avec =
  arunning :: nat
  ainstalled :: nat
  athreads :: "nat \<Rightarrow> (u32 \<times> vstate) option"

definition avec_enable :: "u32 list \<Rightarrow> u32 \<Rightarrow> slots \<Rightarrow> avec \<Rightarrow> fault option \<times> avec" where
  "avec_enable frames p content a =
     (if ainstalled a = 0 then (None, a)
      else case walk_stack 0 frames None of
        Inl f \<Rightarrow> (Some f, a)
      | Inr (r1, misa) \<Rightarrow>
          if misa \<noteq> None \<or> athreads a (arunning a) \<noteq> None then (None, a)
          else if align32 p = 0 then (Some NullDeref, a)
          else if \<not> p \<le> align32 p then (Some Fatal, a)
          else (None, a\<lparr>athreads := (athreads a)(arunning a \<mapsto>
                 (align32 p, (map (\<lambda>n. content (n + 2)) [0..<32], vrsave_init_val, VSCR_INIT_VAL)))\<rparr>))"

fun avec_step :: "avec \<Rightarrow> vstep \<Rightarrow> fault option \<times> avec" where
  "avec_step a (Switch t) = (None, a\<lparr>arunning := t\<rparr>)"
| "avec_step a (Compute f) =
     (None, case athreads a (arunning a) of None \<Rightarrow> a
            | Some (b, v) \<Rightarrow> a\<lparr>athreads := (athreads a)(arunning a \<mapsto> (b, vstate_of (f v)))\<rparr>)"
| "avec_step a (Enable frames p content) =
     (if align32 p \<in> fst ` ran (athreads a) then (None, a) else avec_enable frames p content a)"
| "avec_step a (Delete t) = (None, a\<lparr>athreads := (athreads a)(t := None)\<rparr>)"
| "avec_step a (Start t) = (None, a)"
| "avec_step a (Restart t) = (None, a\<lparr>athreads := (athreads a)(t := None)\<rparr>)"

definition vabs :: "vecsys \<Rightarrow> avec" where
  "vabs s = \<lparr>arunning = executing s, ainstalled = vec_extension_id s,
     athreads = \<lambda>t. case ext s t of None \<Rightarrow> None
       | Some b \<Rightarrow> Some (b, if vec_owner s = Some t then vstate_of (cpu s) else vstate_of_buf (bufs s b))\<rparr>"

text \<open>Whether the vector unit is switched on for a thread.\<close>

definition ve :: "vecsys \<Rightarrow> nat \<Rightarrow> bool" where
  "ve s t \<longleftrightarrow> (if t = executing s then msr s else tmsr s t) AND MSR_VE \<noteq> 0"

definition ctx_inv :: "vecsys \<Rightarrow> bool" where
  "ctx_inv s \<longleftrightarrow> inj_on (ext s) (dom (ext s)) \<and> (\<forall>w. vec_owner s = Some w \<longrightarrow> ext s w \<noteq> None)"

definition vec_inv :: "vecsys \<Rightarrow> bool" where
  "vec_inv s \<longleftrightarrow> ctx_inv s \<and>
     (ext s (executing s) \<noteq> None \<longrightarrow> vec_owner s = Some (executing s)) \<and>
     (\<forall>t. ve s t \<longleftrightarrow> ext s t \<noteq> None)"

lemma MSR_VE_bit: "w AND MSR_VE \<noteq> 0 \<longleftrightarrow> bit w 25"
proof -
  have "MSR_VE = 2 ^ 25" by simp
  then show ?thesis by (metis and_exp_eq_0_iff_not_bit)
qed

lemma ve_bit: "ve s t \<longleftrightarrow> bit (if t = executing s then msr s else tmsr s t) 25"
  by (simp only: ve_def MSR_VE_bit)

lemma MSR_VE_ops: "\<not> bit (w AND NOT MSR_VE) 25" "\<not> bit (w AND - 33554433 :: u32) 25" "bit (w OR MSR_VE) 25"
  by (simp_all add: bit_simps bit_numeral_simps)

lemma ctx_inv_inj: "ctx_inv s \<Longrightarrow> ext s t = Some b \<Longrightarrow> ext s u = Some b \<Longrightarrow> t = u"
  by (metis domI inj_onD ctx_inv_def)

lemma vec_inv_ctx: "vec_inv s \<Longrightarrow> ctx_inv s"
  by (simp add: vec_inv_def)

section \<open>Switching\<close>

lemma MSR_VE_set: "(w OR MSR_VE) AND MSR_VE \<noteq> 0"
  using MSR_VE_ops(3) [of w] unfolding MSR_VE_bit .

lemma vec_thread_switch_alt:
  "vec_thread_switch heir s =
     (case ext s heir of None \<Rightarrow> Inr s
      | Some vp \<Rightarrow>
          if vec_owner s = Some heir then Inr s
          else
            (case vec_owner s of None \<Rightarrow> Inr (s\<lparr>cpu := load_vec_context (cpu s) (bufs s vp), vec_owner := Some heir\<rparr>)
             | Some w \<Rightarrow>
                 (case ext s w of None \<Rightarrow> Inl NullDeref
                  | Some b \<Rightarrow>
                      (let m = (bufs s)(b := save_vec_context (cpu s) (bufs s b)) in
                       Inr (s\<lparr>bufs := m, cpu := load_vec_context (cpu s) (m vp), vec_owner := Some heir\<rparr>)))))"
  using MSR_VE_set [of "msr s"] by (auto simp: vec_thread_switch_def Let_def split: option.splits intro!: vecsys.equality)

text \<open>The extension leaves every thread's registers as they are and loads those of the heir.\<close>

lemma vec_thread_switch_spec:
  assumes inv: "ctx_inv s"
  obtains s' where "vec_thread_switch heir s = Inr s'" "vabs s' = vabs s" "ext s' = ext s" "msr s' = msr s"
    "tmsr s' = tmsr s" "executing s' = executing s"
    "vec_owner s' = (if ext s heir = None then vec_owner s else Some heir)"
proof (cases "ext s heir")
  case None
  then show thesis by (intro that [of s]) (simp_all add: vec_thread_switch_alt)
next
  case (Some vp)
  show thesis
  proof (cases "vec_owner s")
    case None
    let ?s = "s\<lparr>cpu := load_vec_context (cpu s) (bufs s vp), vec_owner := Some heir\<rparr>"
    have "vabs ?s = vabs s" using Some None by (auto simp: vabs_def fun_eq_iff vstate_load split: option.split)
    with Some None show thesis by (intro that [of ?s]) (simp_all add: vec_thread_switch_alt)
  next
    case owner: (Some w)
    show thesis
    proof (cases "w = heir")
      case True
      with Some owner show thesis by (intro that [of s]) (simp_all add: vec_thread_switch_alt)
    next
      case False
      obtain b where b: "ext s w = Some b" using inv owner by (auto simp: ctx_inv_def)
      with False Some have "b \<noteq> vp" using ctx_inv_inj [OF inv] by blast
      let ?m = "(bufs s)(b := save_vec_context (cpu s) (bufs s b))"
      let ?s = "s\<lparr>bufs := ?m, cpu := load_vec_context (cpu s) (?m vp), vec_owner := Some heir\<rparr>"
      have "athreads (vabs ?s) t = athreads (vabs s) t" for t
        using Some owner b False \<open>b \<noteq> vp\<close> ctx_inv_inj [OF inv, of t b w]
        by (auto simp: vabs_def vstate_load vstate_save split: option.split)
      then have "vabs ?s = vabs s" by (intro avec.equality) (auto simp: fun_eq_iff vabs_def)
      moreover have "vec_thread_switch heir s = Inr ?s"
        using Some owner b False by (simp add: vec_thread_switch_alt)
      ultimately show thesis using Some by (intro that [of ?s]) simp_all
    qed
  qed
qed

lemma switch_step:
  assumes inv: "vec_inv s"
  shows "vec_inv (snd (vec_step s (Switch t))) \<and>
    avec_step (vabs s) (Switch t) = (fst (vec_step s (Switch t)), vabs (snd (vec_step s (Switch t))))"
proof -
  obtain s' where s': "vec_thread_switch t s = Inr s'" "vabs s' = vabs s" "ext s' = ext s" "msr s' = msr s"
    "tmsr s' = tmsr s" "executing s' = executing s"
    "vec_owner s' = (if ext s t = None then vec_owner s else Some t)"
    using vec_thread_switch_spec [OF vec_inv_ctx [OF inv]] by blast
  have "ve (dispatch t s') u = ve s u" for u
    using s' by (simp add: ve_def dispatch_def Let_def)
  then have "vec_inv (dispatch t s')"
    using inv s' by (auto simp: vec_inv_def ctx_inv_def) (auto simp: dispatch_def Let_def split: if_splits)
  moreover have "vabs (dispatch t s') = (vabs s')\<lparr>arunning := t\<rparr>"
    by (auto simp: vabs_def dispatch_def Let_def fun_eq_iff split: option.split)
  ultimately show ?thesis using s'(1,2) by (simp add: on_res_def)
qed

lemma compute_vabs:
  assumes "ext s (executing s) = Some b" "vec_owner s = Some (executing s)"
  shows "vabs (s\<lparr>cpu := x\<rparr>) = (vabs s)\<lparr>athreads := (athreads (vabs s))(executing s \<mapsto> (b, vstate_of x))\<rparr>"
proof -
  have "athreads (vabs (s\<lparr>cpu := x\<rparr>)) t = ((athreads (vabs s))(executing s \<mapsto> (b, vstate_of x))) t" for t
    using assms by (simp add: vabs_def split: option.split)
  then show ?thesis by (intro avec.equality) (auto simp: fun_eq_iff vabs_def)
qed

lemma compute_step:
  assumes inv: "vec_inv s"
  shows "vec_inv (snd (vec_step s (Compute f))) \<and>
    avec_step (vabs s) (Compute f) = (fst (vec_step s (Compute f)), vabs (snd (vec_step s (Compute f))))"
proof (cases "ext s (executing s)")
  case None
  with inv have "\<not> ve s (executing s)" by (simp add: vec_inv_def)
  then have "msr s AND MSR_VE = 0" by (simp add: ve_def)
  with None inv show ?thesis by (simp add: vabs_def)
next
  case (Some b)
  with inv have "ve s (executing s)" and own: "vec_owner s = Some (executing s)"
    by (simp_all add: vec_inv_def)
  then have on: "msr s AND MSR_VE \<noteq> 0" "vec_owner s = Some (executing s)" by (simp_all add: ve_def)
  have "ve (s\<lparr>cpu := x\<rparr>) = ve s" for x
    by (simp add: ve_def fun_eq_iff)
  then have "vec_inv (s\<lparr>cpu := x\<rparr>)" for x
    using inv by (simp add: vec_inv_def ctx_inv_def)
  moreover note compute_vabs [OF Some on(2)]
  moreover have "athreads (vabs s) (executing s) = Some (b, vstate_of (cpu s))" "arunning (vabs s) = executing s"
    using Some on by (simp_all add: vabs_def)
  ultimately show ?thesis using on by simp
qed

lemma delete_fields:
  fixes s t
  defines "s' \<equiv> snd (vec_thread_delete t s)"
  shows "ext s' = (ext s)(t := None)" "executing s' = executing s" "bufs s' = bufs s" "cpu s' = cpu s"
    "vec_extension_id s' = vec_extension_id s"
    "vec_owner s' = (if vec_owner s = Some t then None else vec_owner s)"
    "tmsr s' = (tmsr s)(t := tmsr s t AND NOT MSR_VE)"
    "msr s' = (if vec_owner s = Some t \<and> executing s = t then msr s AND NOT MSR_VE else msr s)"
  by (auto simp: s'_def vec_thread_delete_def Let_def fun_eq_iff split: option.split)

lemma delete_vabs:
  "vabs (snd (vec_thread_delete t s)) = (vabs s)\<lparr>athreads := (athreads (vabs s))(t := None)\<rparr>"
proof -
  have "athreads (vabs (snd (vec_thread_delete t s))) u = ((athreads (vabs s))(t := None)) u" for u
    by (auto simp: vabs_def delete_fields split: option.split)
  then show ?thesis by (intro avec.equality) (auto simp: fun_eq_iff, simp_all add: vabs_def delete_fields)
qed

lemma delete_ve:
  assumes "\<And>u. ve s u \<Longrightarrow> u = executing s \<Longrightarrow> vec_owner s = Some u"
  shows "ve (snd (vec_thread_delete t s)) u \<longleftrightarrow> u \<noteq> t \<and> ve s u"
  using assms [of t] by (auto simp: ve_bit delete_fields MSR_VE_ops)

lemma delete_ctx_inv: "ctx_inv s \<Longrightarrow> ctx_inv (snd (vec_thread_delete t s))"
  by (auto simp: ctx_inv_def delete_fields inj_on_def dom_def split: if_splits)

lemma delete_spec:
  assumes inv: "vec_inv s"
  shows "vec_inv (snd (vec_thread_delete t s)) \<and>
    vabs (snd (vec_thread_delete t s)) = (vabs s)\<lparr>athreads := (athreads (vabs s))(t := None)\<rparr>"
proof -
  have "ve (snd (vec_thread_delete t s)) u \<longleftrightarrow> u \<noteq> t \<and> ve s u" for u
    by (rule delete_ve) (use inv in \<open>auto simp: vec_inv_def\<close>)
  then have "vec_inv (snd (vec_thread_delete t s))"
    using inv delete_ctx_inv [of s t] by (auto simp: vec_inv_def delete_fields split: if_splits)
  then show ?thesis by (simp add: delete_vabs)
qed

lemma fixup_spec:
  assumes inv: "vec_inv s" and none: "ext s t = None"
  shows "vec_inv (vec_thread_fixup_env t s) \<and> vabs (vec_thread_fixup_env t s) = vabs s"
proof -
  let ?s = "vec_thread_fixup_env t s"
  have "\<not> ve s t" using inv none by (simp add: vec_inv_def)
  then have "ve ?s u \<longleftrightarrow> ve s u" for u
    by (auto simp: ve_bit vec_thread_fixup_env_def Let_def MSR_VE_ops)
  with inv have "vec_inv ?s"
    by (simp add: vec_inv_def ctx_inv_def) (simp add: vec_thread_fixup_env_def Let_def)
  then show ?thesis
    by (auto simp: vabs_def vec_thread_fixup_env_def Let_def fun_eq_iff split: option.split)
qed

lemma extalloc_eq:
  "extalloc p s =
     (if align32 p = 0 then Inl NullDeref else if \<not> p \<le> align32 p then Inl Fatal
      else Inr (align32 p, s\<lparr>bufs := (bufs s)(align32 p := (bufs s (align32 p))(0 := set_word 1 p (bufs s (align32 p) 0)))\<rparr>))"
proof -
  have "align32 p AND 31 = 0"
    by (rule bit_word_eqI) (auto simp: align32_def bit_simps)
  then show ?thesis by (simp add: extalloc_def Let_def align32_def)
qed

lemma fresh_vabs: "a \<notin> ran (ext s) \<Longrightarrow> vabs (s\<lparr>bufs := (bufs s)(a := b)\<rparr>) = vabs s"
  by (auto simp: vabs_def fun_eq_iff ranI split: option.split)

lemma fresh_content:
  assumes "vec_inv s" and "a \<notin> ran (ext s)"
  shows "vec_inv (s\<lparr>bufs := (bufs s)(a := b)\<rparr>)" and "vabs (s\<lparr>bufs := (bufs s)(a := b)\<rparr>) = vabs s"
proof -
  have "ve (s\<lparr>bufs := (bufs s)(a := b)\<rparr>) = ve s" by (simp add: ve_def fun_eq_iff)
  then show "vec_inv (s\<lparr>bufs := (bufs s)(a := b)\<rparr>)" using assms(1) by (simp add: vec_inv_def ctx_inv_def)
qed (rule fresh_vabs [OF assms(2)])

lemma vstate_init: "vstate_of_buf (init_vec_ctxt (c(0 := set_word 1 p (c 0)))) =
    (map (\<lambda>n. c (n + 2)) [0..<32], vrsave_init_val, VSCR_INIT_VAL)"
  by (simp add: vstate_of_buf_def init_vec_ctxt_def word_at_set_word)

text \<open>A thread that enables its vector registers gets the initial control registers, and no
  other thread's registers change.\<close>

lemma enable_ok:
  assumes inv: "vec_inv s" and fresh: "a \<notin> ran (ext s)" and none: "ext s (executing s) = None"
    and s1: "s1 = s\<lparr>bufs := (bufs s)(a := init_vec_ctxt (c(0 := set_word 1 p (c 0)))), ext := (ext s)(executing s \<mapsto> a)\<rparr>"
  obtains s' where "vec_thread_switch (executing s) s1 = Inr s'" "vec_inv (s'\<lparr>msr := msr s' OR MSR_VE\<rparr>)"
    "vabs (s'\<lparr>msr := msr s' OR MSR_VE\<rparr>) = (vabs s)\<lparr>athreads := (athreads (vabs s))(executing s \<mapsto>
       (a, (map (\<lambda>n. c (n + 2)) [0..<32], vrsave_init_val, VSCR_INIT_VAL)))\<rparr>"
proof -
  have "ctx_inv s1"
    using vec_inv_ctx [OF inv] fresh by (auto simp: ctx_inv_def s1 inj_on_def dom_def ran_def)
  then obtain s' where s': "vec_thread_switch (executing s) s1 = Inr s'" "vabs s' = vabs s1" "ext s' = ext s1"
    "msr s' = msr s1" "tmsr s' = tmsr s1" "executing s' = executing s1" "vec_owner s' = Some (executing s)"
    using vec_thread_switch_spec [of s1 "executing s"] by (auto simp: s1)
  let ?s = "s'\<lparr>msr := msr s' OR MSR_VE\<rparr>"
  have own: "vec_owner s \<noteq> Some (executing s)" using inv none by (auto simp: vec_inv_def ctx_inv_def)
  have "ve ?s u \<longleftrightarrow> ext s1 u \<noteq> None" for u
  proof (cases "u = executing s")
    case False
    then have "ve ?s u = ve s u" by (simp add: ve_def s' s1)
    with False inv show ?thesis by (simp add: vec_inv_def s1)
  qed (simp add: ve_bit s' s1 MSR_VE_ops)
  then have "vec_inv ?s"
    using \<open>ctx_inv s1\<close> s' by (auto simp: vec_inv_def ctx_inv_def s1)
  moreover have "athreads (vabs s1) u = ((athreads (vabs s))(executing s \<mapsto>
       (a, (map (\<lambda>n. c (n + 2)) [0..<32], vrsave_init_val, VSCR_INIT_VAL)))) u" for u
    using own fresh by (auto simp: vabs_def s1 vstate_init [simplified] ranI split: option.split)
  then have "vabs s1 = (vabs s)\<lparr>athreads := (athreads (vabs s))(executing s \<mapsto>
       (a, (map (\<lambda>n. c (n + 2)) [0..<32], vrsave_init_val, VSCR_INIT_VAL)))\<rparr>"
    by (intro avec.equality) (auto simp: fun_eq_iff, simp_all add: vabs_def s1)
  moreover have "vabs ?s = vabs s'" by (auto simp: vabs_def fun_eq_iff split: option.split)
  ultimately show thesis using s' by (intro that [of s']) simp_all
qed

lemma enable_step:
  assumes inv: "vec_inv s" and fresh: "align32 p \<notin> ran (ext s)"
    and s0: "s0 = s\<lparr>bufs := (bufs s)(align32 p := c)\<rparr>"
  shows "case vec_task_enable frames p s0 of
      Inl f \<Rightarrow> avec_enable frames p c (vabs s) = (Some f, vabs s)
    | Inr (r, s') \<Rightarrow> avec_enable frames p c (vabs s) = (None, vabs s') \<and> vec_inv s'"
proof -
  note F = fresh_content [OF inv fresh, of c, folded s0]
  have on: "msr s0 AND MSR_VE \<noteq> 0 \<longleftrightarrow> athreads (vabs s) (executing s) \<noteq> None"
  proof -
    have "ve s (executing s) \<longleftrightarrow> ext s (executing s) \<noteq> None" using inv by (simp add: vec_inv_def)
    then show ?thesis by (cases "ext s (executing s)") (simp_all add: s0 vabs_def ve_def)
  qed
  have same: "vec_extension_id s0 = vec_extension_id s" "executing s0 = executing s" "ext s0 = ext s"
    "ainstalled (vabs s) = vec_extension_id s" "arunning (vabs s) = executing s"
    by (simp_all add: s0 vabs_def)
  consider (off) "vec_extension_id s = 0" | (fault) f where "vec_extension_id s \<noteq> 0" "walk_stack 0 frames None = Inl f"
    | (bad) r1 misa where "vec_extension_id s \<noteq> 0" "walk_stack 0 frames None = Inr (r1, misa)"
        "misa \<noteq> None \<or> athreads (vabs s) (executing s) \<noteq> None"
    | (null) r1 where "vec_extension_id s \<noteq> 0" "walk_stack 0 frames None = Inr (r1, None)"
        "athreads (vabs s) (executing s) = None" "align32 p = 0 \<or> \<not> p \<le> align32 p"
    | (ok) r1 where "vec_extension_id s \<noteq> 0" "walk_stack 0 frames None = Inr (r1, None)"
        "athreads (vabs s) (executing s) = None" "align32 p \<noteq> 0" "p \<le> align32 p"
    by (cases "walk_stack 0 frames None") (metis, metis surj_pair)
  then show ?thesis
  proof cases
    case ok
    then have none: "ext s (executing s) = None" by (auto simp: vabs_def split: option.splits)
    let ?s1 = "s0\<lparr>bufs := (bufs s0)(align32 p := init_vec_ctxt (c(0 := set_word 1 p (c 0)))), ext := (ext s0)(executing s0 \<mapsto> align32 p)\<rparr>"
    obtain s' where "vec_thread_switch (executing s0) ?s1 = Inr s'" "vec_inv (s'\<lparr>msr := msr s' OR MSR_VE\<rparr>)"
      "vabs (s'\<lparr>msr := msr s' OR MSR_VE\<rparr>) = (vabs s0)\<lparr>athreads := (athreads (vabs s0))(executing s0 \<mapsto>
         (align32 p, (map (\<lambda>n. c (n + 2)) [0..<32], vrsave_init_val, VSCR_INIT_VAL)))\<rparr>"
      using enable_ok [OF F(1) _ _ refl, of "align32 p" c p] fresh none same by auto
    then show ?thesis
      using ok on F(2) same by (simp add: vec_task_enable_def extalloc_eq avec_enable_def s0)
  qed (use on F same in \<open>auto simp: vec_task_enable_def extalloc_eq avec_enable_def split: option.split\<close>)
qed

section \<open>Refinement\<close>

lemma ran_vabs: "fst ` ran (athreads (vabs s)) = ran (ext s)"
proof -
  have "a \<in> fst ` ran (athreads (vabs s)) \<longleftrightarrow> (\<exists>t v. athreads (vabs s) t = Some (a, v))" for a
    by (force simp: ran_def)
  moreover have "(\<exists>v. athreads (vabs s) t = Some (a, v)) \<longleftrightarrow> ext s t = Some a" for t a
    by (simp add: vabs_def del: split_paired_Ex split: option.split)
  ultimately show ?thesis by (auto simp: ran_def)
qed

lemma vec_step_refines:
  assumes inv: "vec_inv s"
  shows "vec_inv (snd (vec_step s i)) \<and> avec_step (vabs s) i = (fst (vec_step s i), vabs (snd (vec_step s i)))"
proof (cases i)
  case (Switch t)
  then show ?thesis using switch_step [OF inv] by simp
next
  case (Compute f)
  then show ?thesis using compute_step [OF inv] by simp
next
  case (Enable frames p c)
  show ?thesis
  proof (cases "align32 p \<in> ran (ext s)")
    case True
    with Enable inv show ?thesis by (simp add: ran_vabs)
  next
    case False
    let ?s0 = "s\<lparr>bufs := (bufs s)(align32 p := c)\<rparr>"
    note E = enable_step [OF inv False refl, where c = c and frames = frames] and F = fresh_content [OF inv False, of c]
    show ?thesis
      using False E F by (cases "vec_task_enable frames p ?s0") (auto simp: Enable ran_vabs on_res_def)
  qed
next
  case (Delete t)
  then show ?thesis using delete_spec [OF inv] by simp
next
  case (Start t)
  then show ?thesis using fixup_spec [OF inv] inv by (simp add: vec_thread_start_def)
next
  case (Restart t)
  have "ext (snd (vec_thread_delete t s)) t = None"
    by (auto simp: vec_thread_delete_def Let_def split: option.split)
  with delete_spec [OF inv, of t] fixup_spec [of "snd (vec_thread_delete t s)" t] Restart show ?thesis
    by (simp add: vec_thread_restart_def split_beta)
qed

interpretation vec_ctx: refined_machine vec_step vec_inv avec_step "\<lambda>a i. True" vabs "\<lambda>f. f"
  by unfold_locales (simp_all add: vec_step_refines)

lemma admits_True [simp]: "admits (\<lambda>a i. True) st a is"
  by (induction "is" arbitrary: a) simp_all

section \<open>Properties\<close>


definition boot :: vecsys where
  "boot = \<lparr>vec_owner = None, vec_extension_id = 5, ext = \<lambda>_. None, bufs = \<lambda>_ _. (0, 0, 0, 0),
     cpu = \<lparr>vr = \<lambda>_. (0, 0, 0, 0), vrsave = 0, vscr = 0\<rparr>, msr = 0x9032, tmsr = \<lambda>_. 0x9032,
     tgpr1 = \<lambda>_. 0x20000, stack_mem = \<lambda>_. 0, executing = 1\<rparr>"

lemma boot_inv: "vec_inv boot"
  by (simp add: vec_inv_def ctx_inv_def boot_def ve_def)


text \<open>A context buffer lies within its workspace block: if the workspace returns a 4-byte
  aligned block of 572 bytes, the buffer is 32-byte aligned, begins at or behind the start of the
  block and its 544 bytes end within it, and freeing the context returns the address of the
  block. If the workspace returns null the code stores through a null pointer before it tests the
  result.\<close>

theorem extalloc_correct:
  assumes "uint p mod 4 = 0" and "uint p + VecCtxtBuf_size + 28 < 2 ^ 32"
  shows "(p = 0 \<longrightarrow> extalloc p s = Inl NullDeref) \<and>
    (p \<noteq> 0 \<longrightarrow> (\<exists>b s'. extalloc p s = Inr (b, s') \<and> uint b mod 32 = 0 \<and> uint p \<le> uint b \<and>
       uint b + VecCtxtBuf_size \<le> uint p + VecCtxtBuf_size + 28 \<and> extfree b s' = p))"
proof -
  have e: "uint (align32 p) = uint p + 28 - (uint p + 28) mod 32"
    unfolding align32_def align_32 using assms(2) uint_plus_u32 [of p 28] by simp
  have "(uint p + 28) mod 32 \<le> 28" using assms(1) by presburger
  then have b: "uint p \<le> uint (align32 p)" "uint (align32 p) \<le> uint p + 28" "uint (align32 p) mod 32 = 0"
    unfolding e by (simp, simp, presburger)
  then have le: "p \<le> align32 p" by (simp add: word_le_def)
  show ?thesis
  proof (cases "p = 0")
    case True
    then show ?thesis by (simp add: extalloc_eq align32_def)
  next
    case False
    then have "0 < uint p" using uint_u32_bounds(1) [of p] by (simp add: order_less_le unsigned_eq_0_iff)
    with b(1) have "align32 p \<noteq> 0" by auto
    with False b le show ?thesis
      by (simp add: extalloc_eq extfree_def word_at_def set_word_def split: prod.split)
  qed
qed

theorem extalloc_correct_witness:
  "\<exists>b s'. extalloc 0x30004 boot = Inr (b, s') \<and> uint b mod 32 = 0 \<and> extfree b s' = 0x30004"
  using extalloc_correct [of "0x30004" boot] by auto

text \<open>The check that guards unloading the extension looks at the owner of the registers
  only: after the owning thread is deleted, the extension can be removed although another thread
  is still vector-enabled and its context can no longer be switched in.\<close>

theorem vec_finalize_ignores_contexts:
  "\<exists>s t. vec_inv s \<and> ext s t \<noteq> None \<and> ve s t \<and> fst (cexpModuleFinalize True s) = 0 \<and>
     vec_extension_id (snd (cexpModuleFinalize True s)) = 0"
proof -
  let ?is = "[Enable [0x20000] 0x30004 (\<lambda>_. (0, 0, 0, 0)), Switch 2, Enable [0x20000] 0x40004 (\<lambda>_. (0, 0, 0, 0))]"
  let ?s = "snd (run vec_step boot ?is)" and ?t = "snd (vec_thread_delete 2 (snd (run vec_step boot ?is)))"
  have inv: "vec_inv ?s" by (rule vec_ctx.run_inv [OF boot_inv])
  have R: "vabs ?s = snd (run avec_step (vabs boot) ?is)"
    using vec_ctx.run_simulates [OF boot_inv, of ?is] by simp
  have A: "arunning (vabs ?s) = 2 \<and> athreads (vabs ?s) 2 \<noteq> None \<and> athreads (vabs ?s) 1 \<noteq> None"
    unfolding R by (simp add: avec_enable_def align32_def) (simp add: vabs_def boot_def)
  have x: "executing ?s = 2" "ext ?s 2 \<noteq> None" "ext ?s 1 \<noteq> None"
    using A by (auto simp: vabs_def split: option.splits simp del: run.simps)
  then have own: "vec_owner ?s = Some 2" using inv by (auto simp: vec_inv_def simp del: run.simps)
  have "vec_inv ?t" using delete_spec [OF inv] by blast
  moreover have t: "ext ?t 1 \<noteq> None" "vec_owner ?t = None"
    using x own by (auto simp: vec_thread_delete_def Let_def split: option.split simp del: run.simps)
  moreover have "ve ?t 1" using t(1) \<open>vec_inv ?t\<close> by (simp add: vec_inv_def del: run.simps)
  ultimately show ?thesis by (intro exI [of _ ?t] exI [of _ 1]) (simp add: cexpModuleFinalize_def del: run.simps)
qed

end
