(* ===== verification/VecAllThreads.thy ===== *)
theory VecAllThreads
  imports VecContext
begin

unbundle bit_operations_syntax

text \<open>
  The build of \<^verbatim>\<open>altivec/vec_context.c\<close> with \<open>ALL_THREADS_ALTIVEC\<close>, which the compiler selects when
  it generates vector instructions itself: every thread gets a context buffer when it is created and
  may use the vector unit from its start. Switching and deleting are the same code as in
  \<open>VecContext\<close>; creating, starting, restarting and installing differ.
\<close>

section \<open>The extension\<close>

definition all_vec_thread_fixup_env :: "nat \<Rightarrow> vecsys \<Rightarrow> vecsys res" where
  \<comment> \<open>\<open>init_vec_ctxt\<close> writes through the context pointer\<close>
  "all_vec_thread_fixup_env thread s =
     (case get_tcp thread s of None \<Rightarrow> Inl NullDeref
      | Some b \<Rightarrow>
          (let s = s\<lparr>bufs := (bufs s)(b := init_vec_ctxt (bufs s b))\<rparr>; sp = tgpr1 s thread AND NOT 15 in
           Inr (s\<lparr>tmsr := (tmsr s)(thread := tmsr s thread OR MSR_VE),
                  tgpr1 := (tgpr1 s)(thread := sp), stack_mem := (stack_mem s)(sp := 0)\<rparr>)))"

definition all_vec_thread_create :: "u32 \<Rightarrow> nat \<Rightarrow> vecsys \<Rightarrow> (bool \<times> vecsys) res" where
  \<comment> \<open>\<open>p\<close> is what \<open>_Workspace_Allocate\<close> returned\<close>
  "all_vec_thread_create p new_task s =
     (case extalloc p s of Inl f \<Rightarrow> Inl f
      | Inr (tcbext, s) \<Rightarrow>
          if tcbext = 0 then Inr (False, s)
          else if get_tcp new_task s \<noteq> None then Inl Fatal
          else Inr (True, set_tcp new_task (Some tcbext) s))"

definition all_vec_thread_start :: "nat \<Rightarrow> vecsys \<Rightarrow> vecsys res" where
  "all_vec_thread_start startee s = all_vec_thread_fixup_env startee s"

definition all_vec_thread_restart :: "nat \<Rightarrow> vecsys \<Rightarrow> vecsys res" where
  \<comment> \<open>without the call of \<open>vec_thread_delete\<close>\<close>
  "all_vec_thread_restart restartee s = all_vec_thread_fixup_env restartee s"

definition all_vec_task_enable :: int where
  "all_vec_task_enable = 0"

definition all_vec_install_extension :: "install_env \<Rightarrow> bool \<Rightarrow> vecsys \<Rightarrow> (int \<times> vecsys) res" where
  \<comment> \<open>\<open>up\<close>: the system is already up, which is a panic\<close>
  "all_vec_install_extension e up s =
     (if vec_extension_id s \<noteq> 0 then Inr (-1, s)
      else if check_stack_alignment e AND 2 \<noteq> 0 then Inl Fatal
      else if \<not> has_altivec e then Inr (-1, s)
      else
        (let s = (if msr s AND MSR_VE = 0 then snd (set_MSR_VE s) else s) in
         if up then Inl Fatal
         else case ext_create e of None \<Rightarrow> Inr (-1, s)
         | Some i \<Rightarrow> Inr (0, s\<lparr>vec_extension_id := i\<rparr>)))"

section \<open>The system as a machine\<close>

text \<open>The steps of \<open>VecContext\<close> with creation in the place of enabling. The environment's guarantees are
  again part of the step: the workspace hands out no block that is in use, and the executing thread is
  not created.\<close>

datatype tstep =
    T_switch nat
  | T_compute "vstate \<Rightarrow> vregs"
  | T_create nat u32 slots
  | T_delete nat
  | T_start nat
  | T_restart nat

fun all_step :: "vecsys \<Rightarrow> tstep \<Rightarrow> fault option \<times> vecsys" where
  "all_step s (T_switch t) = on_res s (dispatch t) (vec_thread_switch t s)"
| "all_step s (T_compute f) =
     (None, if msr s AND MSR_VE = 0 then s else s\<lparr>cpu := f (vstate_of (cpu s))\<rparr>)"
| "all_step s (T_create t p content) =
     (if align32 p \<in> ran (ext s) \<or> t = executing s then (None, s)
      else let s0 = s\<lparr>bufs := (bufs s)(align32 p := content)\<rparr> in
        on_res s0 (\<lambda>s. s) (map_sum id snd (all_vec_thread_create p t s0)))"
| "all_step s (T_delete t) = (None, snd (vec_thread_delete t s))"
| "all_step s (T_start t) = on_res s (\<lambda>s. s) (all_vec_thread_start t s)"
| "all_step s (T_restart t) = on_res s (\<lambda>s. s) (all_vec_thread_restart t s)"

section \<open>The abstract view\<close>

text \<open>Every thread has a buffer and vector registers of its own, which it may use once it has been
  started. A start or restart sets the control registers. The thread whose registers are loaded is
  remembered only to say when a restart is admitted.\<close>

record tvec =
  trunning :: nat
  tlast :: "nat option"
  tthreads :: "nat \<Rightarrow> (u32 \<times> vstate) option"
  ton :: "nat \<Rightarrow> bool"

definition tvec_fixup :: "nat \<Rightarrow> tvec \<Rightarrow> fault option \<times> tvec" where
  "tvec_fixup t a =
     (case tthreads a t of None \<Rightarrow> (Some NullDeref, a)
      | Some (b, v) \<Rightarrow>
          (None, a\<lparr>tthreads := (tthreads a)(t \<mapsto> (b, (fst v, vrsave_init_val, VSCR_INIT_VAL))), ton := (ton a)(t := True)\<rparr>))"

fun tvec_step :: "tvec \<Rightarrow> tstep \<Rightarrow> fault option \<times> tvec" where
  "tvec_step a (T_switch t) =
     (None, a\<lparr>trunning := t, tlast := if tthreads a t = None then tlast a else Some t\<rparr>)"
| "tvec_step a (T_compute f) =
     (None, if \<not> ton a (trunning a) then a
            else case tthreads a (trunning a) of None \<Rightarrow> a
            | Some (b, v) \<Rightarrow> a\<lparr>tthreads := (tthreads a)(trunning a \<mapsto> (b, vstate_of (f v)))\<rparr>)"
| "tvec_step a (T_create t p content) =
     (if align32 p \<in> fst ` ran (tthreads a) \<or> t = trunning a then (None, a)
      else if align32 p = 0 then (Some NullDeref, a)
      else if \<not> p \<le> align32 p \<or> tthreads a t \<noteq> None then (Some Fatal, a)
      else (None, a\<lparr>tthreads := (tthreads a)(t \<mapsto> (align32 p, vstate_of_buf content))\<rparr>))"
| "tvec_step a (T_delete t) =
     (None, a\<lparr>tthreads := (tthreads a)(t := None), ton := (ton a)(t := False),
              tlast := if tlast a = Some t then None else tlast a\<rparr>)"
| "tvec_step a (T_start t) = tvec_fixup t a"
| "tvec_step a (T_restart t) = tvec_fixup t a"

fun tvec_ok :: "tvec \<Rightarrow> tstep \<Rightarrow> bool" where
  "tvec_ok a (T_start t) = (tlast a \<noteq> Some t)"
| "tvec_ok a (T_restart t) = (tlast a \<noteq> Some t)"
| "tvec_ok a _ = True"

definition tabs :: "vecsys \<Rightarrow> tvec" where
  "tabs s = \<lparr>trunning = executing s, tlast = vec_owner s, tthreads = athreads (vabs s), ton = ve s\<rparr>"

definition all_inv :: "vecsys \<Rightarrow> bool" where
  "all_inv s \<longleftrightarrow> ctx_inv s \<and>
     (ext s (executing s) \<noteq> None \<longrightarrow> vec_owner s = Some (executing s)) \<and> (\<forall>t. ve s t \<longrightarrow> ext s t \<noteq> None)"

lemma tthreads_None: "athreads (vabs s) t = None \<longleftrightarrow> ext s t = None"
  by (simp add: vabs_def split: option.split)

section \<open>One step\<close>

definition refines :: "vecsys \<Rightarrow> tstep \<Rightarrow> bool" where
  "refines s i \<longleftrightarrow> all_inv (snd (all_step s i)) \<and>
     tvec_step (tabs s) i = (fst (all_step s i), tabs (snd (all_step s i)))"

lemma all_switch:
  assumes inv: "all_inv s"
  shows "refines s (T_switch t)"
proof -
  obtain s' where s': "vec_thread_switch t s = Inr s'" "vabs s' = vabs s" "ext s' = ext s" "msr s' = msr s"
    "tmsr s' = tmsr s" "executing s' = executing s"
    "vec_owner s' = (if ext s t = None then vec_owner s else Some t)"
    using vec_thread_switch_spec [of s t] inv by (auto simp: all_inv_def)
  have v: "ve (dispatch t s') = ve s"
    using s' by (simp add: ve_def dispatch_def Let_def fun_eq_iff)
  have d: "ext (dispatch t s') = ext s" "vec_owner (dispatch t s') = vec_owner s'" "executing (dispatch t s') = t"
    "athreads (vabs (dispatch t s')) = athreads (vabs s')"
    using s'(3) by (auto simp: dispatch_def Let_def vabs_def fun_eq_iff split: option.split)
  have "all_inv (dispatch t s')"
    using inv s' by (auto simp: all_inv_def ctx_inv_def v d)
  moreover have "tabs (dispatch t s') = (tabs s)\<lparr>trunning := t, tlast := if ext s t = None then vec_owner s else Some t\<rparr>"
    using s' by (simp add: tabs_def v d)
  ultimately show ?thesis using s'(1) by (simp add: refines_def on_res_def tabs_def tthreads_None)
qed

lemma all_compute:
  assumes inv: "all_inv s"
  shows "refines s (T_compute f)"
proof (cases "ve s (executing s)")
  case False
  then show ?thesis using inv by (simp add: refines_def tabs_def ve_def)
next
  case True
  then obtain b where b: "ext s (executing s) = Some b" and own: "vec_owner s = Some (executing s)"
    using inv by (auto simp: all_inv_def)
  have v: "ve (s\<lparr>cpu := x\<rparr>) = ve s" for x by (simp add: ve_def fun_eq_iff)
  then have "all_inv (s\<lparr>cpu := x\<rparr>)" for x using inv by (simp add: all_inv_def ctx_inv_def)
  moreover have "athreads (vabs s) (executing s) = Some (b, vstate_of (cpu s))" using b own by (simp add: vabs_def)
  moreover have "msr s AND MSR_VE \<noteq> 0" using True by (simp add: ve_def)
  ultimately show ?thesis using True by (simp add: refines_def tabs_def v compute_vabs [OF b own])
qed

lemma all_delete:
  assumes inv: "all_inv s"
  shows "refines s (T_delete t)"
proof -
  have v: "ve (snd (vec_thread_delete t s)) u \<longleftrightarrow> u \<noteq> t \<and> ve s u" for u
    by (rule delete_ve) (use inv in \<open>auto simp: all_inv_def\<close>)
  then have "all_inv (snd (vec_thread_delete t s))"
    using inv delete_ctx_inv [of s t] by (auto simp: all_inv_def delete_fields split: if_splits)
  moreover have "ve (snd (vec_thread_delete t s)) = (ve s)(t := False)" using v by (auto simp: fun_eq_iff)
  ultimately show ?thesis by (simp add: refines_def tabs_def delete_vabs delete_fields)
qed

lemma vstate_header: "vstate_of_buf (c(0 := set_word (Suc 0) p (c 0))) = vstate_of_buf c"
  by (cases "c 0") (simp add: vstate_of_buf_def word_at_def set_word_def)

lemma vstate_init_ctxt: "vstate_of_buf (init_vec_ctxt c) = (fst (vstate_of_buf c), vrsave_init_val, VSCR_INIT_VAL)"
  by (simp add: vstate_of_buf_def init_vec_ctxt_def word_at_set_word)

lemma all_create:
  assumes inv: "all_inv s"
  shows "refines s (T_create t p c)"
proof (cases "align32 p \<in> ran (ext s) \<or> t = executing s")
  case True
  then show ?thesis using inv by (auto simp: refines_def tabs_def ran_vabs)
next
  case False
  let ?a = "align32 p"
  let ?s0 = "s\<lparr>bufs := (bufs s)(?a := c)\<rparr>"
  let ?s1 = "s\<lparr>bufs := (bufs s)(?a := c(0 := set_word (Suc 0) p (c 0))), ext := (ext s)(t \<mapsto> ?a)\<rparr>"
  have v0: "ve (s\<lparr>bufs := x\<rparr>) = ve s" "ve (s\<lparr>bufs := x, ext := y\<rparr>) = ve s" for x y by (simp_all add: ve_def fun_eq_iff)
  have i0: "all_inv ?s0" using inv by (simp add: all_inv_def ctx_inv_def v0)
  have a0: "tabs ?s0 = tabs s" using False by (simp add: tabs_def v0 fresh_vabs)
  show ?thesis
  proof (cases "?a \<noteq> 0 \<and> p \<le> ?a \<and> ext s t = None")
    case True
    have own: "vec_owner s \<noteq> Some t" using inv True by (auto simp: all_inv_def ctx_inv_def)
    have "ctx_inv ?s1"
      using inv False by (auto simp: all_inv_def ctx_inv_def inj_on_def dom_def ran_def)
    then have "all_inv ?s1" using inv False by (auto simp: all_inv_def v0)
    moreover have "athreads (vabs ?s1) u = ((athreads (vabs s))(t \<mapsto> (?a, vstate_of_buf c))) u" for u
      using own False by (auto simp: vabs_def vstate_header ranI split: option.split)
    then have "tabs ?s1 = (tabs s)\<lparr>tthreads := (athreads (vabs s))(t \<mapsto> (?a, vstate_of_buf c))\<rparr>"
      by (simp add: tabs_def v0 fun_eq_iff)
    ultimately show ?thesis
      using True False by (auto simp: refines_def all_vec_thread_create_def extalloc_eq on_res_def tabs_def ran_vabs tthreads_None)
  next
    case bad: False
    then have "all_vec_thread_create p t ?s0 = Inl (if ?a = 0 then NullDeref else Fatal)"
      by (auto simp: all_vec_thread_create_def extalloc_eq)
    then have "all_step s (T_create t p c) = (Some (if ?a = 0 then NullDeref else Fatal), ?s0)"
      using False by (simp add: on_res_def Let_def)
    moreover have "tvec_step (tabs s) (T_create t p c) = (Some (if ?a = 0 then NullDeref else Fatal), tabs s)"
      using False bad by (auto simp: tabs_def ran_vabs tthreads_None)
    ultimately show ?thesis using i0 a0 by (simp only: refines_def fst_conv snd_conv)
  qed
qed

lemma all_fixup:
  assumes inv: "all_inv s" and own: "vec_owner s \<noteq> Some t"
  shows "case all_vec_thread_fixup_env t s of
      Inl f \<Rightarrow> tvec_fixup t (tabs s) = (Some f, tabs s)
    | Inr s' \<Rightarrow> all_inv s' \<and> tvec_fixup t (tabs s) = (None, tabs s')"
proof (cases "ext s t")
  case None
  then have "athreads (vabs s) t = None" by (simp add: tthreads_None)
  with None show ?thesis by (simp add: all_vec_thread_fixup_env_def tvec_fixup_def tabs_def)
next
  case (Some b)
  define s' where "s' = s\<lparr>bufs := (bufs s)(b := init_vec_ctxt (bufs s b)), tmsr := (tmsr s)(t := tmsr s t OR MSR_VE),
    tgpr1 := (tgpr1 s)(t := tgpr1 s t AND NOT 15), stack_mem := (stack_mem s)(tgpr1 s t AND NOT 15 := 0)\<rparr>"
  have f: "all_vec_thread_fixup_env t s = Inr s'"
    using Some by (simp add: all_vec_thread_fixup_env_def s'_def Let_def)
  have "t \<noteq> executing s" using inv own Some by (auto simp: all_inv_def)
  then have v: "ve s' = (ve s)(t := True)" by (auto simp: s'_def ve_bit MSR_VE_ops fun_eq_iff)
  then have i: "all_inv s'"
    using inv Some by (auto simp: all_inv_def ctx_inv_def) (auto simp: s'_def)
  have c: "ctx_inv s" using inv by (simp add: all_inv_def)
  have same: "ext s' = ext s" "vec_owner s' = vec_owner s" "cpu s' = cpu s" "executing s' = executing s"
    "bufs s' = (bufs s)(b := init_vec_ctxt (bufs s b))" by (simp_all add: s'_def)
  have "athreads (vabs s') u = ((athreads (vabs s))(t \<mapsto> (b, (fst (vstate_of_buf (bufs s b)), vrsave_init_val, VSCR_INIT_VAL)))) u" for u
  proof (cases "u = t")
    case True
    then show ?thesis using own Some by (simp add: vabs_def same vstate_init_ctxt)
  next
    case False
    then have "ext s u \<noteq> Some b" using ctx_inv_inj [OF c Some, of u] by blast
    with False show ?thesis by (auto simp: vabs_def same split: option.split)
  qed
  then have "athreads (vabs s') = (athreads (vabs s))(t \<mapsto> (b, (fst (vstate_of_buf (bufs s b)), vrsave_init_val, VSCR_INIT_VAL)))" ..
  moreover have "athreads (vabs s) t = Some (b, vstate_of_buf (bufs s b))" using Some own by (simp add: vabs_def)
  ultimately have "tvec_fixup t (tabs s) = (None, tabs s')"
    by (simp add: tvec_fixup_def tabs_def v same)
  with f i show ?thesis by simp
qed

lemma all_step_refines:
  assumes inv: "all_inv s" and ok: "tvec_ok (tabs s) i"
  shows "all_inv (snd (all_step s i)) \<and> tvec_step (tabs s) i = (fst (all_step s i), tabs (snd (all_step s i)))"
proof (cases i)
  case (T_start t)
  with all_fixup [OF inv, of t] ok inv show ?thesis
    by (auto simp: tabs_def on_res_def all_vec_thread_start_def split: sum.splits)
next
  case (T_restart t)
  with all_fixup [OF inv, of t] ok inv show ?thesis
    by (auto simp: tabs_def on_res_def all_vec_thread_restart_def split: sum.splits)
qed (use all_switch [OF inv] all_compute [OF inv] all_create [OF inv] all_delete [OF inv] in \<open>auto simp: refines_def\<close>)

lemma all_fixup_inv:
  assumes "all_inv s" and "all_vec_thread_fixup_env t s = Inr s'"
  shows "all_inv s'"
proof -
  have same: "ext s' = ext s" "vec_owner s' = vec_owner s" "executing s' = executing s" "msr s' = msr s" "ext s t \<noteq> None"
    "tmsr s' = (tmsr s)(t := tmsr s t OR MSR_VE)"
    using assms(2) by (auto simp: all_vec_thread_fixup_env_def Let_def split: option.splits)
  then have "ve s' u \<Longrightarrow> ve s u \<or> u = t" for u by (cases "u = t"; cases "u = executing s") (simp_all add: ve_def)
  then show ?thesis using assms(1) same(1-3,5) by (auto simp: all_inv_def ctx_inv_def)
qed

lemma all_step_inv: "all_inv s \<Longrightarrow> all_inv (snd (all_step s i))"
proof (cases i)
  case (T_start t)
  moreover assume "all_inv s"
  ultimately show ?thesis
    using all_fixup_inv by (auto simp: on_res_def all_vec_thread_start_def split: sum.split)
next
  case (T_restart t)
  moreover assume "all_inv s"
  ultimately show ?thesis
    using all_fixup_inv by (auto simp: on_res_def all_vec_thread_restart_def split: sum.split)
qed (use all_step_refines [of s i] in auto)

interpretation all_ctx: refined_machine all_step all_inv tvec_step tvec_ok tabs "\<lambda>f. f"
  by unfold_locales (simp_all add: all_step_inv all_step_refines)

section \<open>Properties\<close>


lemma boot_all_inv: "all_inv boot"
  using boot_inv by (auto simp: vec_inv_def all_inv_def)

definition two_threads :: "tstep list" where
  "two_threads = [T_create 2 0x30004 (\<lambda>_. (7, 7, 7, 7)), T_start 2, T_create 3 0x40004 (\<lambda>_. (9, 9, 9, 9)), T_start 3,
     T_switch 2, T_compute (\<lambda>v. \<lparr>vr = \<lambda>_. (1, 1, 1, 1), vrsave = 5, vscr = 1\<rparr>), T_switch 3]"

lemma boot_tabs: "tabs boot = \<lparr>trunning = 1, tlast = None, tthreads = \<lambda>_. None, ton = \<lambda>_. False\<rparr>"
  by (simp add: tabs_def vabs_def boot_def ve_def fun_eq_iff)

lemma two_threads_run:
  "admits tvec_ok tvec_step (tabs boot) two_threads"
  "tthreads (snd (run tvec_step (tabs boot) two_threads)) 2 = Some (0x30020, vstate_of \<lparr>vr = \<lambda>_. (1, 1, 1, 1), vrsave = 5, vscr = 1\<rparr>)"
  "tlast (snd (run tvec_step (tabs boot) two_threads)) = Some 3"
  by (simp_all add: two_threads_def boot_tabs align32_def tvec_fixup_def)


text \<open>A restarted thread whose registers are still loaded does not get the initial control registers:
  the restart initialises the buffer, which is not loaded because the thread is still the owner, and the
  thread goes on with the vector registers, VRSAVE and VSCR it had before. In the other build the restart
  gives the context up.\<close>

theorem all_restart_keeps_registers:
  assumes "vec_owner s = Some t" "ext s t = Some b"
  shows "\<exists>s'. all_step s (T_restart t) = (None, s') \<and>
    tthreads (tabs (snd (all_step s' (T_switch t)))) t = tthreads (tabs s) t"
proof -
  obtain s' where s': "all_vec_thread_restart t s = Inr s'" "vec_owner s' = Some t" "ext s' = ext s" "cpu s' = cpu s"
    using assms by (auto simp: all_vec_thread_restart_def all_vec_thread_fixup_env_def Let_def)
  then have "vec_thread_switch t s' = Inr s'" using assms by (simp add: vec_thread_switch_alt)
  then have "tthreads (tabs (snd (all_step s' (T_switch t)))) t = tthreads (tabs s) t"
    using assms s' by (simp add: on_res_def tabs_def vabs_def dispatch_def Let_def)
  with s'(1) show ?thesis by (simp add: on_res_def)
qed

theorem all_restart_keeps_registers_witness:
  "\<exists>s s' v. all_inv s \<and> all_step s (T_restart 2) = (None, s') \<and>
     tthreads (tabs (snd (all_step s' (T_switch 2)))) 2 = Some (0x30020, v) \<and> snd (snd v) = 1"
proof -
  let ?is = "butlast two_threads"
  let ?s = "snd (run all_step boot ?is)"
  have a: "admits tvec_ok tvec_step (tabs boot) ?is" "tlast (snd (run tvec_step (tabs boot) ?is)) = Some 2"
    "tthreads (snd (run tvec_step (tabs boot) ?is)) 2 = Some (0x30020, vstate_of \<lparr>vr = \<lambda>_. (1, 1, 1, 1), vrsave = 5, vscr = 1\<rparr>)"
    by (simp_all add: two_threads_def boot_tabs align32_def tvec_fixup_def)
  have r: "tabs ?s = snd (run tvec_step (tabs boot) ?is)" "all_inv ?s"
    using all_ctx.run_simulates [OF boot_all_inv a(1)] all_ctx.run_inv [OF boot_all_inv] by simp_all
  have o: "vec_owner ?s = Some 2" using a(2) unfolding r(1) [symmetric] by (simp add: tabs_def)
  have t: "tthreads (tabs ?s) 2 = Some (0x30020, vstate_of \<lparr>vr = \<lambda>_. (1, 1, 1, 1), vrsave = 5, vscr = 1\<rparr>)"
    using a(3) unfolding r(1) [symmetric] .
  then have "ext ?s 2 = Some 0x30020" by (simp add: tabs_def vabs_def split: option.splits)
  from all_restart_keeps_registers [OF o this] t r(2) show ?thesis
    by (auto simp: vstate_of_def simp del: run.simps all_step.simps split_paired_Ex)
qed

end
