(* ===== verification/Checksum.thy ===== *)
theory Checksum
  imports Prelude
begin

unbundle bit_operations_syntax

text \<open>
  The two Internet checksums of the repository: \<open>rtems_ping_cksum\<close> of \<^verbatim>\<open>miscUtils/icmpping.c\<close>,
  which adds halfwords in a 32-bit accumulator and folds the carries at the end, and \<open>ip_cksum\<close> with
  \<open>ones_sum\<close> of \<^verbatim>\<open>miscUtils/traceroute.c\<close>, which folds after every addition. Halfwords are read
  in big-endian order, as on the PowerPC and m68k targets. Both are shown to compute the complement of
  the one's complement sum.
\<close>

section \<open>Model\<close>

fun ping_sum :: "u8 list \<Rightarrow> u8 \<Rightarrow> u32 \<Rightarrow> u32" where
  \<comment> \<open>\<open>nxt\<close> is the byte behind the buffer, which the access to the last odd byte also reads\<close>
  "ping_sum [] nxt accu = accu"
| "ping_sum [a] nxt accu = accu + (ucast (be16 a nxt) AND 0xff00)"
| "ping_sum (a # b # bs) nxt accu = ping_sum bs nxt (accu + ucast (be16 a b))"

definition rtems_ping_cksum :: "u8 list \<Rightarrow> u8 \<Rightarrow> u16" where
  "rtems_ping_cksum p nxt =
     (let accu = ping_sum p nxt 0;
          accu = drop_bit 16 accu + (accu AND 0xffff);
          accu = accu + drop_bit 16 accu in
      ucast (NOT accu AND 0x0000ffff))"

definition ones_sum :: "u16 \<Rightarrow> u16 \<Rightarrow> u16" where
  "ones_sum lhs rhs = (let a = uint lhs + uint rhs in word_of_int ((a AND 0xffff) + drop_bit 16 a))"

fun ip_sum :: "u8 list \<Rightarrow> u16 \<Rightarrow> u16" where
  "ip_sum [] s = s"
| "ip_sum [a] s = ones_sum s (be16 a 0)"
| "ip_sum (a # b # bs) s = ip_sum bs (ones_sum s (be16 a b))"

definition ip_cksum :: "u8 list \<Rightarrow> u16" where
  "ip_cksum data = NOT (ip_sum data 0)"

section \<open>One's complement sums\<close>

text \<open>The sum of halfwords as a number, and its reduction to 16 bits with end-around carry: zero
  only for zero, otherwise the representative modulo 65535 between 1 and 65535.\<close>

fun total :: "u8 list \<Rightarrow> nat" where
  "total [] = 0"
| "total [a] = 256 * unat a"
| "total (a # b # bs) = 256 * unat a + unat b + total bs"

definition csum :: "nat \<Rightarrow> nat" where
  "csum n = (if n = 0 then 0 else (n - 1) mod 65535 + 1)"

lemma csum_le: "csum n \<le> 65535"
  by (auto simp: csum_def Suc_le_eq)

lemma csum_mod: "csum n mod 65535 = n mod 65535"
proof (cases n)
  case (Suc m)
  then show ?thesis by (simp add: csum_def) (metis mod_Suc_eq)
qed (simp add: csum_def)

lemma csum_zero: "csum n = 0 \<longleftrightarrow> n = 0"
  by (simp add: csum_def)

lemma csum_cong:
  assumes "m mod 65535 = n mod 65535" and "m = 0 \<longleftrightarrow> n = 0"
  shows "csum m = csum n"
proof (cases "m = 0")
  case False
  with assms obtain a b where "m = Suc a" "n = Suc b" by (metis not0_implies_Suc)
  moreover from this assms(1) have "a mod 65535 = b mod 65535"
    using mod_add_cong [of "Suc a" 65535 "Suc b" 65534 65534] by simp
  ultimately show ?thesis by (simp add: csum_def)
qed (use assms in \<open>simp add: csum_def\<close>)

lemma csum_small: "n \<le> 65535 \<Longrightarrow> csum n = n"
  by (simp add: csum_def)

lemma csum_fold: "n \<le> 131070 \<Longrightarrow> n mod 65536 + n div 65536 = csum n"
proof (cases "n < 65536")
  case False
  assume "n \<le> 131070"
  with False have "n div 65536 = 1" "n mod 65536 = n - 65536" by (simp_all add: mod_if div_if)
  moreover have "csum n = csum (n - 65535)"
    using False by (intro csum_cong) (simp_all add: mod_if [of n])
  moreover have "csum (n - 65535) = n - 65535" using \<open>n \<le> 131070\<close> by (intro csum_small) simp
  ultimately show ?thesis using False by simp
qed (simp add: csum_small)

lemma csum_csum_add: "csum (csum m + k) = csum (m + k)"
proof (rule csum_cong)
  show "(csum m + k) mod 65535 = (m + k) mod 65535" by (metis csum_mod mod_add_left_eq)
qed (simp add: csum_zero)

lemma unat_u8: "unat (b :: u8) < 256"
  using unsigned_less [of b] by simp

lemma unat_u16: "unat (w :: u16) < 65536"
  using unsigned_less [of w] by simp

lemma unat_be16: "unat (be16 a b) = 256 * unat a + unat b"
proof -
  have "be16 a b = push_bit 8 (ucast a) + ucast b"
    unfolding be16_def by (rule disjunctive_add [symmetric]) (auto simp: bit_simps dest: bit_imp_le_length)
  then show ?thesis
    using unat_u8 [of a] unat_u8 [of b]
    by (simp add: push_bit_eq_mult unat_word_ariths unsigned_ucast_eq take_bit_eq_mod)
qed

section \<open>Both checksums compute it\<close>

lemma int_and_ffff: "(a :: int) AND 0xffff = a mod 65536"
  using take_bit_eq_mask [of 16 a] by (simp add: mask_eq_exp_minus_1 take_bit_eq_mod)

lemma unat_ones_sum: "unat (ones_sum x y) = csum (unat x + unat y)"
proof -
  let ?n = "unat x + unat y"
  have le: "?n \<le> 131070" using unat_u16 [of x] unat_u16 [of y] by simp
  have "uint x + uint y = int ?n" by simp
  then have "ones_sum x y = word_of_int (int ?n mod 65536 + int ?n div 65536)"
    by (simp add: ones_sum_def Let_def drop_bit_eq_div int_and_ffff)
  also have "int ?n mod 65536 + int ?n div 65536 = int (?n mod 65536 + ?n div 65536)"
    by (simp only: of_nat_add of_nat_mod of_nat_div of_nat_numeral)
  also have "word_of_int (int (?n mod 65536 + ?n div 65536)) = (word_of_nat (?n mod 65536 + ?n div 65536) :: u16)"
    by simp
  finally show ?thesis
    using csum_fold [OF le] csum_le [of ?n] by (simp add: unsigned_of_nat take_bit_eq_mod)
qed

lemma unat_ip_sum: "unat (ip_sum bs s) = csum (unat s + total bs)"
proof (induction bs s rule: ip_sum.induct)
  case (1 s)
  then show ?case using unat_u16 [of s] by (simp add: csum_small)
next
  case (2 a s)
  then show ?case by (simp add: unat_ones_sum unat_be16)
next
  case (3 a b bs s)
  then show ?case by (simp add: unat_ones_sum unat_be16 csum_csum_add add.assoc)
qed

lemma total_le: "total bs \<le> 65535 * ((length bs + 1) div 2)"
proof (induction bs rule: total.induct)
  case (2 a)
  then show ?case using unat_u8 [of a] by simp
next
  case (3 a b bs)
  then show ?case using unat_u8 [of a] unat_u8 [of b] by simp
qed simp

lemma be16_high: "ucast (be16 a nxt) AND (0xff00 :: u32) = push_bit 8 (ucast a)"
proof -
  have m: "(0xff00 :: u32) = push_bit 8 (mask 8)" by (simp add: mask_eq_exp_minus_1 push_bit_eq_mult)
  have "ucast (be16 a nxt) AND push_bit 8 (mask 8) = (push_bit 8 (ucast a) :: u32)"
    by (rule bit_word_eqI) (auto simp: be16_def bit_simps dest: bit_imp_le_length)
  then show ?thesis unfolding m .
qed

lemma unat_push_8: "unat (push_bit 8 (ucast (a :: u8)) :: u32) = 256 * unat a"
  using unat_u8 [of a] by (simp add: push_bit_eq_mult unat_word_ariths unsigned_ucast_eq take_bit_eq_mod)

lemma unat_ucast_be16: "unat (ucast (be16 a b) :: u32) = 256 * unat a + unat b"
  using unat_u16 [of "be16 a b"] by (simp add: unsigned_ucast_eq take_bit_eq_mod unat_be16)

lemma unat_plus_u32: "unat (x :: u32) + unat y < 2 ^ 32 \<Longrightarrow> unat (x + y) = unat x + unat y"
  by (simp add: unat_word_ariths)

lemma unat_ping_sum:
  "unat accu + total bs < 2 ^ 32 \<Longrightarrow> unat (ping_sum bs nxt accu) = unat accu + total bs"
proof (induction bs nxt accu rule: ping_sum.induct)
  case (2 a nxt accu)
  then show ?case by (simp add: be16_high unat_plus_u32 unat_push_8)
next
  case (3 a b bs nxt accu)
  then show ?case by (simp add: unat_plus_u32 unat_ucast_be16)
qed simp

lemma unat_not_u16: "unat (NOT w :: u16) = 65535 - unat w"
proof -
  have "NOT w = 0xffff - w" by (simp add: not_eq_complement)
  moreover have "w \<le> 0xffff" using unat_u16 [of w] by (simp add: word_le_nat_alt)
  ultimately show ?thesis by (simp add: unat_sub)
qed

lemma unat_ip_cksum: "unat (ip_cksum bs) = 65535 - csum (total bs)"
  by (simp add: ip_cksum_def unat_not_u16 unat_ip_sum)

lemma ucast_not_low: "ucast (NOT x AND 0x0000ffff :: u32) = (NOT (ucast x) :: u16)"
proof -
  have m: "(0x0000ffff :: u32) = mask 16" by (simp add: mask_eq_exp_minus_1)
  have "ucast (NOT x AND mask 16 :: u32) = (NOT (ucast x) :: u16)"
    by (rule bit_word_eqI) (auto simp: bit_simps)
  then show ?thesis unfolding m .
qed

lemma unat_ping_cksum:
  assumes "total bs < 2 ^ 32"
  shows "unat (rtems_ping_cksum bs nxt) = 65535 - csum (total bs)"
proof -
  define A where "A = ping_sum bs nxt 0"
  define B where "B = drop_bit 16 A + (A AND 0xffff)"
  let ?n = "total bs" and ?b = "total bs div 65536 + total bs mod 65536"
  have low: "unat (x AND 0xffff :: u32) = unat x mod 65536" for x
    using take_bit_eq_mask [of 16 x] unsigned_take_bit_eq [of 16 x]
    by (simp add: mask_eq_exp_minus_1 take_bit_eq_mod)
  have high: "unat (drop_bit 16 x :: u32) = unat x div 65536" for x
    by (simp add: drop_bit_eq_div unat_div)
  have n: "unat A = ?n" using unat_ping_sum [of 0 bs nxt] assms by (simp add: A_def)
  have "?n div 65536 < 65536" using assms by (simp add: div_less_iff_less_mult)
  then have ble: "?b \<le> 131070" using mod_less_divisor [of 65536 ?n] by linarith
  then have b: "unat B = ?b" using n by (simp add: B_def unat_plus_u32 low high)
  then have c: "unat (B + drop_bit 16 B) = ?b + ?b div 65536"
    using ble by (subst unat_plus_u32) (simp_all add: high)
  have "rtems_ping_cksum bs nxt = NOT (ucast (B + drop_bit 16 B))"
    unfolding rtems_ping_cksum_def Let_def A_def [symmetric] B_def [symmetric] by (rule ucast_not_low)
  moreover have "unat (ucast (B + drop_bit 16 B) :: u16) = (?b + ?b div 65536) mod 65536"
    using c by (simp add: unsigned_ucast_eq take_bit_eq_mod)
  moreover have "(?b + ?b div 65536) mod 65536 = ?b mod 65536 + ?b div 65536"
  proof -
    have "?b mod 65536 + ?b div 65536 < 65536" using csum_fold [OF ble] csum_le [of ?b] by linarith
    then show ?thesis by (metis mod_add_left_eq mod_less)
  qed
  moreover have "csum ?b = csum ?n"
  proof (rule csum_cong)
    have "?n = 65536 * (?n div 65536) + ?n mod 65536" by simp
    then have "?n = 65535 * (?n div 65536) + ?b" by linarith
    then show "?b mod 65535 = ?n mod 65535" by (metis mod_mult_self2 mult.commute add.commute)
    show "?b = 0 \<longleftrightarrow> ?n = 0" by (auto simp: div_eq_0_iff)
  qed
  ultimately show ?thesis using csum_fold [OF ble] by (simp add: unat_not_u16)
qed

lemma total_append: "even (length xs) \<Longrightarrow> total (xs @ ys) = total xs + total ys"
  by (induction xs rule: total.induct) auto

lemma ping_cksum_eq:
  assumes "length bs \<le> 131070"
  shows "rtems_ping_cksum bs nxt = ip_cksum bs"
proof -
  have "(length bs + 1) div 2 \<le> 65535" using assms by simp
  then have "total bs \<le> 65535 * 65535" using total_le [of bs] by (meson le_trans mult_le_mono2)
  then have "total bs < 2 ^ 32" by simp
  from unat_ping_cksum [OF this, of nxt] unat_ip_cksum [of bs] show ?thesis
    by (metis word_unat_eq_iff)
qed

lemma ip_cksum_stored:
  assumes "even (length pre)" and "ip_cksum (pre @ [0, 0] @ post) = be16 hi lo"
  shows "ip_cksum (pre @ [hi, lo] @ post) = 0"
proof -
  let ?n = "total pre + total post"
  have t: "total (pre @ [a, b] @ post) = ?n + unat (be16 a b)" for a b
    using assms(1) by (simp add: total_append unat_be16)
  have "unat (be16 hi lo) = 65535 - csum ?n"
    using unat_ip_cksum [of "pre @ [0, 0] @ post"] assms(2) t [of 0 0] by (simp add: unat_be16)
  then have "csum (total (pre @ [hi, lo] @ post)) = csum (csum ?n + (65535 - csum ?n))"
    by (simp only: t csum_csum_add)
  also have "\<dots> = 65535" using csum_le [of ?n] by (simp add: csum_small)
  finally have "unat (ip_cksum (pre @ [hi, lo] @ post)) = 0" by (simp only: unat_ip_cksum diff_self_eq_0)
  then show ?thesis by (simp add: unsigned_eq_0_iff)
qed

section \<open>Properties\<close>

text \<open>C21: The two checksum routines agree: for every packet of at most 131070 bytes, of even or odd
  length, and whatever byte follows it in memory, \<open>rtems_ping_cksum\<close> and \<open>ip_cksum\<close> return the same
  halfword, the complement of the one's complement sum of the packet.\<close>

theorem checksums_agree:
  assumes "length bs \<le> 131070"
  shows "rtems_ping_cksum bs nxt = ip_cksum bs \<and> unat (ip_cksum bs) = 65535 - csum (total bs)"
  using ping_cksum_eq [OF assms] unat_ip_cksum by simp

theorem checksums_agree_witness:
  "rtems_ping_cksum [8, 0, 0, 0, 0x12] 0xaa = ip_cksum [8, 0, 0, 0, 0x12] \<and> ip_cksum [8, 0, 0, 0, 0x12] = 0xe5ff"
  using checksums_agree [of "[8, 0, 0, 0, 0x12]" "0xaa"]
  by (simp add: ip_cksum_def ones_sum_def be16_def Let_def)

text \<open>A packet with its checksum verifies: with the checksum of the packet computed over a
  zero field and stored into that field, at an even offset, the checksum of the whole packet is
  zero.\<close>

theorem checksum_verifies:
  assumes "even (length pre)" and "ip_cksum (pre @ [0, 0] @ post) = be16 hi lo"
  shows "ip_cksum (pre @ [hi, lo] @ post) = 0"
  by (rule ip_cksum_stored [OF assms])

theorem checksum_verifies_witness:
  "ip_cksum ([8, 0] @ [0, 0] @ [0x12, 0x34]) = be16 0xe5 0xcb \<and> ip_cksum ([8, 0] @ [0xe5, 0xcb] @ [0x12, 0x34]) = 0"
proof -
  have "ip_cksum ([8, 0] @ [0, 0] @ [0x12, 0x34]) = be16 0xe5 0xcb"
    by (simp add: ip_cksum_def ones_sum_def be16_def Let_def)
  with checksum_verifies [of "[8, 0]" "[0x12, 0x34]" "0xe5" "0xcb"] show ?thesis by simp
qed

end
