(* ===== verification/Ping.thy ===== *)
theory Ping
  imports Checksum
begin

unbundle bit_operations_syntax

text \<open>
  The ICMP echo client, \<^verbatim>\<open>miscUtils/icmpping.c\<close>. Packets are lists of bytes in memory order
  (multi-byte fields big-endian, as on the targets). What the function obtains from the system is in
  the records \<open>open_env\<close> and \<open>send_env\<close>: allocation results, the clock, and for each pass of the
  receive loop whether \<open>setsockopt\<close> succeeded, what \<open>recvfrom\<close> delivered and the time after it.
  The address of the control structure, whose low half is the ICMP identifier, is \<open>handle\<close>.
\<close>

section \<open>Data\<close>

abbreviation ICMP_MINLEN :: nat where "ICMP_MINLEN \<equiv> 8"
abbreviation ICMP_ECHO :: u8 where "ICMP_ECHO \<equiv> 8"
abbreviation ICMP_ECHOREPLY :: u8 where "ICMP_ECHOREPLY \<equiv> 0"
abbreviation IP_MAXPACKET :: nat where "IP_MAXPACKET \<equiv> 65535"

record rtems_ping_cfg =
  cfg_tv_sec :: u32
  cfg_tv_usec :: u32
  cfg_payload_size :: nat

record rtems_ping_t =
  ping_socket :: int
  seq :: u32
  dest_addr :: u32
  payload_size :: nat
  ping_tv_sec :: u32
  ping_tv_usec :: u32
  req_size :: nat
  raw_req :: "u8 list"
  raw_resp :: "u8 list"
  handle :: u32

datatype ping_op = Ping_close int | Free_resp | Free_req | Free_ping

datatype errno = E_ok | E_TIMEDOUT | E_IO | E_INVAL | E_fail   \<comment> \<open>\<open>E_fail\<close> is -1\<close>

record open_env =
  ping_mem :: bool
  req_mem :: bool
  resp_mem :: bool
  rand_val :: u32
  sock_res :: int
  ping_ptr :: u32

section \<open>Opening and closing\<close>

definition rtems_ping_standard :: rtems_ping_cfg where
  "rtems_ping_standard = \<lparr>cfg_tv_sec = 1, cfg_tv_usec = 0, cfg_payload_size = 64 - ICMP_MINLEN\<rparr>"

definition rtems_ping_close :: "int option \<Rightarrow> ping_op list" where
  \<comment> \<open>the socket member of the structure, \<open>None\<close> for a null pointer; the return value is that of
      \<open>close\<close>\<close>
  "rtems_ping_close ping =
     (case ping of None \<Rightarrow> []
      | Some s \<Rightarrow> (if s > 2 then [Ping_close s] else []) @ [Free_resp, Free_req, Free_ping])"

definition rtems_ping_open :: "open_env \<Rightarrow> u32 \<Rightarrow> rtems_ping_cfg option \<Rightarrow> ping_op list + rtems_ping_t" where
  \<comment> \<open>\<open>Inl\<close>: null is returned after the cleanup listed\<close>
  "rtems_ping_open e ip_addr cfg =
     (let cfg = (case cfg of None \<Rightarrow> rtems_ping_standard | Some c \<Rightarrow> c);
          payload = (if cfg_payload_size cfg < 64 - ICMP_MINLEN then 64 - ICMP_MINLEN else cfg_payload_size cfg) in
      if \<not> ping_mem e then Inl (rtems_ping_close None)
      else if \<not> req_mem e \<or> \<not> resp_mem e then Inl (rtems_ping_close (Some 0))
      else if sock_res e = -1 then Inl (rtems_ping_close (Some (-1)))
      else Inr \<lparr>ping_socket = sock_res e, seq = rand_val e, dest_addr = ip_addr, payload_size = payload,
             ping_tv_sec = cfg_tv_sec cfg, ping_tv_usec = cfg_tv_usec cfg, req_size = 8 + payload,
             raw_req = [ICMP_ECHO, 0] @ replicate (6 + payload) 0,
             raw_resp = replicate IP_MAXPACKET 0, handle = ping_ptr e\<rparr>)"

section \<open>Sending\<close>

definition rtems_ping_pattern :: "u32 \<Rightarrow> nat \<Rightarrow> u8 list" where
  "rtems_ping_pattern sq n = map (\<lambda>i. ucast (0x80 + sq + word_of_nat i)) [0..<n]"

definition hi8 :: "u16 \<Rightarrow> u8" where "hi8 w = ucast (drop_bit 8 w)"
definition lo8 :: "u16 \<Rightarrow> u8" where "lo8 w = ucast w"

definition echo_request :: "rtems_ping_t \<Rightarrow> u16 \<Rightarrow> u8 list" where
  \<comment> \<open>the request with the given checksum; \<open>icmp_id\<close> and \<open>icmp_seq\<close> are the low halves\<close>
  "echo_request ping ck =
     [ICMP_ECHO, 0, hi8 ck, lo8 ck, hi8 (ucast (handle ping)), lo8 (ucast (handle ping)),
      hi8 (ucast (seq ping)), lo8 (ucast (seq ping))] @ rtems_ping_pattern (seq ping) (payload_size ping)"

record recv_ev =
  setsockopt_ok :: bool
  received :: "(u8 list \<times> u32) option"   \<comment> \<open>packet and source address, \<open>None\<close> if negative\<close>
  now :: u32

record send_env =
  ticks_per_s :: u32
  send_time :: u32
  next_byte :: u8                         \<comment> \<open>the byte behind the request\<close>
  recvs :: "recv_ev list"

definition overlay :: "u8 list \<Rightarrow> u8 list \<Rightarrow> u8 list" where
  \<comment> \<open>\<open>recvfrom\<close> into a buffer: the packet is cut to the buffer's size\<close>
  "overlay pkt buf = take (length buf) (pkt @ drop (length pkt) buf)"

definition slice :: "nat \<Rightarrow> nat \<Rightarrow> u8 list \<Rightarrow> u8 list res" where
  "slice off n buf = (if off + n \<le> length buf then Inr (take n (drop off buf)) else Inl OutOfBounds)"

definition ip_hl :: "u8 \<Rightarrow> nat" where
  "ip_hl b = unat (b AND 0x0f)"

definition check_reply :: "rtems_ping_t \<Rightarrow> u8 list \<Rightarrow> u32 \<Rightarrow> errno option res" where
  \<comment> \<open>\<open>None\<close>: not a response to this request, keep waiting\<close>
  "check_reply ping buf src =
     (let off = ip_hl (buf ! 0) * 4 in
      case slice off 8 buf of Inl f \<Rightarrow> Inl f
      | Inr icmp \<Rightarrow>
          if icmp ! 0 = ICMP_ECHOREPLY \<and> be16 (icmp ! 4) (icmp ! 5) = ucast (handle ping) \<and>
             be16 (icmp ! 6) (icmp ! 7) = ucast (seq ping) \<and> src = dest_addr ping
          then (case slice (off + 8 + 4 * ip_hl (icmp ! 0)) (payload_size ping) buf of Inl f \<Rightarrow> Inl f
                | Inr data \<Rightarrow>
                    Inr (Some (if data = rtems_ping_pattern (seq ping) (payload_size ping) then E_ok else E_IO)))
          else Inr None)"

fun wait_pong :: "rtems_ping_t \<Rightarrow> u32 \<Rightarrow> u32 \<Rightarrow> u32 \<Rightarrow> recv_ev list \<Rightarrow> u8 list \<Rightarrow> u32 \<Rightarrow>
    (errno \<times> u32 option \<times> u8 list) option res" where
  \<comment> \<open>timeout, send time, microseconds per tick; the result, the trip time if set and the
      response buffer; \<open>Inr None\<close> when the listed receptions are used up and it still waits\<close>
  "wait_pong ping timeout send uspt evs buf rcv_time =
     (if rcv_time \<ge> timeout then Inr (Some (E_TIMEDOUT, None, buf))
      else case evs of [] \<Rightarrow> Inr None
      | ev # evs \<Rightarrow>
          if \<not> setsockopt_ok ev then Inr (Some (E_fail, None, buf))
          else if req_size ping > length buf then Inl OutOfBounds
          else
            (let buf = replicate (req_size ping) 0 @ drop (req_size ping) buf in
             case received ev of
               None \<Rightarrow> Inr (Some (E_TIMEDOUT, None, buf))
             | Some (pkt, src) \<Rightarrow>
                 (let buf = overlay pkt buf in
                  case check_reply ping buf src of Inl f \<Rightarrow> Inl f
                  | Inr (Some r) \<Rightarrow> Inr (Some (r, Some ((now ev - send) * uspt), buf))
                  | Inr None \<Rightarrow> wait_pong ping timeout send uspt evs buf (now ev))))"

declare wait_pong.simps [simp del]

definition rtems_ping_send :: "send_env \<Rightarrow> rtems_ping_t option \<Rightarrow>
    ((errno \<times> u32 option) \<times> rtems_ping_t option) option res" where
  "rtems_ping_send e pp =
     (if ticks_per_s e = 0 then Inl DivByZero
      else case pp of None \<Rightarrow> Inr (Some ((E_INVAL, None), None))
      | Some ping \<Rightarrow>
          (let uspt = 1000000 div ticks_per_s e;
               ping = ping\<lparr>seq := seq ping + 1\<rparr>;
               ck = rtems_ping_cksum (echo_request ping 0) (next_byte e);
               ping = ping\<lparr>raw_req := echo_request ping ck\<rparr>;
               timeout = send_time e + ping_tv_sec ping * ticks_per_s e + (ping_tv_usec ping * ticks_per_s e) div 1000000 in
           case wait_pong ping timeout (send_time e) uspt (recvs e) (raw_resp ping) (send_time e) of
             Inl f \<Rightarrow> Inl f
           | Inr None \<Rightarrow> Inr None
           | Inr (Some (r, trip, buf)) \<Rightarrow> Inr (Some ((r, trip), Some (ping\<lparr>raw_resp := buf\<rparr>)))))"

section \<open>The convenience wrapper\<close>

fun ping_loop :: "(nat \<Rightarrow> send_env) \<Rightarrow> nat \<Rightarrow> nat \<Rightarrow> rtems_ping_t option \<Rightarrow> nat \<Rightarrow> nat \<Rightarrow> u32 \<Rightarrow>
    (nat \<times> nat) option res" where
  \<comment> \<open>\<open>n\<close> more passes after this one; the number of errors and the sum of the trip times\<close>
  "ping_loop e k n pp errs atrip trip =
     (case rtems_ping_send (e k) pp of
        Inl f \<Rightarrow> Inl f
      | Inr None \<Rightarrow> Inr None
      | Inr (Some ((r, t), pp)) \<Rightarrow>
          (let trip = (case t of None \<Rightarrow> trip | Some x \<Rightarrow> x);
               errs = (if r = E_ok then errs else Suc errs);
               atrip = (if r = E_ok then atrip + unat trip else atrip) in
           case n of 0 \<Rightarrow> Inr (Some (errs, atrip))
           | Suc n \<Rightarrow> ping_loop e (Suc k) n pp errs atrip trip))"

declare ping_loop.simps [simp del]

definition rtems_ping :: "open_env \<Rightarrow> (nat \<Rightarrow> send_env) \<Rightarrow> u32 \<Rightarrow> u32 \<Rightarrow> int \<Rightarrow> int option res" where
  \<comment> \<open>\<open>ipa\<close> is the result of \<open>inet_addr\<close>; \<open>trip0\<close> the uninitialised variable \<open>trip\<close>; \<open>nretries\<close> an \<open>int\<close>\<close>
  "rtems_ping oe se ipa trip0 nretries =
     (let failed = (if 2 ^ 31 \<le> nretries + 2 then Inl Overflow else Inr (Some (- (nretries + 2)))) in
      if ipa = 0 then failed
      else case rtems_ping_open oe ipa None of
        Inl ops \<Rightarrow> failed
      | Inr ping \<Rightarrow>
          (case ping_loop se 0 (nat nretries) (Some ping) 0 0 trip0 of
             Inl f \<Rightarrow> Inl f
           | Inr None \<Rightarrow> Inr None
           | Inr (Some (errs, atrip)) \<Rightarrow>
               if nretries = - (2 ^ 31) \<or> 2 ^ 31 \<le> nretries + 1 then Inl Overflow
               else if nretries + 1 = 0 then Inl DivByZero
               else
                 (let atrip = int atrip div ((nretries + 1) mod 2 ^ 64) in
                  Inr (Some (if errs \<noteq> 0 then - int errs else if atrip > 0x7fffffff then 0x7fffffff else atrip)))))"

section \<open>Requests and replies\<close>

lemma be16_split: "be16 (hi8 w) (lo8 w) = w"
  by (rule bit_word_eqI) (auto simp: be16_def hi8_def lo8_def bit_simps)

lemma length_echo_request: "length (echo_request ping ck) = 8 + payload_size ping"
  by (simp add: echo_request_def rtems_ping_pattern_def)

lemma echo_request_verifies:
  assumes "payload_size ping \<le> 65535"
  shows "ip_cksum (echo_request ping (rtems_ping_cksum (echo_request ping 0) nxt)) = 0"
proof -
  let ?post = "drop 4 (echo_request ping 0)" and ?ck = "rtems_ping_cksum (echo_request ping 0) nxt"
  have e: "echo_request ping ck = [ICMP_ECHO, 0] @ [hi8 ck, lo8 ck] @ ?post" for ck
    by (simp add: echo_request_def)
  have "hi8 0 = 0" "lo8 0 = 0" by (simp_all add: hi8_def lo8_def)
  moreover have "?ck = ip_cksum (echo_request ping 0)"
    using assms by (intro ping_cksum_eq) (simp add: length_echo_request)
  ultimately have "ip_cksum ([ICMP_ECHO, 0] @ [0, 0] @ ?post) = be16 (hi8 ?ck) (lo8 ?ck)"
    using e [of 0] by (simp only: be16_split)
  from ip_cksum_stored [OF _ this] show ?thesis unfolding e [of ?ck] by simp
qed

text \<open>An echo reply behind an IP header.\<close>

definition echo_reply :: "u8 list \<Rightarrow> u8 \<Rightarrow> u16 \<Rightarrow> rtems_ping_t \<Rightarrow> u8 list" where
  "echo_reply iphdr code ck ping =
     iphdr @ [ICMP_ECHOREPLY, code, hi8 ck, lo8 ck, hi8 (ucast (handle ping)), lo8 (ucast (handle ping)),
       hi8 (ucast (seq ping)), lo8 (ucast (seq ping))] @ rtems_ping_pattern (seq ping) (payload_size ping)"

lemma check_reply_genuine:
  assumes "buf = echo_reply iphdr code ck ping @ rest" and "iphdr \<noteq> []" "ip_hl (hd iphdr) * 4 = length iphdr"
  shows "check_reply ping buf (dest_addr ping) = Inr (Some E_ok)"
proof -
  have hd: "buf ! 0 = hd iphdr" using assms by (simp add: echo_reply_def hd_append nth_append hd_conv_nth)
  let ?icmp = "[ICMP_ECHOREPLY, code, hi8 ck, lo8 ck, hi8 (ucast (handle ping)), lo8 (ucast (handle ping)),
       hi8 (ucast (seq ping)), lo8 (ucast (seq ping))]"
  have "slice (length iphdr) 8 buf = Inr ?icmp"
    using assms(1) by (simp add: slice_def echo_reply_def)
  moreover have "slice (length iphdr + 8) (payload_size ping) buf =
      Inr (rtems_ping_pattern (seq ping) (payload_size ping))"
    using assms(1) by (simp add: slice_def echo_reply_def rtems_ping_pattern_def)
  ultimately show ?thesis
    using assms(3) hd by (simp add: check_reply_def Let_def be16_split ip_hl_def)
qed

lemma overlay_fits: "length pkt \<le> length buf \<Longrightarrow> overlay pkt buf = pkt @ drop (length pkt) buf"
  by (simp add: overlay_def)

lemma length_overlay: "length (overlay pkt buf) = length buf"
  by (simp add: overlay_def)

section \<open>Bounds\<close>

lemma ip_hl_le: "ip_hl b \<le> 15"
proof -
  have "b AND 0x0f = take_bit 4 b" using take_bit_eq_mask [of 4 b] by (simp add: mask_eq_exp_minus_1)
  then have "unat (b AND 0x0f) < 16" by (simp add: take_bit_eq_mod unat_mod)
  then show ?thesis by (simp add: ip_hl_def)
qed

lemma check_reply_no_fault:
  assumes "68 + payload_size ping \<le> length buf"
  shows "\<exists>r. check_reply ping buf src = Inr r"
proof -
  let ?off = "ip_hl (buf ! 0) * 4"
  have off: "?off + 8 + payload_size ping \<le> length buf" using assms ip_hl_le [of "buf ! 0"] by simp
  then have "slice ?off 8 buf = Inr (take 8 (drop ?off buf))" by (simp add: slice_def)
  moreover have "slice (?off + 8) (payload_size ping) buf = Inr (take (payload_size ping) (drop (?off + 8) buf))"
    using off by (simp add: slice_def)
  ultimately show ?thesis by (simp add: check_reply_def Let_def ip_hl_def)
qed

text \<open>The response buffer is large enough for the longest header and the payload.\<close>

definition ping_wf :: "rtems_ping_t \<Rightarrow> bool" where
  "ping_wf ping \<longleftrightarrow> length (raw_resp ping) = IP_MAXPACKET \<and> req_size ping = 8 + payload_size ping \<and>
     68 + payload_size ping \<le> IP_MAXPACKET"

definition times_out :: "recv_ev list \<Rightarrow> bool" where
  \<comment> \<open>sooner or later nothing is received\<close>
  "times_out evs \<longleftrightarrow> evs \<noteq> [] \<and> received (last evs) = None"

lemma wait_pong_returns:
  assumes "ping_wf (ping\<lparr>raw_resp := buf\<rparr>)" and "times_out evs"
  shows "\<exists>r t buf'. wait_pong ping timeout send uspt evs buf rcv_time = Inr (Some (r, t, buf')) \<and>
    ping_wf (ping\<lparr>raw_resp := buf'\<rparr>)"
  using assms
proof (induction evs arbitrary: buf rcv_time)
  case Nil
  then show ?case by (simp add: times_out_def)
next
  case (Cons ev evs)
  let ?buf = "replicate (req_size ping) 0 @ drop (req_size ping) buf"
  have wf: "ping_wf (ping\<lparr>raw_resp := ?buf\<rparr>)" and le: "req_size ping \<le> length buf"
    using Cons.prems(1) by (auto simp: ping_wf_def)
  note unf = wait_pong.simps [of _ _ _ _ "ev # evs"]
  show ?case
  proof (cases "received ev")
    case None
    with Cons.prems(1) wf le show ?thesis by (simp add: unf Let_def)
  next
    case (Some a)
    obtain pkt src where a: "a = (pkt, src)" by (cases a)
    from Some Cons.prems(2) have rest: "times_out evs" by (auto simp: times_out_def split: if_splits)
    have wf': "ping_wf (ping\<lparr>raw_resp := overlay pkt ?buf\<rparr>)" using wf by (auto simp: ping_wf_def length_overlay)
    obtain r where r: "check_reply ping (overlay pkt ?buf) src = Inr r"
      using check_reply_no_fault [of ping "overlay pkt ?buf" src] wf' by (auto simp: ping_wf_def)
    from Cons.IH [OF wf' rest, of "now ev"] Some a r Cons.prems(1) wf' le show ?thesis
      by (cases r) (auto simp: unf Let_def)
  qed
qed

lemma ping_send_returns:
  assumes "ping_wf ping" and "ticks_per_s e \<noteq> 0" and "times_out (recvs e)"
  obtains r t ping' where "rtems_ping_send e (Some ping) = Inr (Some ((r, t), Some ping'))" "ping_wf ping'"
proof -
  let ?p = "ping\<lparr>seq := seq ping + 1\<rparr>"
  let ?q = "?p\<lparr>raw_req := echo_request ?p (rtems_ping_cksum (echo_request ?p 0) (next_byte e))\<rparr>"
  have "ping_wf (?q\<lparr>raw_resp := raw_resp ping\<rparr>)" using assms(1) by (simp add: ping_wf_def)
  from wait_pong_returns [OF this assms(3)] obtain r t buf' where
    "wait_pong ?q (send_time e + ping_tv_sec ping * ticks_per_s e + ping_tv_usec ping * ticks_per_s e div 1000000)
       (send_time e) (1000000 div ticks_per_s e) (recvs e) (raw_resp ping) (send_time e) = Inr (Some (r, t, buf'))"
    "ping_wf (?q\<lparr>raw_resp := buf'\<rparr>)" by blast
  with assms(2) show thesis
    by (intro that [of r t "?q\<lparr>raw_resp := buf'\<rparr>"]) (simp_all add: rtems_ping_send_def Let_def)
qed

text \<open>A sequence of pings on one structure, and what becomes of them.\<close>

fun pings :: "(nat \<Rightarrow> send_env) \<Rightarrow> nat \<Rightarrow> nat \<Rightarrow> rtems_ping_t option \<Rightarrow> (errno \<times> u32 option) list" where
  \<comment> \<open>the results and trip times of \<open>n\<close> calls of \<open>rtems_ping_send\<close>, the first with environment \<open>e k\<close>\<close>
  "pings e k 0 pp = []"
| "pings e k (Suc n) pp =
     (case rtems_ping_send (e k) pp of Inr (Some (r, pp)) \<Rightarrow> r # pings e (Suc k) n pp | _ \<Rightarrow> [])"

definition lost :: "(errno \<times> u32 option) list \<Rightarrow> nat" where
  "lost rs = length (filter (\<lambda>(r, t). r \<noteq> E_ok) rs)"

definition trips :: "(errno \<times> u32 option) list \<Rightarrow> nat" where
  "trips rs = sum_list (map (\<lambda>(r, t). if r = E_ok then unat (the t) else 0) rs)"

lemma wait_pong_trip:
  "wait_pong ping timeout send uspt evs buf rcv_time = Inr (Some (E_ok, t, buf')) \<Longrightarrow> t \<noteq> None"
proof (induction ping timeout send uspt evs buf rcv_time rule: wait_pong.induct)
  case (1 ping timeout send uspt evs buf rcv_time)
  show ?case
  proof (cases evs)
    case Nil
    then show ?thesis using "1.prems" by (simp add: wait_pong.simps split: if_splits)
  next
    case (Cons ev rest)
    then show ?thesis
      using "1.prems" "1.IH" [of ev rest]
      by (subst (asm) (1) wait_pong.simps)
        (auto simp: Let_def split: if_splits option.splits sum.splits prod.splits)
  qed
qed

lemma ping_send_trip:
  assumes "rtems_ping_send e (Some ping) = Inr (Some ((E_ok, t), ping'))"
  shows "t \<noteq> None"
  using assms wait_pong_trip by (auto simp: rtems_ping_send_def Let_def split: if_splits sum.splits option.splits prod.splits)

lemma ping_loop_returns:
  assumes "ping_wf ping" and "\<And>k. ticks_per_s (e k) \<noteq> 0" "\<And>k. times_out (recvs (e k))"
  shows "length (pings e k (Suc n) (Some ping)) = Suc n \<and>
    ping_loop e k n (Some ping) errs atrip trip =
      Inr (Some (errs + lost (pings e k (Suc n) (Some ping)), atrip + trips (pings e k (Suc n) (Some ping))))"
  using assms(1)
proof (induction n arbitrary: k ping errs atrip trip)
  case 0
  obtain r t ping' where s: "rtems_ping_send (e k) (Some ping) = Inr (Some ((r, t), Some ping'))"
    using ping_send_returns [OF 0 assms(2,3)] by metis
  then show ?case
    using ping_send_trip [of "e k" ping t "Some ping'"] by (auto simp: ping_loop.simps [of _ _ 0] Let_def lost_def trips_def)
next
  case (Suc n)
  obtain r t ping' where s: "rtems_ping_send (e k) (Some ping) = Inr (Some ((r, t), Some ping'))" "ping_wf ping'"
    using ping_send_returns [OF Suc.prems assms(2,3)] by metis
  show ?case
    using Suc.IH [OF s(2), of "Suc k"] s(1) ping_send_trip [of "e k" ping t "Some ping'"]
    by (auto simp: ping_loop.simps [of _ _ "Suc n"] Let_def lost_def trips_def simp del: pings.simps(2))
       (auto simp: lost_def trips_def)
qed

lemma ping_open_wf:
  "rtems_ping_open oe ip None = Inr ping \<Longrightarrow> ping_wf ping"
  by (auto simp: rtems_ping_open_def rtems_ping_standard_def ping_wf_def Let_def split: if_splits)

section \<open>Properties\<close>

text \<open>C22: A genuine reply is recognised. If the first packet received before the timeout is an
  echo reply of the destination with the request's identifier, sequence number and payload behind an
  IP header of any length, \<open>rtems_ping_send\<close> returns success with the elapsed time in microseconds;
  and the request it sent carries the next sequence number and a valid checksum.\<close>

theorem ping_send_reply:
  assumes "ping_wf ping" "ticks_per_s e \<noteq> 0"
    and "recvs e = ev # evs" "setsockopt_ok ev"
    and "received ev = Some (echo_reply iphdr code ck (ping\<lparr>seq := seq ping + 1\<rparr>), dest_addr ping)"
    and "iphdr \<noteq> []" "ip_hl (hd iphdr) * 4 = length iphdr"
    and "send_time e < send_time e + ping_tv_sec ping * ticks_per_s e + ping_tv_usec ping * ticks_per_s e div 1000000"
  shows "\<exists>ping'. rtems_ping_send e (Some ping) =
      Inr (Some ((E_ok, Some ((now ev - send_time e) * (1000000 div ticks_per_s e))), Some ping')) \<and>
    seq ping' = seq ping + 1 \<and> ip_cksum (raw_req ping') = 0"
proof -
  let ?p = "ping\<lparr>seq := seq ping + 1\<rparr>"
  let ?q = "?p\<lparr>raw_req := echo_request ?p (rtems_ping_cksum (echo_request ?p 0) (next_byte e))\<rparr>"
  let ?pkt = "echo_reply iphdr code ck ?p"
  let ?buf = "replicate (req_size ping) 0 @ drop (req_size ping) (raw_resp ping)"
  have "length iphdr \<le> 60" using assms(7) ip_hl_le [of "hd iphdr"] by simp
  then have "length ?pkt \<le> length ?buf"
    using assms(1) by (simp add: ping_wf_def echo_reply_def rtems_ping_pattern_def)
  then have "overlay ?pkt ?buf = echo_reply iphdr code ck ?q @ drop (length ?pkt) ?buf"
    by (simp only: overlay_fits) (simp add: echo_reply_def)
  from check_reply_genuine [OF this assms(6,7)] have "check_reply ?q (overlay ?pkt ?buf) (dest_addr ping) = Inr (Some E_ok)"
    by simp
  moreover have "req_size ping \<le> length (raw_resp ping)" using assms(1) by (simp add: ping_wf_def)
  moreover have "ip_cksum (raw_req ?q) = 0"
    using echo_request_verifies [of ?p] assms(1) by (simp add: ping_wf_def)
  ultimately show ?thesis
    using assms(2-5,8)
    by (auto simp: rtems_ping_send_def wait_pong.simps [of _ _ _ _ "ev # evs"] Let_def not_le [symmetric])
qed

definition sample_ping :: rtems_ping_t where
  "sample_ping = \<lparr>ping_socket = 5, seq = 100, dest_addr = 0x0a000001, payload_size = 56, ping_tv_sec = 1,
     ping_tv_usec = 0, req_size = 64, raw_req = replicate 64 0, raw_resp = replicate 65535 0, handle = 0x12345678\<rparr>"

definition sample_recv :: recv_ev where
  "sample_recv = \<lparr>setsockopt_ok = True,
     received = Some (echo_reply (0x45 # replicate 19 0) 0 0x1234 (sample_ping\<lparr>seq := 101\<rparr>), 0x0a000001), now = 507\<rparr>"

theorem ping_send_reply_witness:
  "\<exists>ping'. rtems_ping_send \<lparr>ticks_per_s = 100, send_time = 500, next_byte = 0, recvs = [sample_recv]\<rparr> (Some sample_ping) =
     Inr (Some ((E_ok, Some 70000), Some ping')) \<and> ip_cksum (raw_req ping') = 0"
proof -
  have wf: "ping_wf sample_ping" by (simp add: sample_ping_def ping_wf_def)
  let ?e = "\<lparr>ticks_per_s = 100, send_time = 500, next_byte = 0, recvs = [sample_recv]\<rparr>"
  have "received sample_recv = Some (echo_reply (0x45 # replicate 19 0) 0 0x1234 (sample_ping\<lparr>seq := seq sample_ping + 1\<rparr>), dest_addr sample_ping)"
    by (simp add: sample_recv_def sample_ping_def)
  from ping_send_reply [OF wf, of ?e sample_recv "[]" "0x45 # replicate 19 0" 0 "0x1234", OF _ _ _ this] show ?thesis
    by (simp add: sample_recv_def ip_hl_def) (auto simp: sample_ping_def)
qed

text \<open>C23: The result of \<open>rtems_ping\<close>, for a clock that ticks and receptions that time out in the end. If the
  address is zero or the ping cannot be opened it is \<open>-(retries+2)\<close>. Otherwise, for a number of retries that is
  not negative, exactly \<open>retries+1\<close> pings are sent; if some of them failed the result is minus the number of
  those, and if none did it is the mean of their trip times, rounded down and cut to \<open>0x7fffffff\<close>. With
  \<open>retries = -1\<close> the mean divides by zero, and a number of retries at the end of the range of \<open>int\<close> overflows in
  the additions of 2 or 1.\<close>
theorem rtems_ping_result:
  assumes "\<And>k. ticks_per_s (se k) \<noteq> 0" "\<And>k. times_out (recvs (se k))" "- (2 ^ 31) \<le> nretries" "nretries < 2 ^ 31"
  shows "rtems_ping oe se ipa trip0 nretries =
    (if ipa = 0 \<or> (\<exists>ops. rtems_ping_open oe ipa None = Inl ops)
     then if 2 ^ 31 - 2 \<le> nretries then Inl Overflow else Inr (Some (- (nretries + 2)))
     else if nretries = 2 ^ 31 - 1 \<or> nretries = - (2 ^ 31) then Inl Overflow
     else if nretries = -1 then Inl DivByZero
     else let rs = pings se 0 (Suc (nat nretries)) (Some (projr (rtems_ping_open oe ipa None))) in
       if lost rs \<noteq> 0 then Inr (Some (- int (lost rs)))
       else Inr (Some (min 0x7fffffff (int (trips rs) div ((nretries + 1) mod 2 ^ 64))))) \<and>
    (\<forall>p. rtems_ping_open oe ipa None = Inr p \<longrightarrow> length (pings se 0 (Suc (nat nretries)) (Some p)) = Suc (nat nretries))"
proof (cases "rtems_ping_open oe ipa None")
  case (Inl ops)
  then show ?thesis using assms(4) by (auto simp: rtems_ping_def Let_def)
next
  case (Inr p)
  note loop = ping_loop_returns [where e = se and k = 0 and n = "nat nretries" and errs = 0 and atrip = 0 and trip = trip0,
      OF ping_open_wf [OF Inr] assms(1,2)]
  then show ?thesis
    using Inr assms(3,4) by (auto simp: rtems_ping_def Let_def min_def simp del: pings.simps)
qed

definition deaf :: "nat \<Rightarrow> send_env" where
  "deaf k = \<lparr>ticks_per_s = 100, send_time = 500, next_byte = 0, recvs = [\<lparr>setsockopt_ok = True, received = None, now = 600\<rparr>]\<rparr>"

definition opens :: open_env where
  "opens = \<lparr>ping_mem = True, req_mem = True, resp_mem = True, rand_val = 1, sock_res = 5, ping_ptr = 0x1000\<rparr>"

lemma deaf_send:
  assumes "ping_wf ping" "ping_tv_sec ping = 1" "ping_tv_usec ping = 0"
  shows "\<exists>ping'. rtems_ping_send (deaf k) (Some ping) = Inr (Some ((E_TIMEDOUT, None), Some ping')) \<and>
    ping_wf ping' \<and> ping_tv_sec ping' = 1 \<and> ping_tv_usec ping' = 0"
  using assms by (simp add: rtems_ping_send_def deaf_def wait_pong.simps Let_def ping_wf_def)

lemma deaf_pings:
  "ping_wf ping \<Longrightarrow> ping_tv_sec ping = 1 \<Longrightarrow> ping_tv_usec ping = 0 \<Longrightarrow>
     pings deaf k n (Some ping) = replicate n (E_TIMEDOUT, None)"
proof (induction n arbitrary: k ping)
  case (Suc n)
  then show ?case using deaf_send [OF Suc.prems, of k] by auto
qed simp

theorem rtems_ping_result_witness:
  "(\<forall>k. ticks_per_s (deaf k) \<noteq> 0) \<and> (\<forall>k. times_out (recvs (deaf k))) \<and>
   rtems_ping opens deaf 0x0a000001 0 3 = Inr (Some (-4)) \<and>
   rtems_ping opens deaf 0x0a000001 0 (-1) = Inl DivByZero \<and>
   rtems_ping opens deaf 0 0 (2 ^ 31 - 2) = Inl Overflow"
proof -
  have d: "ticks_per_s (deaf k) \<noteq> 0" "times_out (recvs (deaf k))" for k by (simp_all add: deaf_def times_out_def)
  obtain ping where p: "rtems_ping_open opens 0x0a000001 None = Inr ping" "ping_tv_sec ping = 1" "ping_tv_usec ping = 0"
    by (simp add: rtems_ping_open_def rtems_ping_standard_def opens_def Let_def)
  have "pings deaf 0 (Suc (nat 3)) (Some ping) = replicate (Suc (nat 3)) (E_TIMEDOUT, None)"
    using deaf_pings [OF ping_open_wf [OF p(1)] p(2,3)] .
  then have l: "lost (pings deaf 0 (Suc (nat 3)) (Some ping)) = 4" by (simp add: lost_def numeral_eq_Suc)
  note r = rtems_ping_result [where se = deaf, OF d]
  have "rtems_ping opens deaf 0x0a000001 0 3 = Inr (Some (-4))"
    using r [of 3 opens "0x0a000001" 0] p(1) l by (simp del: pings.simps)
  moreover have "rtems_ping opens deaf 0x0a000001 0 (-1) = Inl DivByZero"
    using r [of "-1" opens "0x0a000001" 0] p(1) by (simp del: pings.simps)
  moreover have "rtems_ping opens deaf 0 0 (2 ^ 31 - 2) = Inl Overflow"
    using r [of "2 ^ 31 - 2" opens 0 0] by simp
  ultimately show ?thesis using d by blast
qed

end
