(* ===== verification/Traceroute.thy ===== *)
theory Traceroute
  imports Checksum
begin

unbundle bit_operations_syntax

text \<open>
  The traceroute client, \<^verbatim>\<open>miscUtils/traceroute.c\<close>. Frames are byte lists in memory order, as in
  the theory on checksums; messages to the user are not modelled. Each pass of the loop in
  \<open>do_traceroute\<close> has a record of what the system did: whether the frame was sent, what the calls of
  \<open>recvfrom\<close> returned in turn, as a function of the frame sent, the clock, what the array \<open>data\<close> (a local of the loop body) held behind
  the frame, and whether a list node could be allocated. Words are stored in the big-endian order of
  the PowerPC targets.
\<close>

section \<open>Frames\<close>

abbreviation MAX_RETRIES :: int where "MAX_RETRIES \<equiv> 10"
abbreviation TR_IDENT :: u16 where "TR_IDENT \<equiv> 5930"
abbreviation sizeof_ip :: nat where "sizeof_ip \<equiv> 20"
abbreviation sizeof_icmp :: nat where "sizeof_icmp \<equiv> 28"
abbreviation TR_ECHO :: u8 where "TR_ECHO \<equiv> 8"
abbreviation TR_ECHOREPLY :: u8 where "TR_ECHOREPLY \<equiv> 0"
abbreviation TR_TIME_EXCEEDED :: u8 where "TR_TIME_EXCEEDED \<equiv> 11"

definition ip_header :: "u32 \<Rightarrow> u32 \<Rightarrow> u8 \<Rightarrow> u16 \<Rightarrow> u16 \<Rightarrow> u8 list" where
  "ip_header src dst ttl ip_len cks =
     ([0x45, 0] @ bytes16 ip_len @ bytes16 TR_IDENT @ [0, 0] @ [ttl, 1]) @ bytes16 cks @ (bytes32 src @ bytes32 dst)"

definition tr_make_ip_frame :: "u32 \<Rightarrow> u32 \<Rightarrow> u8 \<Rightarrow> nat \<Rightarrow> u8 list \<times> nat" where
  \<comment> \<open>local and destination address; the header and the length returned\<close>
  "tr_make_ip_frame local dst ttl datalen =
     (let len = word_of_nat (datalen + sizeof_ip) in
      (ip_header local dst ttl len (ip_cksum (ip_header local dst ttl len 0)), unat len))"

definition icmp_echo :: "u16 \<Rightarrow> u8 list" where
  "icmp_echo ck = [TR_ECHO, 0] @ bytes16 ck @ (bytes16 TR_IDENT @ [0, 0] @ replicate 20 0)"

definition tr_make_icmp :: "u32 \<Rightarrow> u32 \<Rightarrow> u8 list" where
  \<comment> \<open>the time stamp goes behind the ICMP structure and is outside the checksum\<close>
  "tr_make_icmp sec nsec = icmp_echo (ip_cksum (icmp_echo 0)) @ bytes32 sec @ bytes32 nsec"

section \<open>Options and results\<close>

record traceroute_opts =
  opts_ip :: u32
  max_hops :: int

definition traceroute_opts_init :: "traceroute_opts" where
  "traceroute_opts_init = \<lparr>opts_ip = 0, max_hops = 128\<rparr>"

record traceroute_result =
  hops :: int
  nodes :: "u32 list"      \<comment> \<open>the addresses along the list from \<open>first\<close>\<close>

definition traceroute_result_free :: "traceroute_result option \<Rightarrow> nat" where
  \<comment> \<open>the number of blocks freed: every node, then the result\<close>
  "traceroute_result_free r = (case r of None \<Rightarrow> 0 | Some res \<Rightarrow> length (nodes res) + 1)"

record open_res =
  sock_fd :: int
  rcvtimeo_ok :: bool
  sndtimeo_ok :: bool
  hdrincl_ok :: bool
  sockname :: "u32 option"

definition tr_open :: "open_res \<Rightarrow> (int list, int \<times> u32) sum" where
  \<comment> \<open>\<open>Inl\<close>: false, with the descriptors closed; \<open>Inr\<close>: descriptor and local address\<close>
  "tr_open e =
     (if sock_fd e < 0 then Inl []
      else if \<not> rcvtimeo_ok e \<or> \<not> sndtimeo_ok e \<or> \<not> hdrincl_ok e then Inl [sock_fd e]
      else case sockname e of None \<Rightarrow> Inl [sock_fd e] | Some a \<Rightarrow> Inr (sock_fd e, a))"

section \<open>The loop\<close>

datatype rx =
    Rx_zero                 \<comment> \<open>\<open>recvfrom\<close> returned 0\<close>
  | Rx_again                \<comment> \<open>negative, \<open>EAGAIN\<close> or \<open>EWOULDBLOCK\<close>\<close>
  | Rx_err
  | Rx_pkt "u8 list" u32    \<comment> \<open>a datagram, cut to the length asked for, and its source address\<close>

record pass_ev =
  send_ok :: bool
  sentat :: "u32 \<times> u32"     \<comment> \<open>seconds and nanoseconds\<close>
  behind :: "u8 list"
  rxs :: "u8 list \<Rightarrow> rx list"   \<comment> \<open>what the calls of \<open>recvfrom\<close> return when this frame has been sent\<close>
  node_mem :: bool

datatype rxout = Lost | Next_hop | Hop u32 bool | Waiting
  \<comment> \<open>\<open>Hop\<close>: address, and whether the destination is reached\<close>

definition put_packet :: "u8 list \<Rightarrow> u8 list \<Rightarrow> u8 list" where
  "put_packet pkt buf = take (length buf) (pkt @ drop (length pkt) buf)"

fun tr_recv :: "u32 \<Rightarrow> u8 list \<Rightarrow> rx list \<Rightarrow> rxout" where
  \<comment> \<open>from the label \<open>recvagain\<close>; \<open>buf\<close> is the array \<open>data\<close>\<close>
  "tr_recv dst buf [] = Waiting"
| "tr_recv dst buf (Rx_zero # rs) = Next_hop"
| "tr_recv dst buf (Rx_again # rs) = Next_hop"
| "tr_recv dst buf (Rx_err # rs) = Lost"
| "tr_recv dst buf (Rx_pkt pkt src # rs) =
     (let pkt = take (sizeof_ip + sizeof_icmp) pkt; buf = put_packet pkt buf; off = unat (buf ! 0 AND 0x0f) * 4 in
      if length pkt < sizeof_ip + 8 then tr_recv dst buf rs
      else if buf ! off \<noteq> TR_ECHOREPLY \<and> buf ! off \<noteq> TR_TIME_EXCEEDED \<and>
              be16 (buf ! (off + 4)) (buf ! (off + 5)) \<noteq> TR_IDENT
      then tr_recv dst buf rs
      else Hop src (buf ! (off + 1) = TR_ECHOREPLY \<and> src = dst))"

definition tr_frame :: "u32 \<Rightarrow> u32 \<Rightarrow> u8 \<Rightarrow> pass_ev \<Rightarrow> u8 list" where
  "tr_frame local dst ttl ev =
     fst (tr_make_ip_frame local dst ttl sizeof_icmp) @ tr_make_icmp (fst (sentat ev)) (snd (sentat ev)) @ behind ev"

definition tr_sent :: "u32 \<Rightarrow> u32 \<Rightarrow> u8 \<Rightarrow> pass_ev \<Rightarrow> u8 list" where
  \<comment> \<open>the part of the array that \<open>sendto\<close> sends\<close>
  "tr_sent local dst ttl ev = take (snd (tr_make_ip_frame local dst ttl sizeof_icmp)) (tr_frame local dst ttl ev)"

fun tr_loop :: "u32 \<Rightarrow> u32 \<Rightarrow> pass_ev list \<Rightarrow> int \<Rightarrow> int \<Rightarrow> u8 \<Rightarrow> u32 list \<Rightarrow> (int \<times> u32 list) option res" where
  \<comment> \<open>\<open>Inr None\<close>: still running when the listed passes are used up\<close>
  "tr_loop local dst evs n retries ttl ns =
     (if n \<le> 0 \<or> retries \<le> 0 then Inr (Some (n, ns))
      else case evs of [] \<Rightarrow> Inr None
      | ev # evs \<Rightarrow>
          if \<not> send_ok ev then tr_loop local dst evs n (retries - 1) ttl ns
          else
            (case tr_recv dst (tr_frame local dst ttl ev) (rxs ev (tr_sent local dst ttl ev)) of
               Waiting \<Rightarrow> Inr None
             | Lost \<Rightarrow> tr_loop local dst evs n (retries - 1) ttl ns
             | Next_hop \<Rightarrow> tr_loop local dst evs (n - 1) MAX_RETRIES (ttl + 1) ns
             | Hop a reached \<Rightarrow>
                 if \<not> node_mem ev then Inl NullDeref
                 else if reached then Inr (Some (n, ns @ [a]))
                 else tr_loop local dst evs (n - 1) MAX_RETRIES (ttl + 1) (ns @ [a])))"

declare tr_loop.simps [simp del]

definition do_traceroute :: "open_res \<Rightarrow> bool \<Rightarrow> pass_ev list \<Rightarrow> traceroute_opts \<Rightarrow>
    (bool \<times> traceroute_result option \<times> u32 list) option res" where
  \<comment> \<open>\<open>mem\<close>: the result structure can be allocated; the third component are nodes that nobody frees\<close>
  "do_traceroute e mem evs opts =
     (case tr_open e of
        Inl closed \<Rightarrow> Inr (Some (False, None, []))
      | Inr (fd, local) \<Rightarrow>
          if \<not> mem then Inl NullDeref
          else (case tr_loop local (opts_ip opts) evs (max_hops opts) MAX_RETRIES 1 [] of
                  Inl f \<Rightarrow> Inl f
                | Inr None \<Rightarrow> Inr None
                | Inr (Some (h, ns)) \<Rightarrow>
                    Inr (Some (if h > 0 then (True, Some \<lparr>hops = int (length ns), nodes = ns\<rparr>, [])
                               else (False, None, ns)))))"

definition traceroute :: "(string \<Rightarrow> u32) \<Rightarrow> open_res \<Rightarrow> bool \<Rightarrow> pass_ev list \<Rightarrow> string option \<Rightarrow> nat option res" where
  \<comment> \<open>the number of blocks freed at the end\<close>
  "traceroute inet_addr e mem evs ip =
     (case ip of None \<Rightarrow> Inr (Some 0)
      | Some s \<Rightarrow>
          (case do_traceroute e mem evs (traceroute_opts_init\<lparr>opts_ip := inet_addr s\<rparr>) of
             Inl f \<Rightarrow> Inl f
           | Inr None \<Rightarrow> Inr None
           | Inr (Some (ok, r, leaked)) \<Rightarrow> Inr (Some (traceroute_result_free r))))"

section \<open>Frames verify\<close>

lemma bytes16_eq: "bytes16 w = [bytes16 w ! 0, bytes16 w ! 1]"
  by (simp add: bytes16_def)

lemma bytes16_0: "bytes16 0 = [0, 0]"
  by (simp add: bytes16_def)

lemma stored_checksum_verifies:
  assumes "even (length pre)"
  shows "ip_cksum (pre @ bytes16 (ip_cksum (pre @ bytes16 0 @ post)) @ post) = 0"
proof -
  let ?ck = "ip_cksum (pre @ [0, 0] @ post)"
  have "?ck = be16 (bytes16 ?ck ! 0) (bytes16 ?ck ! 1)" by (simp only: be16_bytes16)
  from ip_cksum_stored [OF assms this] show ?thesis
    unfolding bytes16_0 by (simp only: bytes16_eq [symmetric])
qed

section \<open>Properties\<close>

text \<open>The IP header and the ICMP echo request that a pass of the loop sends are well formed:
  20 and 28 bytes long, with the destination, the time to live and the identifier in their places, the
  length field covering both, and both checksums valid.\<close>

theorem traceroute_frame_valid:
  "(case tr_make_ip_frame local dst ttl sizeof_icmp of (hdr, len) \<Rightarrow>
      length hdr = sizeof_ip \<and> len = sizeof_ip + sizeof_icmp \<and> be16 (hdr ! 2) (hdr ! 3) = word_of_nat len \<and>
      hdr ! 8 = ttl \<and> drop 16 hdr = bytes32 dst \<and> ip_cksum hdr = 0) \<and>
   ip_cksum (take sizeof_icmp (tr_make_icmp sec nsec)) = 0 \<and>
   be16 (tr_make_icmp sec nsec ! 4) (tr_make_icmp sec nsec ! 5) = TR_IDENT"
proof -
  let ?len = "word_of_nat (sizeof_icmp + sizeof_ip) :: u16"
  let ?pre = "[0x45, 0] @ bytes16 ?len @ bytes16 TR_IDENT @ [0, 0] @ [ttl, 1]"
  have "even (length ?pre)" by (simp add: bytes16_def)
  from stored_checksum_verifies [OF this, of "bytes32 local @ bytes32 dst"]
  have hdr: "ip_cksum (fst (tr_make_ip_frame local dst ttl sizeof_icmp)) = 0"
    by (simp only: tr_make_ip_frame_def Let_def fst_conv ip_header_def)
  have "even (length [TR_ECHO, 0])" by simp
  from stored_checksum_verifies [OF this, of "bytes16 TR_IDENT @ [0, 0] @ replicate 20 0"]
  have "ip_cksum (icmp_echo (ip_cksum (icmp_echo 0))) = 0" by (simp only: icmp_echo_def)
  moreover have "take sizeof_icmp (tr_make_icmp sec nsec) = icmp_echo (ip_cksum (icmp_echo 0))"
    by (simp add: tr_make_icmp_def icmp_echo_def bytes16_def)
  moreover have "be16 (tr_make_icmp sec nsec ! 4) (tr_make_icmp sec nsec ! 5) = TR_IDENT"
    by (simp add: tr_make_icmp_def icmp_echo_def bytes16_def be16_def)
  ultimately show ?thesis using hdr
    by (simp add: tr_make_ip_frame_def Let_def) (simp add: ip_header_def bytes16_def bytes32_def be16_def)
qed

section \<open>The loop returns\<close>

definition timed_out :: "rx list \<Rightarrow> bool" where
  \<comment> \<open>some call of \<open>recvfrom\<close> in the pass delivered no datagram\<close>
  "timed_out rs = list_ex (\<lambda>r. r = Rx_zero \<or> r = Rx_again \<or> r = Rx_err) rs"

lemma tr_recv_not_waiting: "timed_out rs \<Longrightarrow> tr_recv dst buf rs \<noteq> Waiting"
  by (induction dst buf rs rule: tr_recv.induct) (auto simp: timed_out_def Let_def)

lemma tr_loop_stop: "h \<le> 0 \<or> retries \<le> 0 \<Longrightarrow> tr_loop local dst evs h retries ttl ns = Inr (Some (h, ns))"
  by (simp add: tr_loop.simps)

lemma tr_loop_pass:
  assumes "0 < h" "0 < retries"
  shows "tr_loop local dst (ev # evs) h retries ttl ns =
     (if \<not> send_ok ev then tr_loop local dst evs h (retries - 1) ttl ns
      else case tr_recv dst (tr_frame local dst ttl ev) (rxs ev (tr_sent local dst ttl ev)) of
             Waiting \<Rightarrow> Inr None
           | Lost \<Rightarrow> tr_loop local dst evs h (retries - 1) ttl ns
           | Next_hop \<Rightarrow> tr_loop local dst evs (h - 1) MAX_RETRIES (ttl + 1) ns
           | Hop a reached \<Rightarrow>
               if \<not> node_mem ev then Inl NullDeref
               else if reached then Inr (Some (h, ns @ [a]))
               else tr_loop local dst evs (h - 1) MAX_RETRIES (ttl + 1) (ns @ [a]))"
  using assms by (simp add: tr_loop.simps [of local dst "ev # evs"])

definition loop_returns :: "u32 \<Rightarrow> u32 \<Rightarrow> pass_ev list \<Rightarrow> int \<Rightarrow> int \<Rightarrow> u8 \<Rightarrow> u32 list \<Rightarrow> bool" where
  "loop_returns local dst evs h retries ttl ns \<longleftrightarrow>
     (\<exists>h' ms. tr_loop local dst evs h retries ttl ns = Inr (Some (h', ns @ ms)) \<and> int (length ms) \<le> max 0 h)"

lemma loop_returns_more:
  assumes "loop_returns local dst evs (h - 1) 10 ttl (ns @ [a])" "0 < h"
  shows "\<exists>h' ms. tr_loop local dst evs (h - 1) 10 ttl (ns @ [a]) = Inr (Some (h', ns @ ms)) \<and> int (length ms) \<le> max 0 h"
proof -
  from assms(1) obtain h' ms where "tr_loop local dst evs (h - 1) 10 ttl (ns @ [a]) = Inr (Some (h', (ns @ [a]) @ ms))"
    "int (length ms) \<le> max 0 (h - 1)" unfolding loop_returns_def by blast
  with assms(2) show ?thesis by (intro exI [of _ h'] exI [of _ "a # ms"]) simp
qed

lemma loop_returns_mono: "loop_returns local dst evs (h - 1) r ttl ns \<Longrightarrow> 0 < h \<Longrightarrow>
    \<exists>h' ms. tr_loop local dst evs (h - 1) r ttl ns = Inr (Some (h', ns @ ms)) \<and> int (length ms) \<le> max 0 h"
  unfolding loop_returns_def by fastforce

lemma tr_loop_returns:
  assumes "\<forall>ev \<in> set evs. node_mem ev \<and> (\<forall>f. timed_out (rxs ev f))" "retries \<le> 10"
    and "0 < h \<longrightarrow> 10 * (h - 1) + retries \<le> int (length evs)"
  shows "loop_returns local dst evs h retries ttl ns"
  using assms
proof (induction evs arbitrary: h retries ttl ns)
  case (Nil h retries ttl ns)
  then have "h \<le> 0 \<or> retries \<le> 0" by auto
  then show ?case by (auto simp: loop_returns_def tr_loop_stop)
next
  case (Cons ev evs h retries ttl ns)
  show ?case
  proof (cases "h \<le> 0 \<or> retries \<le> 0")
    case True
    then show ?thesis by (auto simp: loop_returns_def tr_loop_stop)
  next
    case False
    then have pos: "0 < h" "0 < retries" by auto
    have evs: "\<forall>ev \<in> set evs. node_mem ev \<and> (\<forall>f. timed_out (rxs ev f))" and ev: "node_mem ev" "timed_out (rxs ev f)" for f
      using Cons.prems(1) by auto
    have again: "loop_returns local dst evs h (retries - 1) ttl ns"
      using Cons.prems pos by (intro Cons.IH evs) auto
    have onward: "loop_returns local dst evs (h - 1) 10 (ttl + 1) ns'" for ns'
      using Cons.prems pos by (intro Cons.IH evs) auto
    show ?thesis
      unfolding loop_returns_def tr_loop_pass [OF pos]
      using again [unfolded loop_returns_def] loop_returns_mono [OF onward pos(1)]
        loop_returns_more [OF onward pos(1)] tr_recv_not_waiting [OF ev(2)] ev(1) pos(1)
      by (auto split: rxout.split)
  qed
qed

text \<open>C25: \<open>do_traceroute\<close> ends. With the socket open, memory available and the receive timeout
  working (in every pass some \<open>recvfrom\<close> delivers nothing), ten times \<open>max_hops\<close> passes are enough: the
  result is handed out exactly when true is returned, it counts the nodes in its list, there are at
  most \<open>max_hops\<close> of them, and only on failure do nodes stay allocated.\<close>

theorem do_traceroute_returns:
  assumes "tr_open e = Inr (fd, local)" "\<forall>ev \<in> set evs. node_mem ev \<and> (\<forall>f. timed_out (rxs ev f))"
    and "10 * max_hops opts \<le> int (length evs)"
  shows "\<exists>ok r leaked. do_traceroute e True evs opts = Inr (Some (ok, r, leaked)) \<and>
           (case r of None \<Rightarrow> \<not> ok \<and> int (length leaked) \<le> max 0 (max_hops opts)
            | Some res \<Rightarrow> ok \<and> leaked = [] \<and> hops res = int (length (nodes res)) \<and> hops res \<le> max_hops opts)"
proof -
  let ?h = "max_hops opts"
  have "loop_returns local (opts_ip opts) evs ?h MAX_RETRIES 1 []"
    using assms(2,3) by (intro tr_loop_returns) auto
  then obtain h ns where loop: "tr_loop local (opts_ip opts) evs ?h MAX_RETRIES 1 [] = Inr (Some (h, ns))"
    and ns: "int (length ns) \<le> max 0 ?h"
    by (auto simp: loop_returns_def)
  have "h \<le> 0" if "?h \<le> 0" using loop that by (simp add: tr_loop_stop)
  with loop ns assms(1) show ?thesis by (cases "0 < h"; cases "0 < ?h") (auto simp: do_traceroute_def)
qed

section \<open>A complete route\<close>

text \<open>What a network does with a frame, by the time to live in its header.\<close>

definition to_dest :: "u32 \<Rightarrow> u8 list \<Rightarrow> bool" where
  \<comment> \<open>a frame with a valid header for this destination\<close>
  "to_dest dst f \<longleftrightarrow> f ! 0 = 0x45 \<and> ip_cksum (take sizeof_ip f) = 0 \<and> take 4 (drop 16 f) = bytes32 dst"

definition asks :: "u8 list \<Rightarrow> bool" where
  \<comment> \<open>it carries a valid echo request\<close>
  "asks f \<longleftrightarrow> f ! 9 = 1 \<and> f ! 20 = TR_ECHO \<and> ip_cksum (drop sizeof_ip f) = 0"

definition exceeded :: "u8 list \<Rightarrow> bool" where
  "exceeded p \<longleftrightarrow> 28 \<le> length p \<and> p ! 0 AND 15 = 5 \<and> p ! 20 = TR_TIME_EXCEEDED"

definition replies :: "u8 list \<Rightarrow> bool" where
  "replies p \<longleftrightarrow> 28 \<le> length p \<and> p ! 0 AND 15 = 5 \<and> p ! 20 = TR_ECHOREPLY \<and> p ! 21 = 0"

definition on_route :: "u32 \<Rightarrow> u32 option list \<Rightarrow> pass_ev \<Rightarrow> bool" where
  \<comment> \<open>the frame is sent, and a frame whose time to live is \<open>t\<close> ends at the \<open>t\<close>-th router of the route, which
     reports the exceeded time or keeps silent (\<open>None\<close>), or at the destination behind the last router, which
     answers an echo request\<close>
  "on_route dst route ev \<longleftrightarrow> send_ok ev \<and> node_mem ev \<and>
     (\<forall>f. to_dest dst f \<longrightarrow>
        (if unat (f ! 8) \<le> length route
         then 0 < unat (f ! 8) \<longrightarrow>
           (case route ! (unat (f ! 8) - 1) of
              None \<Rightarrow> \<exists>rs. rxs ev f = Rx_again # rs
            | Some r \<Rightarrow> r \<noteq> dst \<and> (\<exists>p rs. rxs ev f = Rx_pkt p r # rs \<and> exceeded p))
         else asks f \<longrightarrow> (\<exists>p rs. rxs ev f = Rx_pkt p dst # rs \<and> replies p)))"

lemma tr_sent_frame:
  "to_dest dst (tr_sent local dst ttl ev)" "asks (tr_sent local dst ttl ev)" "tr_sent local dst ttl ev ! 8 = ttl"
proof -
  define hdr where "hdr = fst (tr_make_ip_frame local dst ttl sizeof_icmp)"
  define ic where "ic = take sizeof_icmp (tr_make_icmp (fst (sentat ev)) (snd (sentat ev)))"
  have hdr: "length hdr = 20" "hdr ! 8 = ttl" "drop 16 hdr = bytes32 dst" "ip_cksum hdr = 0"
    "snd (tr_make_ip_frame local dst ttl sizeof_icmp) = 48" and ic: "ip_cksum ic = 0"
    using traceroute_frame_valid [where local = local and dst = dst and ttl = ttl and sec = "fst (sentat ev)" and nsec = "snd (sentat ev)"]
    by (auto simp: hdr_def ic_def split_beta)
  have len: "length (tr_make_icmp (fst (sentat ev)) (snd (sentat ev))) = 36"
    by (simp add: tr_make_icmp_def icmp_echo_def bytes16_def bytes32_def)
  have f: "tr_sent local dst ttl ev = hdr @ ic"
    using hdr(1,5) len by (simp add: tr_sent_def tr_frame_def hdr_def [symmetric] ic_def)
  have "hdr ! 0 = 0x45" "hdr ! 9 = 1"
    by (simp_all add: hdr_def tr_make_ip_frame_def Let_def ip_header_def bytes16_def)
  moreover have "ic ! 0 = TR_ECHO" by (simp add: ic_def tr_make_icmp_def icmp_echo_def)
  moreover have "length (bytes32 dst) = 4" by (simp add: bytes32_def)
  ultimately show "to_dest dst (tr_sent local dst ttl ev)" "asks (tr_sent local dst ttl ev)" "tr_sent local dst ttl ev ! 8 = ttl"
    using hdr ic by (simp_all add: f to_dest_def asks_def nth_append)
qed

lemma tr_frame_length: "length (tr_frame local dst ttl ev) = 56 + length (behind ev)"
  by (simp add: tr_frame_def tr_make_ip_frame_def Let_def ip_header_def tr_make_icmp_def icmp_echo_def
      bytes16_def bytes32_def)

lemma put_packet_nth:
  assumes "i < length pkt" "i < 48"
  shows "put_packet (take 48 pkt) (tr_frame local dst ttl ev) ! i = pkt ! i"
  using assms by (simp add: put_packet_def nth_append tr_frame_length)

lemma tr_recv_answer:
  assumes "28 \<le> length p" "p ! 0 AND 15 = 5" "p ! 20 = TR_TIME_EXCEEDED \<or> p ! 20 = TR_ECHOREPLY"
  shows "tr_recv dst (tr_frame local dst' ttl ev) (Rx_pkt p src # rs) = Hop src (p ! 21 = TR_ECHOREPLY \<and> src = dst)"
proof -
  have "p \<noteq> []" using assms(1) by auto
  with assms show ?thesis by (auto simp: Let_def put_packet_nth)
qed

lemma tr_recv_route:
  assumes "on_route dst route ev" "0 < unat ttl"
  shows "tr_recv dst (tr_frame local dst ttl ev) (rxs ev (tr_sent local dst ttl ev)) =
    (if unat ttl \<le> length route
     then case route ! (unat ttl - 1) of None \<Rightarrow> Next_hop | Some r \<Rightarrow> Hop r False
     else Hop dst True)"
proof -
  let ?f = "tr_sent local dst ttl ev"
  have "if unat ttl \<le> length route
      then (case route ! (unat ttl - 1) of
              None \<Rightarrow> \<exists>rs. rxs ev ?f = Rx_again # rs
            | Some r \<Rightarrow> r \<noteq> dst \<and> (\<exists>p rs. rxs ev ?f = Rx_pkt p r # rs \<and> exceeded p))
      else (\<exists>p rs. rxs ev ?f = Rx_pkt p dst # rs \<and> replies p)"
    using assms(2) tr_sent_frame(2) mp [OF spec [OF conjunct2 [OF conjunct2 [OF assms(1) [unfolded on_route_def]]], of ?f] tr_sent_frame(1)]
    unfolding tr_sent_frame(3) by (simp only: simp_thms)
  then show ?thesis
    by (auto simp: exceeded_def replies_def tr_recv_answer simp del: tr_recv.simps(5) split: if_splits option.splits)
qed

lemma tr_loop_path:
  assumes "\<forall>ev\<in>set evs. on_route dst route ev" "length route - k < length evs" "k \<le> length route" "length route < 255"
    and "int (length route - k) < h" "0 < retries"
  shows "tr_loop local dst evs h retries (word_of_nat (Suc k)) ns =
           Inr (Some (h - int (length route - k), ns @ List.map_filter (\<lambda>a. a) (drop k route) @ [dst]))"
  using assms(1-3,5,6)
proof (induction evs arbitrary: h retries k ns)
  case (Cons ev evs)
  have ttl: "unat (word_of_nat (Suc k) :: u8) = Suc k"
    using Cons.prems(3) assms(4) by (simp add: unsigned_of_nat take_bit_nat_eq_self del: of_nat_Suc)
  have ev: "on_route dst route ev" "send_ok ev" "node_mem ev" and evs: "\<forall>ev\<in>set evs. on_route dst route ev"
    using Cons.prems(1) by simp_all (simp_all add: on_route_def)
  have pos: "0 < h" using Cons.prems(4) by simp
  have nxt: "(word_of_nat (Suc k) :: u8) + 1 = word_of_nat (Suc (Suc k))" by simp
  note rx = tr_recv_route [OF ev(1), where ttl = "word_of_nat (Suc k)" and local = local, unfolded ttl]
  show ?case
  proof (cases "k = length route")
    case True
    then show ?thesis using rx ev pos Cons.prems(5) by (simp add: tr_loop_pass map_filter_simps del: of_nat_Suc)
  next
    case False
    then have k: "k < length route" using Cons.prems(3) by simp
    then have d: "drop k route = route ! k # drop (Suc k) route" by (simp add: Cons_nth_drop_Suc)
    have rec: "tr_loop local dst evs (h - 1) 10 (word_of_nat (Suc (Suc k))) ns' =
        Inr (Some (h - 1 - int (length route - Suc k), ns' @ List.map_filter (\<lambda>a. a) (drop (Suc k) route) @ [dst]))" for ns'
      using Cons.prems k by (intro Cons.IH evs) auto
    show ?thesis
      using rx ev pos Cons.prems(5) rec k
      by (cases "route ! k") (simp_all add: tr_loop_pass nxt d map_filter_simps del: of_nat_Suc)
  qed
qed simp

text \<open>C24: Traceroute finds the route. On a network that takes a frame with a valid header to the router its time
  to live says, or to the destination if that is beyond the last router, where a router reports the exceeded
  time or keeps silent and the destination answers a valid echo request, and with a route that is shorter than
  \<open>max_hops\<close> and than 255 hops, \<open>do_traceroute\<close> returns true with the routers that report, in the order of the
  route, followed by the destination.\<close>
theorem do_traceroute_path:
  assumes "tr_open e = Inr (fd, local)" "\<forall>ev\<in>set evs. on_route (opts_ip opts) route ev" "length route < length evs"
    and "int (length route) < max_hops opts" "length route < 255"
  shows "do_traceroute e True evs opts =
           Inr (Some (True, Some \<lparr>hops = int (length (List.map_filter (\<lambda>a. a) route)) + 1,
                                  nodes = List.map_filter (\<lambda>a. a) route @ [opts_ip opts]\<rparr>, []))"
  using assms(1,4) tr_loop_path [OF assms(2), of 0 "max_hops opts" 10 local "[]"] assms(3,5)
  by (simp add: do_traceroute_def)

text \<open>Losing the connection counts as success. When ten sends in a row fail at the start, the
  loop stops as its comment says, but the hop count is still positive, so \<open>do_traceroute\<close> returns true
  with an empty route.\<close>

theorem do_traceroute_lost_connection:
  assumes "tr_open e = Inr (fd, local)" "length evs = 10" "\<forall>ev \<in> set evs. \<not> send_ok ev" "0 < max_hops opts"
  shows "do_traceroute e True evs opts = Inr (Some (True, Some \<lparr>hops = 0, nodes = []\<rparr>, []))"
proof -
  have "tr_loop local dst evs h (int (length evs)) ttl ns = Inr (Some (h, ns))"
    if "\<forall>ev \<in> set evs. \<not> send_ok ev" "0 < h" for dst evs h ttl ns
    using that by (induction evs) (auto simp: tr_loop_stop tr_loop_pass)
  from this [OF assms(3,4)] assms(1,2,4) show ?thesis by (simp add: do_traceroute_def)
qed

text \<open>The filter on replies joins its tests with a conjunction, so an echo reply to somebody
  else's ping is taken for the answer: whatever its identifier, its sender becomes a hop.\<close>

theorem tr_recv_accepts_foreign:
  assumes "28 \<le> length p" "p ! 0 AND 15 = 5" "p ! 20 = TR_ECHOREPLY" "be16 (p ! 24) (p ! 25) \<noteq> TR_IDENT"
  shows "tr_recv dst (tr_frame local dst ttl ev) (Rx_pkt p src # rs) = Hop src (p ! 21 = TR_ECHOREPLY \<and> src = dst)"
  using assms(1-3) by (intro tr_recv_answer) auto

section \<open>Witnesses\<close>

definition sample_pkt :: "u8 \<Rightarrow> u8 list" where
  "sample_pkt ty = [0x45] @ replicate 19 0 @ [ty] @ replicate 11 0"

definition sample_pass :: "(u8 list \<Rightarrow> rx list) \<Rightarrow> pass_ev" where
  "sample_pass rs = \<lparr>send_ok = True, sentat = (1, 2), behind = replicate 8 0, rxs = rs, node_mem = True\<rparr>"

definition sample_net :: "u8 list \<Rightarrow> rx list" where
  \<comment> \<open>a router that reports, one that keeps silent, and the destination\<close>
  "sample_net f = (if f ! 8 = 1 then [Rx_pkt (sample_pkt 11) 44] else if f ! 8 = 2 then [Rx_again]
                   else [Rx_pkt (sample_pkt 0) 77])"

definition sample_open :: open_res where
  "sample_open = \<lparr>sock_fd = 5, rcvtimeo_ok = True, sndtimeo_ok = True, hdrincl_ok = True, sockname = Some 99\<rparr>"

definition sample_opts :: traceroute_opts where
  "sample_opts = \<lparr>opts_ip = 77, max_hops = 3\<rparr>"

lemmas sample_defs = sample_pkt_def sample_pass_def sample_open_def sample_opts_def

theorem do_traceroute_returns_witness:
  "\<exists>ok r leaked. do_traceroute sample_open True (replicate 30 (sample_pass (\<lambda>_. [Rx_again]))) sample_opts = Inr (Some (ok, r, leaked)) \<and>
     (case r of None \<Rightarrow> \<not> ok \<and> int (length leaked) \<le> max 0 (max_hops sample_opts)
      | Some res \<Rightarrow> ok \<and> leaked = [] \<and> hops res = int (length (nodes res)) \<and> hops res \<le> max_hops sample_opts)"
  by (rule do_traceroute_returns [of _ 5 99]) (simp_all add: sample_defs tr_open_def timed_out_def)

lemma sample_on_route: "on_route 77 [Some 44, None] (sample_pass sample_net)"
proof -
  have "exceeded (sample_pkt 11)" "replies (sample_pkt 0)"
    by (simp_all add: exceeded_def replies_def sample_pkt_def nth_append nth_Cons)
  moreover have "t = 1 \<longleftrightarrow> unat t = 1" "t = 2 \<longleftrightarrow> unat t = 2" for t :: u8
    using word_eq_iff_unsigned [of t 1, where ?'a = nat] word_eq_iff_unsigned [of t 2, where ?'a = nat] by simp_all
  ultimately show ?thesis
    by (auto simp: on_route_def sample_pass_def sample_net_def nth_Cons split: nat.splits)
qed

theorem do_traceroute_path_witness:
  "do_traceroute sample_open True (replicate 3 (sample_pass sample_net)) sample_opts =
     Inr (Some (True, Some \<lparr>hops = 2, nodes = [44, 77]\<rparr>, []))"
  using do_traceroute_path [of sample_open 5 99 "replicate 3 (sample_pass sample_net)" sample_opts "[Some 44, None]"] sample_on_route
  by (simp add: sample_open_def sample_opts_def tr_open_def map_filter_simps)

theorem do_traceroute_lost_connection_witness:
  "do_traceroute sample_open True (replicate 10 (sample_pass (\<lambda>_. [])\<lparr>send_ok := False\<rparr>)) sample_opts =
     Inr (Some (True, Some \<lparr>hops = 0, nodes = []\<rparr>, []))"
  by (rule do_traceroute_lost_connection [of _ 5 99]) (simp_all add: sample_defs tr_open_def)

theorem tr_recv_accepts_foreign_witness:
  "be16 (sample_pkt 0 ! 24) (sample_pkt 0 ! 25) \<noteq> TR_IDENT \<and>
   tr_recv 77 (tr_frame 99 77 1 (sample_pass (\<lambda>_. []))) (Rx_pkt (sample_pkt 0) 12 # []) =
     Hop 12 (sample_pkt 0 ! 21 = TR_ECHOREPLY \<and> 12 = (77 :: u32))"
proof
  show foreign: "be16 (sample_pkt 0 ! 24) (sample_pkt 0 ! 25) \<noteq> TR_IDENT"
    by (simp add: sample_pkt_def nth_append nth_Cons be16_def)
  show "tr_recv 77 (tr_frame 99 77 1 (sample_pass (\<lambda>_. []))) (Rx_pkt (sample_pkt 0) 12 # []) =
     Hop 12 (sample_pkt 0 ! 21 = TR_ECHOREPLY \<and> 12 = (77 :: u32))"
    using foreign by (intro tr_recv_accepts_foreign) (simp_all add: sample_pkt_def nth_append)
qed

end
