(* ===== verification/NetConf.thy ===== *)
theory NetConf
  imports Interfaces
begin

unbundle bit_operations_syntax

text \<open>
  The network configuration of \<^verbatim>\<open>miscUtils/ifconfi.c\<close>. An interface is its flag, address and mask, together
  with the routing table; each call of the network stack either succeeds and changes that state or fails
  and leaves it, as the record \<open>nc_env\<close> says. Addresses are numbers in network order, which on the
  big-endian targets is also the host's. The parser \<open>inet_aton\<close> of the network library is a parameter, the
  functions on address classes are those of the library.
\<close>

section \<open>Address classes\<close>

definition IN_CLASSA :: "u32 \<Rightarrow> bool" where "IN_CLASSA i \<longleftrightarrow> i AND 0x80000000 = 0"
definition IN_CLASSB :: "u32 \<Rightarrow> bool" where "IN_CLASSB i \<longleftrightarrow> i AND 0xc0000000 = 0x80000000"

definition inet_netof :: "u32 \<Rightarrow> u32" where
  "inet_netof i = (if IN_CLASSA i then drop_bit 24 (i AND 0xff000000)
                   else if IN_CLASSB i then drop_bit 16 (i AND 0xffff0000)
                   else drop_bit 8 (i AND 0xffffff00))"

definition inet_lnaof :: "u32 \<Rightarrow> u32" where
  "inet_lnaof i = (if IN_CLASSA i then i AND 0x00ffffff else if IN_CLASSB i then i AND 0x0000ffff else i AND 0x000000ff)"

definition inet_makeaddr :: "u32 \<Rightarrow> u32 \<Rightarrow> u32" where
  "inet_makeaddr net host =
     (if net < 128 then push_bit 24 net OR (host AND 0x00ffffff)
      else if net < 65536 then push_bit 16 net OR (host AND 0x0000ffff)
      else if net < 16777216 then push_bit 8 net OR (host AND 0x000000ff)
      else net OR host)"

section \<open>Interfaces\<close>

record netstate =
  if_up :: bool
  if_addr :: u32
  if_mask :: u32
  routes :: "(u32 \<times> u32) list"     \<comment> \<open>destination and mask\<close>

record nc_env =
  set_flags_ok :: bool
  get_addr_ok :: bool
  get_mask_ok :: bool
  set_addr_ok :: bool
  set_mask_ok :: bool
  rtrequest_ok :: bool
  down_ok :: bool                    \<comment> \<open>bringing the interface down after an error\<close>

definition ifconf_down :: "nc_env \<Rightarrow> netstate \<Rightarrow> int \<times> netstate" where
  \<comment> \<open>the part for a null address, the flags being cleared already\<close>
  "ifconf_down e n =
     (if \<not> get_addr_ok e \<or> \<not> get_mask_ok e then (-1, n)
      else if \<not> rtrequest_ok e then (-1, n)
      else (0, n\<lparr>routes := removeAll (if_addr n AND if_mask n, if_mask n) (routes n)\<rparr>))"

definition ifconf_cleanup :: "nc_env \<Rightarrow> netstate \<Rightarrow> int \<times> netstate" where
  "ifconf_cleanup e n = (-1, if down_ok e then n\<lparr>if_up := False\<rparr> else n)"

definition ifconf :: "(string \<Rightarrow> u32 option) \<Rightarrow> nc_env \<Rightarrow> string option \<Rightarrow> string option \<Rightarrow> string option \<Rightarrow> netstate \<Rightarrow> int \<times> netstate" where
  "ifconf inet_aton e nam addr msk_s n =
     (if nam = None then (-1, n)
      else if \<not> set_flags_ok e then (-1, n)
      else
        (let n = n\<lparr>if_up := (addr \<noteq> None)\<rparr> in
         case addr of None \<Rightarrow> ifconf_down e n
         | Some a \<Rightarrow>
             (case inet_aton a of None \<Rightarrow> ifconf_cleanup e n
              | Some ip \<Rightarrow>
                  if \<not> set_addr_ok e then ifconf_cleanup e n
                  else
                    (let n = n\<lparr>if_addr := ip\<rparr> in
                     case msk_s of None \<Rightarrow> (0, n)
                     | Some k \<Rightarrow>
                         (case inet_aton k of None \<Rightarrow> ifconf_cleanup e n
                          | Some mk \<Rightarrow>
                              if \<not> set_mask_ok e then ifconf_cleanup e n else (0, n\<lparr>if_mask := mk\<rparr>))))))"

record if_cfg =                      \<comment> \<open>\<open>struct rtems_bsdnet_ifconfig\<close>; all other members are zero\<close>
  cfg_name :: string
  cfg_hardware_address :: "u8 list option"

datatype attach_ev = Sem_obtain | Attach if_cfg | Sem_release

definition ifattach :: "string option \<Rightarrow> (if_cfg \<Rightarrow> int) \<Rightarrow> u8 list option \<Rightarrow> int \<times> attach_ev list" where
  \<comment> \<open>\<open>attach_fn\<close> is what the driver's attach routine returns for a configuration\<close>
  "ifattach name attach_fn enet_addr =
     (case name of None \<Rightarrow> (-1, [])
      | Some nm \<Rightarrow>
          (let cfg = \<lparr>cfg_name = nm, cfg_hardware_address = enet_addr\<rparr> in
           (attach_fn cfg, [Sem_obtain, Attach cfg, Sem_release])))"

section \<open>Routes\<close>

abbreviation RTF_UP :: u32 where "RTF_UP \<equiv> 0x1"
abbreviation RTF_GATEWAY :: u32 where "RTF_GATEWAY \<equiv> 0x2"
abbreviation RTF_HOST :: u32 where "RTF_HOST \<equiv> 0x4"
abbreviation RTF_STATIC :: u32 where "RTF_STATIC \<equiv> 0x800"

record rtreq =
  rt_add :: bool
  rt_dst :: u32
  rt_gwy :: u32
  rt_msk :: u32
  rt_flags :: u32

definition aton_opt :: "(string \<Rightarrow> u32 option) \<Rightarrow> string option \<Rightarrow> u32 option" where
  \<comment> \<open>an optional address, \<open>INADDR_ANY\<close> by default; \<open>None\<close> if it is malformed\<close>
  "aton_opt inet_aton s = (case s of None \<Rightarrow> Some 0 | Some t \<Rightarrow> inet_aton t)"

definition rtconf :: "(string \<Rightarrow> u32 option) \<Rightarrow> (rtreq \<Rightarrow> bool) \<Rightarrow> bool \<Rightarrow> string option \<Rightarrow> string option \<Rightarrow> string option \<Rightarrow> int \<times> rtreq option" where
  \<comment> \<open>\<open>rtrequest\<close> tells whether \<open>rtems_bsdnet_rtrequest\<close> succeeds; the request made is returned\<close>
  "rtconf inet_aton rtrequest add dst_s gwy_s msk_s =
     (case dst_s of None \<Rightarrow> (-1, None)
      | Some d \<Rightarrow>
          (case (inet_aton d, aton_opt inet_aton gwy_s, aton_opt inet_aton msk_s) of
             (Some dst, Some gwy, Some msk) \<Rightarrow>
               (let flags = (if gwy_s \<noteq> None then RTF_GATEWAY else 0);
                    (flags, msk) =
                      (if msk_s \<noteq> None then (if dst AND NOT msk \<noteq> 0 then flags OR RTF_HOST else flags, msk)
                       else
                         (let a = inet_makeaddr (inet_netof dst) 0; b = inet_makeaddr (inet_netof dst) (-1) in
                          (if inet_lnaof dst \<noteq> 0 then flags OR RTF_HOST else flags, NOT (a XOR b))));
                    flags = (if add then flags OR RTF_UP else flags) OR RTF_STATIC;
                    req = \<lparr>rt_add = add, rt_dst = dst, rt_gwy = gwy, rt_msk = msk, rt_flags = flags\<rparr> in
                (if rtrequest req then 0 else -1, Some req))
           | _ \<Rightarrow> (-1, None)))"

section \<open>Properties\<close>

definition class_mask :: "u32 \<Rightarrow> u32" where
  "class_mask i = (if IN_CLASSA i then 0xff000000 else if IN_CLASSB i then 0xffff0000 else 0xffffff00)"

lemma uint_drop: "uint (drop_bit k (w :: u32)) = uint w div 2 ^ k"
proof -
  have "take_bit 32 (uint w) = uint w" using uint_u32_bounds [of w] by (intro take_bit_int_eq_self) auto
  then have "uint (drop_bit k w) = drop_bit k (uint w)" by (simp only: unsigned_drop_bit_eq) simp
  then show ?thesis by (simp add: drop_bit_eq_div)
qed

lemma class_masks:
  "(0x80000000 :: u32) = NOT (mask 31)" "(0xc0000000 :: u32) = NOT (mask 30)"
  "(0xff000000 :: u32) = NOT (mask 24)" "(0xffff0000 :: u32) = NOT (mask 16)" "(0xffffff00 :: u32) = NOT (mask 8)"
  "(0x00ffffff :: u32) = mask 24" "(0x0000ffff :: u32) = mask 16" "(0x000000ff :: u32) = mask 8"
  by (simp_all add: mask_eq_exp_minus_1)

lemma class_a: "IN_CLASSA i \<longleftrightarrow> uint i < 2 ^ 31"
proof -
  have "IN_CLASSA i \<longleftrightarrow> uint (i AND NOT (mask 31)) = 0" by (simp only: IN_CLASSA_def class_masks(1) uint_0_iff)
  then show ?thesis using uint_u32_bounds [of i] unfolding align_down by (auto simp: mod_pos_pos_trivial)
qed

lemma div_is_iff:
  assumes q: "0 < (q :: int)"
  shows "x div q = c \<longleftrightarrow> c * q \<le> x \<and> x < (c + 1) * q"
proof
  assume "x div q = c"
  then show "c * q \<le> x \<and> x < (c + 1) * q"
    using div_mult_mod_eq [of x q] pos_mod_bound [OF q, of x] pos_mod_sign [OF q, of x] by (simp add: algebra_simps)
next
  assume "c * q \<le> x \<and> x < (c + 1) * q"
  then show "x div q = c" by (intro int_div_pos_eq [of x q c "x - c * q"]) (auto simp: algebra_simps)
qed

lemma class_b: "IN_CLASSB i \<longleftrightarrow> 2 ^ 31 \<le> uint i \<and> uint i < 3 * 2 ^ 30"
proof -
  have "IN_CLASSB i \<longleftrightarrow> uint (i AND NOT (mask 30)) = uint (0x80000000 :: u32)"
    by (simp only: IN_CLASSB_def class_masks(2) word_uint_eq_iff)
  also have "\<dots> \<longleftrightarrow> uint i div 2 ^ 30 = 2"
    unfolding align_down by (simp add: minus_mod_eq_mult_div)
  also have "\<dots> \<longleftrightarrow> 2 ^ 31 \<le> uint i \<and> uint i < 3 * 2 ^ 30"
    by (simp add: div_is_iff)
  finally show ?thesis .
qed

lemma drop_high: "drop_bit k ((i :: u32) AND NOT (mask k)) = drop_bit k i"
  by (rule bit_word_eqI) (auto simp: bit_simps dest: bit_imp_le_length)

lemma net_a: "IN_CLASSA i \<Longrightarrow> inet_netof i = drop_bit 24 i \<and> inet_netof i < 128"
  using zdiv_mono1 [of "uint i" "2 ^ 31 - 1" "2 ^ 24"]
  unfolding inet_netof_def class_masks drop_high
  by (simp add: class_a word_less_def uint_drop)

lemma net_b:
  "\<not> IN_CLASSA i \<Longrightarrow> IN_CLASSB i \<Longrightarrow> inet_netof i = drop_bit 16 i \<and> \<not> inet_netof i < 128 \<and> inet_netof i < 65536"
  using zdiv_mono1 [of "uint i" "2 ^ 32 - 1" "2 ^ 16"] zdiv_mono1 [of "2 ^ 31" "uint i" "2 ^ 16"]
  unfolding inet_netof_def class_masks drop_high
  by (simp add: class_a class_b word_less_def uint_drop)

lemma net_c:
  "\<not> IN_CLASSA i \<Longrightarrow> \<not> IN_CLASSB i \<Longrightarrow>
   inet_netof i = drop_bit 8 i \<and> \<not> inet_netof i < 128 \<and> \<not> inet_netof i < 65536 \<and> inet_netof i < 16777216"
  using zdiv_mono1 [of "uint i" "2 ^ 32 - 1" "2 ^ 8"] zdiv_mono1 [of "2 ^ 31" "uint i" "2 ^ 8"] uint_u32_bounds [of i]
  unfolding inet_netof_def class_masks drop_high
  by (simp add: class_a class_b word_less_def uint_drop)

lemma host_bits: "NOT (push_bit k x XOR (push_bit k x OR mask k)) = NOT (mask k :: u32)"
  by (rule bit_word_eqI) (auto simp: bit_simps)

lemma default_mask: "NOT (inet_makeaddr (inet_netof i) 0 XOR inet_makeaddr (inet_netof i) (-1)) = class_mask i"
proof -
  consider (A) "IN_CLASSA i" | (B) "\<not> IN_CLASSA i" "IN_CLASSB i" | (C) "\<not> IN_CLASSA i" "\<not> IN_CLASSB i" by blast
  then show ?thesis
  proof cases
    case A
    then show ?thesis using net_a [OF A] by (simp add: inet_makeaddr_def class_mask_def) (auto simp: class_masks host_bits)
  next
    case B
    then show ?thesis using net_b [OF B] by (simp add: inet_makeaddr_def class_mask_def) (auto simp: class_masks host_bits)
  next
    case C
    then show ?thesis using net_c [OF C] by (simp add: inet_makeaddr_def class_mask_def) (auto simp: class_masks host_bits)
  qed
qed

lemma lnaof_mask: "inet_lnaof i = i AND NOT (class_mask i)"
  unfolding inet_lnaof_def class_mask_def class_masks by simp

text \<open>C35: Leaving the mask out of \<open>rtconf\<close> is the same as giving the mask of the address class of the
  destination: the same request is made, with the same mask and the same flags, in particular the route is
  a host route under the same condition.\<close>
theorem rtconf_default_mask:
  assumes "inet_aton d = Some dst" "inet_aton mk = Some (class_mask dst)"
  shows "rtconf inet_aton rtrequest add (Some d) gwy_s None = rtconf inet_aton rtrequest add (Some d) gwy_s (Some mk)"
proof -
  have "inet_makeaddr (inet_netof dst) 0 XOR inet_makeaddr (inet_netof dst) (-1) = NOT (class_mask dst)"
    by (metis default_mask bit.double_compl)
  then show ?thesis using assms by (simp add: rtconf_def aton_opt_def lnaof_mask split: option.splits)
qed

definition demo_aton :: "string \<Rightarrow> u32 option" where
  "demo_aton s = (if s = ''10.1.2.3'' then Some 0x0a010203 else if s = ''255.0.0.0'' then Some 0xff000000 else None)"

theorem rtconf_default_mask_witness:
  "demo_aton ''10.1.2.3'' = Some 0x0a010203 \<and> demo_aton ''255.0.0.0'' = Some (class_mask 0x0a010203) \<and>
   rtconf demo_aton (\<lambda>_. True) True (Some ''10.1.2.3'') None None =
     rtconf demo_aton (\<lambda>_. True) True (Some ''10.1.2.3'') None (Some ''255.0.0.0'')"
proof -
  have *: "demo_aton ''10.1.2.3'' = Some 0x0a010203" "demo_aton ''255.0.0.0'' = Some (class_mask 0x0a010203)"
    by (simp_all add: demo_aton_def class_mask_def IN_CLASSA_def)
  then show ?thesis using rtconf_default_mask [OF *, of "\<lambda>_. True" True None] by blast
qed

text \<open>Bringing an interface up: \<open>ifconf\<close> returns 0 only with the interface up and carrying the given
  address and, if one was given, mask; once the flags could be set every failure returns -1 and takes the
  interface down again unless that call fails as well. The routing table is left alone.\<close>
theorem ifconf_up:
  assumes "set_flags_ok e" "ifconf inet_aton e (Some nm) (Some a) mk n = (r, n')"
  shows "r = (if if_up n' \<and> inet_aton a = Some (if_addr n') \<and> set_addr_ok e \<and>
                 (\<forall>k. mk = Some k \<longrightarrow> set_mask_ok e \<and> inet_aton k = Some (if_mask n')) then 0 else -1) \<and>
         (r = 0 \<or> if_up n' = (\<not> down_ok e)) \<and> routes n' = routes n"
  using assms by (auto simp: ifconf_def ifconf_cleanup_def Let_def split: option.splits if_splits)

definition demo_env :: nc_env where
  "demo_env = \<lparr>set_flags_ok = True, get_addr_ok = True, get_mask_ok = True, set_addr_ok = True, set_mask_ok = False,
               rtrequest_ok = True, down_ok = True\<rparr>"

definition demo_net :: netstate where
  "demo_net = \<lparr>if_up = False, if_addr = 0, if_mask = 0, routes = []\<rparr>"

theorem ifconf_up_witness:
  "set_flags_ok demo_env \<and>
   ifconf demo_aton demo_env (Some ''en0'') (Some ''10.1.2.3'') (Some ''255.0.0.0'') demo_net =
     (-1, demo_net\<lparr>if_addr := 0x0a010203\<rparr>) \<and> \<not> if_up (demo_net\<lparr>if_addr := 0x0a010203\<rparr>)"
proof -
  have *: "set_flags_ok demo_env"
    "ifconf demo_aton demo_env (Some ''en0'') (Some ''10.1.2.3'') (Some ''255.0.0.0'') demo_net = (-1, demo_net\<lparr>if_addr := 0x0a010203\<rparr>)"
    by (simp_all add: demo_env_def demo_net_def ifconf_def ifconf_cleanup_def demo_aton_def)
  then show ?thesis using ifconf_up [OF *] by (simp add: demo_env_def)
qed

lemma ifconf_down_deletes:
  assumes "ifconf inet_aton e (Some nm) None mk n = (0, n')"
  shows "\<not> if_up n' \<and> (if_addr n AND if_mask n, if_mask n) \<notin> set (routes n')"
  using assms by (auto simp: ifconf_def ifconf_down_def Let_def split: if_splits)

fun sem_step :: "attach_ev \<Rightarrow> bool \<Rightarrow> bool option" where
  "sem_step Sem_obtain h = (if h then None else Some True)"
| "sem_step (Attach c) h = (if h then Some True else None)"
| "sem_step Sem_release h = (if h then Some False else None)"

interpretation net_sem: discipline sem_step False "\<lambda>e. of_bool (e = Sem_obtain)" "\<lambda>e. of_bool (e = Sem_release)" of_bool
proof
  show "of_bool s = (0 :: nat) \<longleftrightarrow> s = False" for s by simp
  show "sem_step e s = Some s' \<Longrightarrow>
      of_bool s' + of_bool (e = Sem_release) = (of_bool s + of_bool (e = Sem_obtain) :: nat)" for e s s'
    by (cases e) (auto split: if_splits)
qed

text \<open>The driver's attach routine runs under the network semaphore, which is free afterwards.\<close>
lemma ifattach_locked: "accept sem_step (snd (ifattach name f hw)) False = Some False"
  by (auto simp: ifattach_def Let_def split: option.splits)

end
