(* ===== verification/SockStats.thy ===== *)
theory SockStats
  imports Interfaces Complex_Main
begin

text \<open>
  The socket statistics of \<^verbatim>\<open>miscUtils/sockstats.c\<close>, in the variant for RTEMS. Kernel structures are records:
  a socket buffer holds its packets, each a chain of mbufs, as a list of lists. The constants and macros of
  the network stack for the cluster pool are the record \<open>mbpool\<close>. The report is the trace of semaphore
  operations, accesses to kernel data and lines of output; floating point numbers are rationals. A pass of
  the report reads one descriptor inside one critical section, so what it sees is given for each descriptor.
  The routine \<open>init_sockhdlrs\<close> reads a descriptor without a semaphore; that read is in the trace too.
\<close>

section \<open>Socket buffers\<close>

record mbuf_t =
  m_ext :: bool
  m_data :: u32

record mbpool =
  mbutl :: u32
  m_clusters :: u32
  mclbytes :: u32
  mtocl :: "u32 \<Rightarrow> nat"
  mclrefcnt :: "nat \<Rightarrow> nat"

record sbcounts =
  sb_cc :: u32
  sb_hiwat :: u32
  sb_mbcnt :: u32
  sb_mbmax :: u32
  sb_lowat :: u32
  sb_flags :: u16
  sb_timeo :: int

record sockbuf = sbcounts +
  sb_mb :: "mbuf_t list list"

record sbstats = sbcounts +
  nmbufs :: u32
  nmbcl1s :: u32
  nmbclms :: u32
  cl_frac :: rat

record socket_t =
  so_type :: int
  so_options :: int
  pr_protocol :: int
  so_qlen :: int
  so_incqlen :: int
  so_qlimit :: int
  so_timeo :: int
  so_rcv :: sockbuf
  so_snd :: sockbuf

record sostats =
  st_type :: int
  st_options :: int
  st_protocol :: int
  st_qlen :: int
  st_incqlen :: int
  st_qlimit :: int
  st_timeo :: int
  st_rcv :: sbstats
  st_snd :: sbstats

definition holdsclust :: "mbpool \<Rightarrow> mbuf_t \<Rightarrow> bool" where
  "holdsclust p mb =
     (let b = mbutl p; e = mbutl p + mclbytes p * (m_clusters p - 1) in
      m_ext mb \<and> b \<le> m_data mb \<and> e > m_data mb)"

type_synonym counters = "u32 \<times> rat \<times> u32 \<times> u32"

fun count_mb :: "mbpool \<Rightarrow> mbuf_t \<Rightarrow> counters \<Rightarrow> counters" where
  "count_mb p mb (k, r, c1, cm) =
     (let k = k + 1 in
      if holdsclust p mb
      then (let i = mclrefcnt p (mtocl p (m_data mb)) in
            if i = 1 then (k, r, c1 + 1, cm) else (k, r + 1 / of_nat i, c1, cm + 1))
      else (k, r, c1, cm))"

primrec count_chain :: "mbpool \<Rightarrow> mbuf_t list \<Rightarrow> counters \<Rightarrow> counters" where
  "count_chain p [] c = c"
| "count_chain p (mb # mbs) c = count_chain p mbs (count_mb p mb c)"

primrec count_pkts :: "mbpool \<Rightarrow> mbuf_t list list \<Rightarrow> counters \<Rightarrow> counters" where
  "count_pkts p [] c = c"
| "count_pkts p (mbp # mbps) c = count_pkts p mbps (count_chain p mbp c)"

definition getsbstats :: "mbpool \<Rightarrow> sockbuf \<Rightarrow> sbstats" where
  "getsbstats p sob =
     (case count_pkts p (sb_mb sob) (0, 0, 0, 0) of (k, r, c1, cm) \<Rightarrow>
        \<lparr>sb_cc = sb_cc sob, sb_hiwat = sb_hiwat sob, sb_mbcnt = sb_mbcnt sob, sb_mbmax = sb_mbmax sob,
         sb_lowat = sb_lowat sob, sb_flags = sb_flags sob, sb_timeo = sb_timeo sob,
         nmbufs = k, nmbcl1s = c1, nmbclms = cm, cl_frac = r\<rparr>)"

definition getsostats :: "mbpool \<Rightarrow> socket_t \<Rightarrow> sostats" where
  "getsostats p so =
     \<lparr>st_type = so_type so, st_options = so_options so, st_protocol = pr_protocol so, st_qlen = so_qlen so,
      st_incqlen = so_incqlen so, st_qlimit = so_qlimit so, st_timeo = so_timeo so,
      st_rcv = getsbstats p (so_rcv so), st_snd = getsbstats p (so_snd so)\<rparr>"

section \<open>Output\<close>

datatype sbval = Num u32 | Frac rat | Flags u16 | Signed int | Name string

definition prsbstats :: "sbstats \<Rightarrow> int \<Rightarrow> (string \<times> sbval) list" where
  \<comment> \<open>label and value of every line printed\<close>
  "prsbstats sb level =
     [(''Number of mbufs in chain'', Num (nmbufs sb)), (''Chars of mbufs used'', Num (sb_mbcnt sb)),
      (''Number of cluster refs'', Num (nmbcl1s sb + nmbclms sb)), (''single references'', Num (nmbcl1s sb)),
      (''multiple references'', Num (nmbclms sb)),
      (''total use of clusters'', Frac (of_nat (unat (nmbcl1s sb)) + cl_frac sb))] @
     (if level > 1
      then [(''Chars in buffer'', Num (sb_cc sb)), (''Max char count (hiwat)'', Num (sb_hiwat sb)),
            (''Max chars of mbufs to use'', Num (sb_mbmax sb)), (''Low-water mark'', Num (sb_lowat sb)),
            (''Flags'', Flags (sb_flags sb)), (''Timeout for read/write'', Signed (sb_timeo sb))]
      else [])"

definition prstrnum :: "string option \<Rightarrow> int \<Rightarrow> sbval" where
  "prstrnum str num = (case str of Some s \<Rightarrow> Name s | None \<Rightarrow> Signed num)"

definition type_str :: "int \<Rightarrow> string option" where
  "type_str t = (if t = 1 then Some ''SOCK_STREAM'' else if t = 2 then Some ''SOCK_DGRAM''
                 else if t = 3 then Some ''SOCK_RAW'' else None)"

definition protocol_str :: "int \<Rightarrow> string option" where
  "protocol_str t = (if t = 1 then Some ''ICMP'' else if t = 6 then Some ''TCP'' else if t = 17 then Some ''UDP'' else None)"

definition prsostats :: "sostats \<Rightarrow> int \<Rightarrow> (string \<times> sbval) list" where
  "prsostats s level =
     [(''Type'', prstrnum (type_str (st_type s)) (st_type s)), (''Options'', Signed (st_options s)),
      (''Protocol'', prstrnum (protocol_str (st_protocol s)) (st_protocol s))] @
     (if level > 1
      then [(''Unaccepted connections'', Signed (st_qlen s)), (''Unaccepted incomplete connections'', Signed (st_incqlen s)),
            (''Max. number of queued connection'', Signed (st_qlimit s)), (''Timeout'', Signed (st_timeo s))]
      else []) @
     prsbstats (st_rcv s) level @ prsbstats (st_snd s) level"

section \<open>The report\<close>

datatype ss_ev =
    Net_obtain | Io_obtain | Io_release | Net_release     \<comment> \<open>network and descriptor semaphores\<close>
  | Access nat                                            \<comment> \<open>kernel data of a descriptor are read\<close>
  | Sock_create nat | Sock_close nat                      \<comment> \<open>with the descriptor\<close>
  | Not_inet nat | Endpoints nat "u32 \<times> u16" "(u32 \<times> u16) option"
  | No_socket_data nat | Stats nat "(string \<times> sbval) list" | Newline | Message string

abbreviation LOCK :: "ss_ev list" where "LOCK \<equiv> [Net_obtain, Io_obtain]"
abbreviation UNLOCK :: "ss_ev list" where "UNLOCK \<equiv> [Io_release, Net_release]"

record iop_t =
  iop_open :: bool                                \<comment> \<open>flag \<open>LIBIO_FLAGS_OPEN\<close>\<close>
  iop_handlers :: nat
  iop_data1 :: "socket_t option"
  sock_name :: "(int \<times> u32 \<times> u16) option"     \<comment> \<open>what \<open>getsockname\<close> stores: family, address, port\<close>
  sock_peer :: "(u32 \<times> u16) option"             \<comment> \<open>what \<open>getpeername\<close> stores\<close>

abbreviation AF_INET :: int where "AF_INET \<equiv> 2"

definition init_sockhdlrs :: "(nat \<times> nat) option \<Rightarrow> nat \<Rightarrow> nat \<times> ss_ev list" where
  \<comment> \<open>\<open>dummy\<close> is the descriptor of a new socket and its handler table, if one can be created; \<open>0\<close> is the null
     pointer. The handler table is read without a semaphore\<close>
  "init_sockhdlrs dummy sockhandlers =
     (if sockhandlers = 0
      then (case dummy of None \<Rightarrow> (0, [Message ''notsock: unable to initialize dummy socket!''])
            | Some (dummyfd, h) \<Rightarrow> (h, [Sock_create dummyfd, Access dummyfd, Sock_close dummyfd]))
      else (sockhandlers, []))"

definition notsock :: "nat \<Rightarrow> iop_t \<Rightarrow> bool" where
  "notsock sockhandlers iop \<longleftrightarrow> \<not> iop_open iop \<or> iop_handlers iop \<noteq> sockhandlers"

definition show_fd :: "mbpool \<Rightarrow> nat \<Rightarrow> int \<Rightarrow> iop_t \<Rightarrow> nat \<Rightarrow> nat \<times> ss_ev list" where
  \<comment> \<open>one pass of the loop: the increment of the count and the trace\<close>
  "show_fd p hdlrs level iop i =
     (if notsock hdlrs iop \<or> sock_name iop = None then (0, LOCK @ [Access i] @ UNLOCK)
      else
        (case the (sock_name iop) of (fam, addr, port) \<Rightarrow>
           if fam \<noteq> AF_INET then (0, LOCK @ [Access i] @ UNLOCK @ [Not_inet i, Newline])
           else
             (let so = (if level \<noteq> 0 then iop_data1 iop else None);
                  sostats = map_option (getsostats p) so;
                  more = (if level = 0 then []
                          else (case sostats of None \<Rightarrow> [No_socket_data i] | Some s \<Rightarrow> [Stats i (prsostats s level)])) in
              (1, LOCK @ [Access i] @ UNLOCK @ [Endpoints i (addr, port) (sock_peer iop)] @ more @ [Newline]))))"

fun show_loop :: "mbpool \<Rightarrow> nat \<Rightarrow> int \<Rightarrow> (nat \<Rightarrow> iop_t) \<Rightarrow> nat list \<Rightarrow> nat \<times> ss_ev list" where
  "show_loop p hdlrs level fds [] = (0, [])"
| "show_loop p hdlrs level fds (i # is) =
     (case show_fd p hdlrs level (fds i) i of (d, evs) \<Rightarrow>
      case show_loop p hdlrs level fds is of (j, evs') \<Rightarrow> (d + j, evs @ evs'))"

definition rtems_bsdnet_show_socket_stats ::
  "mbpool \<Rightarrow> (nat \<times> nat) option \<Rightarrow> nat \<Rightarrow> nat \<Rightarrow> (nat \<Rightarrow> iop_t) \<Rightarrow> int \<Rightarrow> int \<Rightarrow> int \<times> nat \<times> ss_ev list" where
  \<comment> \<open>result, new value of \<open>sockhandlers\<close>, trace; \<open>n\<close> is \<open>rtems_libio_number_iops\<close>\<close>
  "rtems_bsdnet_show_socket_stats p dummy n hdlrs fds level sd =
     (let (hdlrs, evs) = init_sockhdlrs dummy hdlrs; sd = (if sd < 0 then 0 else sd) in
      if sd \<noteq> 0 \<and> sd \<ge> int n then (-1, hdlrs, evs)
      else
        (let (lo, hi) = (if sd \<noteq> 0 then (nat sd, nat sd + 1) else (0, n));
             (j, evs') = show_loop p hdlrs level fds [lo..<hi] in
         (int j, hdlrs, evs @ evs')))"

section \<open>Locking\<close>

type_synonym locks = "bool \<times> bool \<times> nat option"

fun lock_step :: "ss_ev \<Rightarrow> locks \<Rightarrow> locks option" where
  \<comment> \<open>the network semaphore is outer, the descriptor semaphore inner; output and blocking calls need both free.
     The third component is the descriptor the report itself has created and not yet closed, which nobody else
     uses: it may be read without a semaphore\<close>
  "lock_step Net_obtain (a, b, d) = (if \<not> a \<and> \<not> b \<and> d = None then Some (True, False, None) else None)"
| "lock_step Io_obtain (a, b, d) = (if a \<and> \<not> b then Some (True, True, d) else None)"
| "lock_step Io_release (a, b, d) = (if a \<and> b then Some (True, False, d) else None)"
| "lock_step Net_release (a, b, d) = (if a \<and> \<not> b then Some (False, False, d) else None)"
| "lock_step (Access i) (a, b, d) = (if a \<and> b \<or> d = Some i then Some (a, b, d) else None)"
| "lock_step (Sock_create i) (a, b, d) = (if \<not> a \<and> \<not> b \<and> d = None then Some (a, b, Some i) else None)"
| "lock_step (Sock_close i) (a, b, d) = (if \<not> a \<and> \<not> b \<and> d = Some i then Some (a, b, None) else None)"
| "lock_step _ (a, b, d) = (if \<not> a \<and> \<not> b then Some (a, b, d) else None)"

fun lock_takes :: "ss_ev \<Rightarrow> nat" where
  "lock_takes Net_obtain = 1"
| "lock_takes Io_obtain = 1"
| "lock_takes (Sock_create i) = 1"
| "lock_takes _ = 0"

fun lock_gives :: "ss_ev \<Rightarrow> nat" where
  "lock_gives Net_release = 1"
| "lock_gives Io_release = 1"
| "lock_gives (Sock_close i) = 1"
| "lock_gives _ = 0"

fun locks_held :: "locks \<Rightarrow> nat" where
  "locks_held (a, b, d) = of_bool a + of_bool b + of_bool (d \<noteq> None)"

interpretation sock_locks: discipline lock_step "(False, False, None)" lock_takes lock_gives locks_held
proof
  show "locks_held s = 0 \<longleftrightarrow> s = (False, False, None)" for s by (cases s) auto
  show "lock_step e s = Some s' \<Longrightarrow> locks_held s' + lock_gives e = locks_held s + lock_takes e" for e s s'
    by (cases s; cases e) (auto split: if_splits)
qed

abbreviation disciplined :: "ss_ev list \<Rightarrow> bool" where
  "disciplined es \<equiv> accept lock_step es (False, False, None) = Some (False, False, None)"

lemma show_fd_disciplined: "disciplined (snd (show_fd p hdlrs level iop i))"
  by (auto simp: show_fd_def Let_def split: prod.splits option.splits)

lemma show_loop_disciplined: "disciplined (snd (show_loop p hdlrs level fds is))"
proof (induction "is")
  case (Cons i "is")
  then show ?case using show_fd_disciplined [of p hdlrs level "fds i" i]
    by (auto simp: sock_locks.accept_append split: prod.splits)
qed simp

definition selected :: "nat \<Rightarrow> int \<Rightarrow> nat list" where
  "selected n sd = (if sd \<le> 0 then [0..<n] else [nat sd])"

lemma show_socket_stats_eq:
  assumes "init_sockhdlrs dummy hdlrs = (h, evs)"
  shows "rtems_bsdnet_show_socket_stats p dummy n hdlrs fds level sd =
         (if 0 < sd \<and> int n \<le> sd then (-1, h, evs)
          else (case show_loop p h level fds (selected n sd) of (j, evs') \<Rightarrow> (int j, h, evs @ evs')))"
proof -
  have "[nat sd..<nat sd + 1] = [nat sd]" by simp
  then show ?thesis
    unfolding rtems_bsdnet_show_socket_stats_def assms selected_def Let_def by (auto simp del: show_loop.simps)
qed


section \<open>Result\<close>

definition inet_socket :: "nat \<Rightarrow> iop_t \<Rightarrow> bool" where
  "inet_socket h iop \<longleftrightarrow> iop_open iop \<and> iop_handlers iop = h \<and> (\<exists>a. sock_name iop = Some (AF_INET, a))"

lemma show_fd_count: "fst (show_fd p h level iop i) = (if inet_socket h iop then 1 else 0)"
  by (auto simp: show_fd_def notsock_def inet_socket_def Let_def split: prod.splits)

lemma show_fd_endpoints:
  "Endpoints k a b \<in> set (snd (show_fd p h level iop i)) \<longleftrightarrow>
     k = i \<and> inet_socket h iop \<and> sock_name iop = Some (AF_INET, a) \<and> b = sock_peer iop"
  by (auto simp: show_fd_def notsock_def inet_socket_def Let_def split: prod.splits option.splits)

lemma show_loop_count: "fst (show_loop p h level fds is) = length (filter (\<lambda>i. inet_socket h (fds i)) is)"
proof (induction "is")
  case (Cons i "is")
  then show ?case using show_fd_count [of p h level "fds i" i] by (auto split: prod.splits)
qed simp

lemma show_loop_endpoints:
  "Endpoints k a b \<in> set (snd (show_loop p h level fds is)) \<longleftrightarrow>
     k \<in> set is \<and> inet_socket h (fds k) \<and> sock_name (fds k) = Some (AF_INET, a) \<and> b = sock_peer (fds k)"
proof (induction "is")
  case (Cons i "is")
  then show ?case using show_fd_endpoints [of k a b p h level "fds i" i] by (auto split: prod.splits)
qed simp

text \<open>With the handler table of sockets known, the report shows the end points of exactly the internet
  sockets among the selected descriptors (one, or all for a selector that is not positive) and returns their
  number; a selector past the descriptor table is refused.\<close>
theorem socket_stats_result:
  assumes "hdlrs \<noteq> 0" "rtems_bsdnet_show_socket_stats p dummy n hdlrs fds level sd = (r, h, evs)"
  shows "(if 0 < sd \<and> int n \<le> sd then r = -1 \<and> evs = []
          else r = int (card {i. i \<in> set (selected n sd) \<and> inet_socket hdlrs (fds i)}) \<and>
               (\<forall>i a b. Endpoints i a b \<in> set evs \<longleftrightarrow>
                   i \<in> set (selected n sd) \<and> inet_socket hdlrs (fds i) \<and>
                   sock_name (fds i) = Some (AF_INET, a) \<and> b = sock_peer (fds i)))"
proof -
  have init: "init_sockhdlrs dummy hdlrs = (hdlrs, [])" using assms(1) by (simp add: init_sockhdlrs_def)
  have "distinct (selected n sd)" by (simp add: selected_def)
  then have "card {i. i \<in> set (selected n sd) \<and> inet_socket hdlrs (fds i)} =
             length (filter (\<lambda>i. inet_socket hdlrs (fds i)) (selected n sd))"
    using distinct_card [OF distinct_filter [of "selected n sd" "\<lambda>i. inet_socket hdlrs (fds i)"]] by simp
  moreover obtain j es where loop: "show_loop p hdlrs level fds (selected n sd) = (j, es)"
    by (cases "show_loop p hdlrs level fds (selected n sd)")
  ultimately have j: "j = card {i. i \<in> set (selected n sd) \<and> inet_socket hdlrs (fds i)}"
    using show_loop_count [of p hdlrs level fds "selected n sd"] by simp
  have es: "Endpoints i a b \<in> set es \<longleftrightarrow> i \<in> set (selected n sd) \<and> inet_socket hdlrs (fds i) \<and>
      sock_name (fds i) = Some (AF_INET, a) \<and> b = sock_peer (fds i)" for i a b
    using show_loop_endpoints [of i a b p hdlrs level fds "selected n sd"] by (simp add: loop)
  show ?thesis
  proof (cases "0 < sd \<and> int n \<le> sd")
    case True
    then show ?thesis using assms(2) unfolding show_socket_stats_eq [OF init] by simp
  next
    case False
    then have "r = int j" "evs = es" using assms(2) unfolding show_socket_stats_eq [OF init] loop by auto
    then show ?thesis unfolding if_not_P [OF False] j by (simp only: es simp_thms)
  qed
qed

section \<open>Cluster accounting\<close>

definition holders :: "mbpool \<Rightarrow> mbuf_t list \<Rightarrow> nat list" where
  \<comment> \<open>the clusters counted, one for each mbuf that \<open>holdsclust\<close> accepts\<close>
  "holders p mbs = map (\<lambda>mb. mtocl p (m_data mb)) (filter (holdsclust p) mbs)"

definition cluster_of :: "mbpool \<Rightarrow> mbuf_t \<Rightarrow> nat option" where
  \<comment> \<open>the cluster of the pool in which the external data of an mbuf lie\<close>
  "cluster_of p mb =
     (let b = unat (mbutl p); n = unat (mclbytes p); x = unat (m_data mb) in
      if m_ext mb \<and> b \<le> x \<and> x < b + n * unat (m_clusters p) then Some ((x - b) div n) else None)"

definition refs :: "mbpool \<Rightarrow> mbuf_t list \<Rightarrow> nat list" where
  "refs p mbs = List.map_filter (cluster_of p) mbs"

definition pool_ok :: "mbpool \<Rightarrow> bool" where
  \<comment> \<open>the clusters lie one behind the other within the address space, and \<open>mtocl\<close> gives the number of the
     cluster of an address\<close>
  "pool_ok p \<longleftrightarrow> 0 < mclbytes p \<and> 0 < m_clusters p \<and>
     unat (mbutl p) + unat (mclbytes p) * unat (m_clusters p) < 2 ^ 32 \<and>
     (\<forall>x. mbutl p \<le> x \<longrightarrow> mtocl p x = (unat x - unat (mbutl p)) div unat (mclbytes p))"

lemma pool_end:
  assumes "pool_ok p"
  shows "unat (mbutl p + mclbytes p * (m_clusters p - 1)) = unat (mbutl p) + unat (mclbytes p) * (unat (m_clusters p) - 1)"
proof -
  have c: "unat (m_clusters p - 1) = unat (m_clusters p) - 1"
    using assms by (simp add: pool_ok_def unat_sub word_le_nat_alt word_less_nat_alt)
  have "unat (mclbytes p) * (unat (m_clusters p) - 1) \<le> unat (mclbytes p) * unat (m_clusters p)" by simp
  then have l: "unat (mbutl p) + unat (mclbytes p) * (unat (m_clusters p) - 1) < 2 ^ 32"
    using assms unfolding pool_ok_def by linarith
  then have "unat (mclbytes p * (m_clusters p - 1)) = unat (mclbytes p) * (unat (m_clusters p) - 1)"
    by (simp add: unat_word_ariths c)
  then show ?thesis using l by (simp add: unat_word_ariths)
qed

lemma holdsclust_cluster:
  assumes "pool_ok p"
  shows "(if holdsclust p mb then Some (mtocl p (m_data mb)) else None) =
         Option.bind (cluster_of p mb) (\<lambda>c. if c < unat (m_clusters p) - 1 then Some c else None)"
proof -
  define b n k x where d: "b = unat (mbutl p)" "n = unat (mclbytes p)" "k = unat (m_clusters p)" "x = unat (m_data mb)"
  have n: "0 < n" using assms by (simp add: d pool_ok_def word_less_nat_alt)
  have "n * (k - 1) \<le> n * k" by simp
  then have le: "x < b + n * (k - 1) \<Longrightarrow> x < b + n * k" by linarith
  have h: "holdsclust p mb \<longleftrightarrow> m_ext mb \<and> b \<le> x \<and> x < b + n * (k - 1)"
    using pool_end [OF assms] by (simp add: holdsclust_def Let_def d word_le_nat_alt word_less_nat_alt)
  have "b \<le> x \<Longrightarrow> (x - b) div n < k - 1 \<longleftrightarrow> x < b + n * (k - 1)"
    using div_less_iff_less_mult [OF n, of "x - b" "k - 1"] by (auto simp: mult.commute)
  moreover have "b \<le> x \<Longrightarrow> mtocl p (m_data mb) = (x - b) div n"
    using assms by (simp add: pool_ok_def d word_le_nat_alt)
  ultimately show ?thesis
    using h le by (cases "m_ext mb \<and> b \<le> x"; cases "x < b + n * (k - 1)") (auto simp: cluster_of_def Let_def d [symmetric])
qed

lemma refs_lt:
  assumes "pool_ok p" "c \<in> set (refs p mbs)"
  shows "c < unat (m_clusters p)"
proof -
  obtain mb where "cluster_of p mb = Some c" using assms(2) by (auto simp: refs_def map_filter_def)
  then show ?thesis
    using assms(1) div_less_iff_less_mult [of "unat (mclbytes p)" "unat (m_data mb) - unat (mbutl p)" "unat (m_clusters p)"]
    by (auto simp: cluster_of_def pool_ok_def Let_def word_less_nat_alt mult.commute split: if_splits)
qed

lemma holders_refs:
  assumes "pool_ok p"
  shows "holders p mbs = filter (\<lambda>c. c < unat (m_clusters p) - 1) (refs p mbs)"
proof (induction mbs)
  case (Cons mb mbs)
  then show ?case
    using holdsclust_cluster [OF assms, of mb]
    by (cases "cluster_of p mb") (auto simp: holders_def refs_def map_filter_simps split: if_splits)
qed (simp add: holders_def refs_def map_filter_simps)

definition shared :: "mbpool \<Rightarrow> nat list \<Rightarrow> nat list" where
  "shared p cs = filter (\<lambda>c. mclrefcnt p c \<noteq> 1) cs"

definition exclusive :: "mbpool \<Rightarrow> nat list \<Rightarrow> nat list" where
  "exclusive p cs = filter (\<lambda>c. mclrefcnt p c = 1) cs"

lemma count_chain_eq:
  "count_chain p mbs (k, r, c1, cm) =
     (k + word_of_nat (length mbs), r + sum_list (map (\<lambda>c. 1 / of_nat (mclrefcnt p c)) (shared p (holders p mbs))),
      c1 + word_of_nat (length (exclusive p (holders p mbs))), cm + word_of_nat (length (shared p (holders p mbs))))"
  by (induction mbs arbitrary: k r c1 cm)
     (auto simp: holders_def shared_def exclusive_def Let_def algebra_simps)

lemma count_pkts_concat: "count_pkts p mbps c = count_chain p (concat mbps) c"
proof (induction mbps arbitrary: c)
  case (Cons m ms)
  have app: "count_chain p (xs @ ys) c = count_chain p ys (count_chain p xs c)" for xs ys c
    by (induction xs arbitrary: c) auto
  show ?case by (simp add: Cons app)
qed simp

lemma sum_list_count:
  "finite X \<Longrightarrow> set cs \<subseteq> X \<Longrightarrow> sum_list (map g cs) = (\<Sum>c\<in>X. of_nat (count_list cs c) * g c :: rat)"
proof (induction cs)
  case (Cons x xs)
  have "(\<Sum>c\<in>X. of_nat (count_list (x # xs) c) * g c) =
        (\<Sum>c\<in>X. of_nat (count_list xs c) * g c + (if c = x then g c else 0))"
    by (rule sum.cong) (auto simp: algebra_simps)
  then show ?case using Cons by (simp add: sum.distrib sum.delta)
qed simp

lemma shares_sum_to_one:
  assumes "\<And>c. c \<in> set cs \<Longrightarrow> count_list cs c = f c"
  shows "sum_list (map (\<lambda>c. 1 / of_nat (f c)) cs) = (of_nat (card (set cs)) :: rat)"
proof -
  have "sum_list (map (\<lambda>c. 1 / of_nat (f c)) cs) = (\<Sum>c\<in>set cs. of_nat (count_list cs c) * (1 / of_nat (f c)) :: rat)"
    by (rule sum_list_count) auto
  also have "\<dots> = (\<Sum>c\<in>set cs. 1)"
  proof (rule sum.cong)
    fix c assume "c \<in> set cs"
    then have "f c = count_list cs c" "count_list cs c \<noteq> 0" using assms [of c] count_list_0_iff [of cs c] by auto
    then show "of_nat (count_list cs c) * (1 / of_nat (f c)) = (1 :: rat)" by simp
  qed simp
  finally show ?thesis by simp
qed

lemma sum_exclusive_shared:
  "sum_list (map (\<lambda>c. 1 / of_nat (mclrefcnt p c)) cs) =
   of_nat (length (exclusive p cs)) + (sum_list (map (\<lambda>c. 1 / of_nat (mclrefcnt p c)) (shared p cs)) :: rat)"
  by (induction cs) (auto simp: exclusive_def shared_def)

lemma counters_small:
  "length (exclusive p (holders p mbs)) + length (shared p (holders p mbs)) = length (holders p mbs)"
  "length (holders p mbs) \<le> length mbs"
  using sum_length_filter_compl [of "\<lambda>c. mclrefcnt p c = 1" "holders p mbs"]
  by (simp_all add: exclusive_def shared_def holders_def)


text \<open>The upper bound of \<open>holdsclust\<close> leaves out the last cluster of the pool.\<close>
lemma holdsclust_misses_last:
  "holdsclust p \<lparr>m_ext = True, m_data = mbutl p + mclbytes p * (m_clusters p - 1)\<rparr> = False"
  by (simp add: holdsclust_def)

section \<open>Concrete instances\<close>

definition sample_pool :: mbpool where
  "sample_pool = \<lparr>mbutl = 0x10000, m_clusters = 8, mclbytes = 2048,
                  mtocl = (\<lambda>x. unat ((x - 0x10000) div 2048)), mclrefcnt = (\<lambda>c. if c = 1 then 2 else 1)\<rparr>"

definition sample_sockbuf :: sockbuf where
  "sample_sockbuf = \<lparr>sb_cc = 0, sb_hiwat = 0, sb_mbcnt = 0, sb_mbmax = 0, sb_lowat = 0, sb_flags = 0, sb_timeo = 0,
     sb_mb = [[\<lparr>m_ext = True, m_data = 0x10010\<rparr>, \<lparr>m_ext = True, m_data = 0x10800\<rparr>],
              [\<lparr>m_ext = True, m_data = 0x10c00\<rparr>, \<lparr>m_ext = False, m_data = 4\<rparr>]]\<rparr>"

lemma sample_pool_ok: "pool_ok sample_pool"
proof -
  have "unat ((x - 0x10000) div 2048) = (unat x - 0x10000) div 2048" if "0x10000 \<le> x" for x :: u32
    using that by (simp add: unat_div unat_sub word_le_nat_alt)
  then show ?thesis by (simp add: pool_ok_def sample_pool_def)
qed

lemma sample_refs: "filter (\<lambda>c. c \<noteq> unat (m_clusters sample_pool) - 1) (refs sample_pool (concat (sb_mb sample_sockbuf))) = [0, 1, 1]"
  by (simp add: refs_def cluster_of_def map_filter_simps sample_pool_def sample_sockbuf_def)


definition sample_fds :: "nat \<Rightarrow> iop_t" where
  "sample_fds i = \<lparr>iop_open = (i < 4), iop_handlers = (if i < 3 then 1 else 7), iop_data1 = None,
                   sock_name = Some (AF_INET, 0x0a000001, 23), sock_peer = None\<rparr>"

theorem socket_stats_result_witness:
  "(7 :: nat) \<noteq> 0 \<and> fst (rtems_bsdnet_show_socket_stats sample_pool None 5 7 sample_fds 0 3) = 1"
proof -
  obtain r h evs where run: "rtems_bsdnet_show_socket_stats sample_pool None 5 7 sample_fds 0 3 = (r, h, evs)"
    by (cases "rtems_bsdnet_show_socket_stats sample_pool None 5 7 sample_fds 0 3")
  have "{i. i \<in> set (selected 5 3) \<and> inet_socket 7 (sample_fds i)} = {3}"
    by (auto simp: selected_def inet_socket_def sample_fds_def)
  then show ?thesis using socket_stats_result [OF _ run] run by simp
qed

end
