(* ===== verification/Text.thy ===== *)
theory Text
  imports Prelude
begin

unbundle bit_operations_syntax

text \<open>
  What the utilities use of the C library for text: character classes, hexadecimal output,
  \<open>strtoul\<close> with base 0, \<open>atoi\<close>, and \<open>strtok\<close> at blanks. Characters are ASCII.
\<close>

section \<open>Characters\<close>

definition isprint :: "u8 \<Rightarrow> bool" where
  "isprint c \<longleftrightarrow> 32 \<le> c \<and> c < 127"

definition isspace :: "char \<Rightarrow> bool" where
  "isspace c \<longleftrightarrow> c = CHR '' '' \<or> (9 \<le> (of_char c :: nat) \<and> (of_char c :: nat) \<le> 13)"

definition hex_char :: "nat \<Rightarrow> char" where
  "hex_char n = (if n < 10 then char_of (48 + n) else char_of (87 + n))"

definition digit_val :: "nat \<Rightarrow> char \<Rightarrow> nat option" where
  "digit_val base c =
     (let n = of_char c;
          v = (if 48 \<le> n \<and> n \<le> 57 then n - 48
               else if 97 \<le> n \<and> n \<le> 122 then n - 87
               else if 65 \<le> n \<and> n \<le> 90 then n - 55 else 99) in
      if v < base then Some v else None)"

section \<open>Hexadecimal output\<close>

primrec hexn :: "nat \<Rightarrow> nat \<Rightarrow> string" where
  \<comment> \<open>the last \<open>k\<close> hexadecimal digits, as \<open>%08x\<close> prints a 32-bit number with \<open>k = 8\<close>\<close>
  "hexn 0 n = []"
| "hexn (Suc k) n = hexn k (n div 16) @ [hex_char (n mod 16)]"

section \<open>Numbers read\<close>

fun digits :: "nat \<Rightarrow> string \<Rightarrow> nat \<Rightarrow> nat \<times> nat" where
  \<comment> \<open>the value of the leading digits, continuing from \<open>acc\<close>, and how many there are\<close>
  "digits base [] acc = (acc, 0)"
| "digits base (c # cs) acc =
     (case digit_val base c of None \<Rightarrow> (acc, 0)
      | Some d \<Rightarrow> (case digits base cs (acc * base + d) of (v, k) \<Rightarrow> (v, Suc k)))"

definition sign :: "string \<Rightarrow> bool \<times> nat" where
  \<comment> \<open>whether there is a minus sign, and how many characters the sign takes\<close>
  "sign s = (case s of c # cs \<Rightarrow> if c = CHR ''-'' then (True, 1) else if c = CHR ''+'' then (False, 1) else (False, 0)
             | [] \<Rightarrow> (False, 0))"

fun hex_prefix :: "string \<Rightarrow> bool" where
  "hex_prefix (c # x # d # cs) = (c = CHR ''0'' \<and> (x = CHR ''x'' \<or> x = CHR ''X'') \<and> digit_val 16 d \<noteq> None)"
| "hex_prefix _ = False"

definition strtoul :: "string \<Rightarrow> u32 \<times> nat" where
  \<comment> \<open>\<open>strtoul(s, &endp, 0)\<close> with 32-bit \<open>unsigned long\<close>: the value and \<open>endp - s\<close>\<close>
  "strtoul s =
     (let blanks = length (takeWhile isspace s); t = drop blanks s;
          (neg, sg) = sign t; t = drop sg t;
          (pre, base) = (if hex_prefix t then (2, 16) else if take 1 t = ''0'' then (0, 8) else (0, 10));
          (v, k) = digits base (drop pre t) 0 in
      if k = 0 then (0, 0)
      else (if 2 ^ 32 \<le> v then -1 else if neg then - word_of_nat v else word_of_nat v, blanks + sg + pre + k))"

definition strtol :: "string \<Rightarrow> int \<times> nat" where
  \<comment> \<open>\<open>strtol(s, &endp, 0)\<close> with 32-bit \<open>long\<close>: the value and \<open>endp - s\<close>\<close>
  "strtol s =
     (let blanks = length (takeWhile isspace s); t = drop blanks s;
          (neg, sg) = sign t; t = drop sg t;
          (pre, base) = (if hex_prefix t then (2, 16) else if take 1 t = ''0'' then (0, 8) else (0, 10));
          (v, k) = digits base (drop pre t) 0 in
      if k = 0 then (0, 0)
      else (max (- (2 ^ 31)) (min (2 ^ 31 - 1) (if neg then - int v else int v)), blanks + sg + pre + k))"

definition atoi :: "string \<Rightarrow> int" where
  \<comment> \<open>\<open>(int)strtol(s, NULL, 10)\<close> with 32-bit \<open>long\<close>\<close>
  "atoi s =
     (let t = dropWhile isspace s; (neg, sg) = sign t; (v, k) = digits 10 (drop sg t) 0 in
      max (- (2 ^ 31)) (min (2 ^ 31 - 1) (if neg then - int v else int v)))"

section \<open>Words\<close>

function strtok_blank :: "string \<Rightarrow> string list" where
  \<comment> \<open>the tokens successive calls of \<open>strtok(s, " ")\<close> return\<close>
  "strtok_blank [] = []"
| "strtok_blank (c # cs) =
     (if c = CHR '' '' then strtok_blank cs
      else (c # takeWhile (\<lambda>x. x \<noteq> CHR '' '') cs) # strtok_blank (dropWhile (\<lambda>x. x \<noteq> CHR '' '') cs))"
  by pat_completeness auto
termination
  by (relation "measure length") (auto simp: le_imp_less_Suc length_dropWhile_le)

section \<open>Lemmas\<close>

lemma length_hexn [simp]: "length (hexn k n) = k"
  by (induction k arbitrary: n) simp_all

lemma digit_val_hex_char: "n < 16 \<Longrightarrow> digit_val 16 (hex_char n) = Some n"
  by (auto simp: digit_val_def hex_char_def Let_def of_char_of)

lemma digits_append:
  "\<forall>c \<in> set s. digit_val base c \<noteq> None \<Longrightarrow>
     digits base (s @ t) acc = (case digits base s acc of (v, k) \<Rightarrow> case digits base t v of (w, j) \<Rightarrow> (w, k + j))"
  by (induction s arbitrary: acc) (auto split: prod.splits)

lemma hexn_digits: "c \<in> set (hexn k n) \<Longrightarrow> digit_val 16 c \<noteq> None"
  by (induction k arbitrary: n) (auto simp: digit_val_hex_char)

lemma digits_hexn: "n < 16 ^ k \<Longrightarrow> digits 16 (hexn k n) 0 = (n, k)"
proof (induction k arbitrary: n)
  case 0
  then show ?case by simp
next
  case (Suc k)
  then have "n div 16 < 16 ^ k" by (simp add: less_mult_imp_div_less mult.commute)
  from Suc.IH [OF this] show ?case
    using hexn_digits [of _ k "n div 16"]
    by (simp add: digits_append digit_val_hex_char)
qed

lemma strtoul_hexn:
  assumes "n < 2 ^ 32" "n < 16 ^ k" "0 < k"
  shows "strtoul (''0x'' @ hexn k n) = (word_of_nat n, k + 2)"
proof -
  obtain d ds where hd: "hexn k n = d # ds" using assms(3) by (cases k; cases "hexn k n") auto
  have "digit_val 16 d \<noteq> None" using hexn_digits [of d k n] by (simp add: hd)
  moreover have "digits 16 (d # ds) 0 = (n, k)" using digits_hexn [OF assms(2)] by (simp add: hd)
  ultimately show ?thesis
    using assms(1,3) unfolding strtoul_def hd by (auto simp: isspace_def sign_def Let_def)
qed

end
