(* ===== verification/MemUtils.thy ===== *)
theory MemUtils
  imports Text
begin

unbundle bit_operations_syntax

text \<open>
  The memory utilities of \<^verbatim>\<open>miscUtils/memUtils.c\<close>: the dump \<open>md\<close>, the editor \<open>mm\<close>, the image writer
  \<open>coredump\<close>, and the display \<open>pbat\<close> of an address translation register. Memory is a map from
  addresses to bytes, read in big-endian order. What \<open>md\<close> prints is a list of items, and
  \<open>md_text\<close> turns them into characters; the other messages are not modelled.
\<close>

section \<open>Memory\<close>

type_synonym bytes = "u32 \<Rightarrow> u8"

definition ld :: "bytes \<Rightarrow> u32 \<Rightarrow> nat \<Rightarrow> u32" where
  \<comment> \<open>an unsigned load of 4, 2 or 1 bytes\<close>
  "ld m a n = (if n = 4 then be32 (m a) (m (a + 1)) (m (a + 2)) (m (a + 3))
               else if n = 2 then ucast (be16 (m a) (m (a + 1)))
               else ucast (m a))"

definition st :: "u32 \<Rightarrow> nat \<Rightarrow> u32 \<Rightarrow> bytes \<Rightarrow> bytes" where
  "st a n v m = (if n = 4 then m(a := bytes32 v ! 0, a + 1 := bytes32 v ! 1, a + 2 := bytes32 v ! 2, a + 3 := bytes32 v ! 3)
                 else if n = 2 then m(a := bytes16 (ucast v) ! 0, a + 1 := bytes16 (ucast v) ! 1)
                 else m(a := ucast v))"

definition word_size :: "int \<Rightarrow> int" where
  \<comment> \<open>the switch at the start of \<open>md\<close> and \<open>mm\<close>\<close>
  "word_size sz = (if sz = 1 \<or> sz = 2 \<or> sz = 4 then sz else 4)"

section \<open>The dump\<close>

datatype md_item =
    Addr u32             \<comment> \<open>a new line and the address\<close>
  | Val nat u32          \<comment> \<open>two blanks and a value of that many bytes\<close>
  | Pad nat
  | Chars "u8 list"      \<comment> \<open>two blanks and a byte each\<close>
  | Newline

function dumpchars :: "bytes \<Rightarrow> u32 \<Rightarrow> u32 \<Rightarrow> u8 list" where
  "dumpchars m p e =
     (if p < e then (if isprint (m p) then m p else 46) # dumpchars m (p + 1) e else [])"
  by pat_completeness auto
termination
  by (relation "measure (\<lambda>(m, p, e). unat e - unat p)")
    (auto simp: unat_plus_1 word_less_nat_alt)

declare dumpchars.simps [simp del]

function md_loop :: "bytes \<Rightarrow> int \<Rightarrow> int \<Rightarrow> int \<Rightarrow> u32 \<Rightarrow> u32 \<Rightarrow> (md_item list \<times> int \<times> u32 \<times> u32) option" where
  \<comment> \<open>the items printed, and the final \<open>i\<close>, \<open>address\<close> and \<open>oadd\<close>; \<open>sz\<close> is 1, 2 or 4. \<open>None\<close>: the signed
     variable \<open>i\<close> overflows, which is undefined (where it wraps around the loop goes on for ever)\<close>
  "md_loop m count sz i address oadd =
     (if i < count \<and> 0 < sz then
        (let row = (i mod 16 = 0);
             cs = (if row \<and> i \<noteq> 0 then [Chars (dumpchars m oadd address)] else []);
             oadd = (if row \<and> i \<noteq> 0 then max oadd address else oadd) in
         if 2 ^ 31 \<le> i + sz then None
         else map_option
           (\<lambda>(rest, fin). (cs @ (if row then [Addr address] else []) @ [Val (nat sz) (ld m address (nat sz))] @ rest, fin))
           (md_loop m count sz (i + sz) (address + word_of_int sz) oadd))
      else Some ([], i, address, oadd))"
  by pat_completeness auto
termination
  by (relation "measure (\<lambda>(m, count, sz, i, address, oadd). nat (count - i))") auto

declare md_loop.simps [simp del]

definition md :: "bytes \<Rightarrow> u32 \<Rightarrow> int \<Rightarrow> int \<Rightarrow> md_item list option" where
  \<comment> \<open>\<open>None\<close>: a signed overflow, in the loop or in the computation of the width of the padding\<close>
  "md m address count sz =
     (let sz = word_size sz in
      case md_loop m count sz 0 address address of None \<Rightarrow> None
      | Some (items, i, address, oadd) \<Rightarrow>
          if count > 0 \<and> 2 ^ 31 \<le> i + 15 then None
          else Some (items @
            (if count > 0
             then [Pad (nat (((i + 15) div 16 * 16 - i) div sz * (2 + 2 * sz))), Chars (dumpchars m oadd address)]
             else []) @ [Newline]))"

fun md_text :: "md_item \<Rightarrow> string" where
  "md_text (Addr a) = [CHR 0x0A] @ ''0x'' @ hexn 8 (unat a) @ '':''"
| "md_text (Val n v) = ''  '' @ hexn (2 * n) (unat v)"
| "md_text (Pad k) = replicate k (CHR '' '')"
| "md_text (Chars bs) = ''  '' @ map (\<lambda>b. char_of (unat b)) bs"
| "md_text Newline = [CHR 0x0A]"

section \<open>The editor\<close>

abbreviation LBSZ :: nat where "LBSZ \<equiv> 40"

definition mm_line :: "string \<Rightarrow> int \<Rightarrow> u32 \<Rightarrow> bytes \<Rightarrow> int \<times> u32 \<times> bytes" where
  \<comment> \<open>one pass of the loop, after \<open>fgets\<close>\<close>
  "mm_line buf sz address m =
     (let (v, endp) = strtoul buf; c = (case buf of [] \<Rightarrow> CHR 0x00 | c # _ \<Rightarrow> c) in
      if endp > 0 then (sz, address + word_of_int sz, st address (nat \<bar>sz\<bar>) v m)
      else if c = CHR ''^'' then (- \<bar>sz\<bar>, address + word_of_int (- \<bar>sz\<bar>), m)
      else if c = CHR ''V'' \<or> c = CHR ''v'' then (\<bar>sz\<bar>, address + word_of_int \<bar>sz\<bar>, m)
      else if c = CHR 0x0A \<or> c = CHR 0x0D then (sz, address + word_of_int sz, m)
      else (sz, address - word_of_int sz + word_of_int sz, m))"

fun mm_loop :: "string \<Rightarrow> int \<Rightarrow> u32 \<Rightarrow> bytes \<Rightarrow> string option list \<Rightarrow> (u32 \<times> bytes) + (u32 \<times> bytes)" where
  \<comment> \<open>an element of the list is what a call of \<open>fgets\<close> stores in \<open>buf\<close>, at most \<open>LBSZ - 1\<close> characters, or
      \<open>None\<close> at the end of the input; \<open>Inl\<close>: still reading when the list is used up, \<open>Inr\<close>: returned\<close>
  "mm_loop buf sz address m [] = Inl (address, m)"
| "mm_loop buf sz address m (l # ls) =
     (let buf = (case l of None \<Rightarrow> buf | Some t \<Rightarrow> t); (sz, address, m) = mm_line buf sz address m in
      if buf \<noteq> [] \<and> hd buf \<noteq> CHR ''.'' then mm_loop buf sz address m ls else Inr (address, m))"

definition mm :: "string \<Rightarrow> bytes \<Rightarrow> u32 \<Rightarrow> int \<Rightarrow> string option list \<Rightarrow> (u32 \<times> bytes) + (u32 \<times> bytes)" where
  \<comment> \<open>\<open>buf0\<close> is what the uninitialised buffer holds\<close>
  "mm buf0 m address sz ls = mm_loop buf0 (word_size sz) address m ls"

section \<open>The image writer\<close>

definition block :: "bytes \<Rightarrow> u32 \<Rightarrow> nat \<Rightarrow> u8 list" where
  "block m a n = map (\<lambda>k. m (a + word_of_nat k)) [0..<n]"

fun doWrite_loop :: "bytes \<Rightarrow> u32 \<Rightarrow> u32 \<Rightarrow> u32 \<Rightarrow> int list \<Rightarrow> (int \<times> u8 list \<times> int list) option" where
  \<comment> \<open>the list has what the calls of \<open>write\<close> return; the result is the value returned, the bytes that went
      out and the rest of the list, or \<open>None\<close> when the loop is not finished at the end of the list\<close>
  "doWrite_loop m start here len ws =
     (if len = 0 then Some (sint (here - start), [], ws)
      else case ws of [] \<Rightarrow> None
      | written # ws \<Rightarrow>
          if written < 0 then Some (-1, [], ws)
          else (case doWrite_loop m start (here + word_of_int written) (len - word_of_int written) ws of
                  None \<Rightarrow> None
                | Some (r, bs, ws) \<Rightarrow> Some (r, block m here (nat written) @ bs, ws)))"

declare doWrite_loop.simps [simp del]

definition doWrite :: "bytes \<Rightarrow> u32 \<Rightarrow> u32 \<Rightarrow> int list \<Rightarrow> (int \<times> u8 list \<times> int list) option" where
  "doWrite m start len ws = doWrite_loop m start start len ws"

partial_function (option) round_up :: "u32 \<Rightarrow> u32 \<Rightarrow> u32 option" where
  \<comment> \<open>the loop that doubles \<open>mem_size\<close>\<close>
  "round_up mem_size sz = (if mem_size < sz then round_up (push_bit 1 mem_size) sz else Some mem_size)"

definition coredump :: "u32 \<Rightarrow> (bool \<Rightarrow> int) \<Rightarrow> u32 \<Rightarrow> bytes \<Rightarrow> u32 \<Rightarrow> u32 \<Rightarrow> bool \<Rightarrow> int list \<Rightarrow>
    (u32 \<times> u8 list \<times> int option) option" where
  \<comment> \<open>\<open>va\<close> is the address of the local variable \<open>valAtZero\<close>, \<open>opn\<close> the result of \<open>open\<close> with or without
      \<open>O_EXCL\<close>; the result is the value returned, what was written, and the descriptor closed\<close>
  "coredump va opn BSP_mem_size m start sz forceWrite ws =
     (let sz = (if sz = 0 then BSP_mem_size else sz) in
      if sz = 0 then Some (-1, [], None)
      else
        (let fd = opn (\<not> forceWrite) in
         if fd < 0 then Some (-1, [], None)
         else case round_up 1 sz of None \<Rightarrow> None
         | Some mem_size \<Rightarrow>
             (let m = st va 4 (ld m start 4) m in
              case doWrite m va 4 ws of None \<Rightarrow> None
              | Some (r, bs, ws) \<Rightarrow>
                  if r < 0 then Some (-1, bs, Some fd)
                  else (case doWrite m (start + 4) (mem_size - 4) ws of None \<Rightarrow> None
                        | Some (r, bs', ws) \<Rightarrow> Some (if r < 0 then -1 else mem_size, bs @ bs', Some fd)))))"

section \<open>Block address translation registers\<close>

record bat_info =
  bepi :: u32
  bl_mask :: u32
  szstr :: string
  brpn :: u32
  wimg :: u32
  pp :: string
  vs_vp :: "u32 \<times> u32"

definition bat_size :: "u32 \<Rightarrow> string" where
  "bat_size bl =
     (if bl = 2 ^ 0 - 1 then ''128k'' else if bl = 2 ^ 1 - 1 then ''256k'' else if bl = 2 ^ 2 - 1 then ''512k''
      else if bl = 2 ^ 3 - 1 then ''1M'' else if bl = 2 ^ 4 - 1 then ''2M'' else if bl = 2 ^ 5 - 1 then ''4M''
      else if bl = 2 ^ 6 - 1 then ''8M'' else if bl = 2 ^ 7 - 1 then ''16M'' else if bl = 2 ^ 8 - 1 then ''32M''
      else if bl = 2 ^ 9 - 1 then ''64M'' else if bl = 2 ^ 10 - 1 then ''128M'' else if bl = 2 ^ 11 - 1 then ''256M''
      else ''INVALID'')"

definition pbat :: "(bool \<Rightarrow> nat \<Rightarrow> u32 \<times> u32) \<Rightarrow> nat \<Rightarrow> bool \<Rightarrow> bat_info option" where
  \<comment> \<open>\<open>regs\<close> has the upper and lower half of each register; \<open>None\<close>: the result is -1\<close>
  "pbat regs bat dbat =
     (if bat > 3 then None
      else
        (let (u, l) = regs dbat bat; bl = drop_bit 2 (u AND (2 ^ 13 - 1)) in
         Some \<lparr>bepi = u AND NOT (2 ^ 17 - 1), bl_mask = push_bit 17 (NOT bl), szstr = bat_size bl,
               brpn = l AND NOT (2 ^ 17 - 1), wimg = drop_bit 3 l AND 0xf,
               pp = (if l AND 3 = 0 then ''NO'' else if l AND 3 = 2 then ''RW'' else ''RO''),
               vs_vp = (u AND 2, u AND 1)\<rparr>))"

section \<open>What the dump shows\<close>

fun vals :: "md_item list \<Rightarrow> u32 list" where
  "vals [] = []"
| "vals (x # xs) = (case x of Val n v \<Rightarrow> v # vals xs | _ \<Rightarrow> vals xs)"

fun addrs :: "md_item list \<Rightarrow> u32 list" where
  "addrs [] = []"
| "addrs (x # xs) = (case x of Addr a \<Rightarrow> a # addrs xs | _ \<Rightarrow> addrs xs)"

fun chars :: "md_item list \<Rightarrow> u8 list" where
  "chars [] = []"
| "chars (x # xs) = (case x of Chars bs \<Rightarrow> bs @ chars xs | _ \<Rightarrow> chars xs)"

lemma vals_append [simp]: "vals (xs @ ys) = vals xs @ vals ys"
  by (induction xs) (simp_all split: md_item.split)

lemma addrs_append [simp]: "addrs (xs @ ys) = addrs xs @ addrs ys"
  by (induction xs) (simp_all split: md_item.split)

lemma chars_append [simp]: "chars (xs @ ys) = chars xs @ chars ys"
  by (induction xs) (simp_all split: md_item.split)

definition shown :: "u8 \<Rightarrow> u8" where
  "shown b = (if isprint b then b else 46)"

lemma dumpchars_range:
  assumes "unat b + y < 2 ^ 32" "x \<le> y"
  shows "dumpchars m (b + word_of_nat x) (b + word_of_nat y) = map (\<lambda>k. shown (m (b + word_of_nat k))) [x..<y]"
  using assms(2)
proof (induction "y - x" arbitrary: x)
  case 0
  then show ?case by (simp add: dumpchars.simps)
next
  case (Suc n)
  then have "x < y" by simp
  then have "b + word_of_nat x < b + word_of_nat y"
    using assms(1) by (simp add: word_less_nat_alt unat_plus_nat)
  moreover have "b + word_of_nat x + 1 = b + word_of_nat (Suc x)" by (simp add: algebra_simps)
  ultimately show ?case
    using Suc.hyps(1) [of "Suc x"] Suc.hyps(2) \<open>x < y\<close>
    by (subst dumpchars.simps) (simp add: shown_def upt_conv_Cons ac_simps)
qed

definition row_start :: "nat \<Rightarrow> nat" where
  \<comment> \<open>offset of \<open>oadd\<close> when \<open>n\<close> bytes are out\<close>
  "row_start n = (n - 1) div 16 * 16"

lemma row_room:
  assumes "s = 1 \<or> s = 2 \<or> s = (4 :: nat)"
  shows "s * j mod 16 + s \<le> 16"
proof -
  have "2 * j mod 16 = 2 * (j mod 8)" "4 * j mod 16 = 4 * (j mod 4)"
    using mult_mod_right [of 2 j 8] mult_mod_right [of 4 j 4] by simp_all
  moreover have "j mod 16 < 16" "j mod 8 < 8" "j mod 4 < 4" by simp_all
  ultimately show ?thesis using assms by (elim disjE) simp_all
qed

lemma row_step:
  assumes "n mod 16 + s \<le> 16" "0 < s"
  shows "row_start (n + s) = (if n mod 16 = 0 \<and> n \<noteq> 0 then n else row_start n)"
    and "(n + s + 15) div 16 = (n + 15) div 16 + (if n mod 16 = 0 then 1 else 0)"
proof -
  obtain q r where n: "n = 16 * q + r" "r < 16" by (metis mult_div_mod_eq mod_less_divisor zero_less_numeral)
  with assms have r: "n mod 16 = r" "r + s \<le> 16" by simp_all
  have "(n + s - 1) div 16 = q" using n r assms(2) by (intro div_nat_eqI) simp_all
  moreover have "(n - 1) div 16 = q" if "r \<noteq> 0" using n that by (intro div_nat_eqI) simp_all
  ultimately show "row_start (n + s) = (if n mod 16 = 0 \<and> n \<noteq> 0 then n else row_start n)"
    using n r by (auto simp: row_start_def)
  have "(n + s + 15) div 16 = q + 1" using n r assms(2) by (intro div_nat_eqI) simp_all
  moreover have "(n + 15) div 16 = (if r = 0 then q else q + 1)" using n by (intro div_nat_eqI) (auto split: if_splits)
  ultimately show "(n + s + 15) div 16 = (n + 15) div 16 + (if n mod 16 = 0 then 1 else 0)"
    using r by simp
qed

lemma row_heads:
  assumes "n mod 16 + s \<le> 16" "0 < s" "n + s \<le> e"
  shows "[(n + 15) div 16..<(e + 15) div 16] =
    (if n mod 16 = 0 then [n div 16] else []) @ [(n + s + 15) div 16..<(e + 15) div 16]"
proof (cases "n mod 16 = 0")
  case True
  then have same: "(n + 15) div 16 = n div 16" by (auto simp: mod_eq_0_iff_dvd elim!: dvdE)
  have "(n + s + 15) div 16 \<le> (e + 15) div 16" using assms(3) by (intro div_le_mono) simp
  with True same row_step(2) [OF assms(1,2)] show ?thesis by (simp add: upt_conv_Cons)
next
  case False
  with row_step(2) [OF assms(1,2)] show ?thesis by simp
qed

lemma row_start_mono: "a \<le> c \<Longrightarrow> row_start a \<le> row_start c"
  unfolding row_start_def by (intro mult_le_mono1 div_le_mono) simp

lemma row_start_le: "row_start n \<le> n"
proof -
  have "(n - 1) div 16 * 16 \<le> n - 1" by simp
  then show ?thesis unfolding row_start_def by linarith
qed

definition md_done :: "bytes \<Rightarrow> u32 \<Rightarrow> nat \<Rightarrow> nat \<Rightarrow> nat \<Rightarrow> md_item list \<times> int \<times> u32 \<times> u32 \<Rightarrow> bool" where
  \<comment> \<open>what the loop has printed from value \<open>j\<close> to value \<open>n\<close>, and where it stands\<close>
  "md_done m b s j n r \<longleftrightarrow>
     (case r of (items, i, a, q) \<Rightarrow>
        vals items = map (\<lambda>k. ld m (b + word_of_nat (s * k)) s) [j..<n] \<and>
        addrs items = map (\<lambda>k. b + word_of_nat (16 * k)) [(s * j + 15) div 16..<(s * n + 15) div 16] \<and>
        chars items = map (\<lambda>k. shown (m (b + word_of_nat k))) [row_start (s * j)..<row_start (s * n)] \<and>
        i = int (s * n) \<and> a = b + word_of_nat (s * n) \<and> q = b + word_of_nat (row_start (s * n)))"

lemma md_loop_done:
  assumes "s = 1 \<or> s = 2 \<or> s = 4" "unat b + s * n < 2 ^ 32"
    and "\<And>k. int (s * k) < count \<longleftrightarrow> k < n" "s * n < 2 ^ 31" "j \<le> n"
  shows "\<exists>r. md_loop m count (int s) (int (s * j)) (b + word_of_nat (s * j)) (b + word_of_nat (row_start (s * j))) = Some r \<and>
    md_done m b s j n r"
  using assms(5)
proof (induction "n - j" arbitrary: j)
  case 0
  then show ?case using assms(3) [of j] by (subst md_loop.simps) (simp add: md_done_def)
next
  case (Suc d)
  then have "j < n" by simp
  let ?row = "s * j mod 16 = 0"
  have s: "0 < s" using assms(1) by auto
  note step = row_step [OF row_room [OF assms(1)] s, of j]
  have le: "unat b + s * j < 2 ^ 32" using \<open>j < n\<close> assms(2) by (meson le_less_trans add_left_mono mult_le_mono2 less_imp_le)
  have oadd: "max (b + word_of_nat (row_start (s * j))) (b + word_of_nat (s * j)) = b + word_of_nat (s * j)"
    using le row_start_le [of "s * j"] by (simp add: max_def word_le_nat_alt unat_plus_nat del: of_nat_mult)
  have cs: "dumpchars m (b + word_of_nat (row_start (s * j))) (b + word_of_nat (s * j)) =
      map (\<lambda>k. shown (m (b + word_of_nat k))) [row_start (s * j)..<s * j]"
    by (rule dumpchars_range [OF le row_start_le])
  have i: "int (s * j) + int s = int (s * Suc j)" "b + word_of_nat (s * j) + word_of_int (int s) = b + word_of_nat (s * Suc j)"
    by (simp_all add: algebra_simps)
  have "int (s * j) mod 16 = int (s * j mod 16)" by (simp add: zmod_int)
  then have nz: "int (s * j) mod 16 = 0 \<longleftrightarrow> ?row" "int (s * j) = 0 \<longleftrightarrow> j = 0"
    using s by (simp_all only: of_nat_eq_0_iff mult_eq_0_iff) simp
  let ?next = "md_loop m count (int s) (int (s * Suc j)) (b + word_of_nat (s * Suc j)) (b + word_of_nat (row_start (s * Suc j)))"
  have "d = n - Suc j" "Suc j \<le> n" using Suc.hyps(2) \<open>j < n\<close> by simp_all
  then obtain items i' a q where R: "?next = Some (items, i', a, q)" and ih: "md_done m b s (Suc j) n (items, i', a, q)"
    using Suc.hyps(1) [of "Suc j"] by (metis prod_cases4)
  have "s * Suc j \<le> s * n" using \<open>j < n\<close> by (intro mult_le_mono2) simp
  then have "s * Suc j < 2 ^ 31" using assms(4) by linarith
  then have fits: "\<not> 2 ^ 31 \<le> int (s * Suc j)" by (simp del: of_nat_mult mult_Suc_right)
  have off: "(if ?row \<and> j \<noteq> 0 then b + word_of_nat (s * j) else b + word_of_nat (row_start (s * j))) =
      b + word_of_nat (row_start (s * Suc j))"
    using step(1) s by (simp add: add.commute del: of_nat_mult)
  have loop: "md_loop m count (int s) (int (s * j)) (b + word_of_nat (s * j)) (b + word_of_nat (row_start (s * j))) =
      Some ((if ?row \<and> j \<noteq> 0 then [Chars (map (\<lambda>k. shown (m (b + word_of_nat k))) [row_start (s * j)..<s * j])] else []) @
       (if ?row then [Addr (b + word_of_nat (s * j))] else []) @ [Val s (ld m (b + word_of_nat (s * j)) s)] @ items, i', a, q)"
    using assms(3) [of j] \<open>j < n\<close> s
    by (subst md_loop.simps) (simp only: nz i oadd cs off R fits Let_def if_True if_False simp_thms of_nat_0_less_iff prod.case nat_int option.map)
  have "row_start (s * j) \<le> row_start (s * Suc j)" "row_start (s * Suc j) \<le> row_start (s * n)"
    using \<open>j < n\<close> by (intro row_start_mono mult_le_mono2; simp)+
  note rows = upt_split [OF this]
  have start: "row_start (s * Suc j) = (if ?row \<and> j \<noteq> 0 then s * j else row_start (s * j))"
    using s step(1) by (simp add: add.commute)
  have "s * j + s \<le> s * n" using \<open>j < n\<close> mult_le_mono2 [of "Suc j" n s] by simp
  from row_heads [OF row_room [OF assms(1)] s this]
  have heads: "[(s * j + 15) div 16..<(s * n + 15) div 16] =
      (if ?row then [s * j div 16] else []) @ [(s * Suc j + 15) div 16..<(s * n + 15) div 16]"
    by (simp add: add.commute)
  have sixteen: "16 * (s * j div 16) = s * j" if ?row using that by presburger
  from ih show ?case
    unfolding loop md_done_def
    by (simp add: rows heads start sixteen upt_conv_Cons [OF \<open>j < n\<close>] del: of_nat_mult mult_Suc_right)
qed

lemma word_size_nat:
  obtains s where "word_size sz = int s" "s = 1 \<or> s = 2 \<or> s = 4"
  by (rule that [of "nat (word_size sz)"]) (auto simp: word_size_def)

definition md_words :: "int \<Rightarrow> int \<Rightarrow> nat" where
  \<comment> \<open>how many values \<open>md\<close> prints\<close>
  "md_words count sz = nat ((count + word_size sz - 1) div word_size sz)"

lemma md_words_bound:
  assumes "word_size sz = int s" "s = 1 \<or> s = 2 \<or> s = 4"
  shows "int (s * k) < count \<longleftrightarrow> k < md_words count sz"
proof -
  have "int k < (count + int s - 1) div int s \<longleftrightarrow> int s * int k < count"
    using assms(2) by (elim disjE) (simp_all, presburger+)
  then show ?thesis by (simp add: md_words_def assms(1) zless_nat_eq_int_zless)
qed

definition md_fits :: "int \<Rightarrow> int \<Rightarrow> bool" where
  \<comment> \<open>the whole words of the range stay clear of the largest \<open>int\<close>\<close>
  "md_fits count sz \<longleftrightarrow> count \<le> 0 \<or> nat (word_size sz) * md_words count sz + 15 < 2 ^ 31"

lemma md_loop_step:
  assumes "i < count" "0 < sz" "\<not> 2 ^ 31 \<le> i + sz"
  shows "\<exists>g a' q'. md_loop m count sz i a q = map_option (\<lambda>(rest, fin). (g rest, fin)) (md_loop m count sz (i + sz) a' q')"
  unfolding md_loop.simps [of m count sz i a q] Let_def
  using assms by (intro exI) (simp only: if_True if_False simp_thms)

lemma md_loop_returns:
  assumes "0 < s" "\<And>k. int (s * k) < count \<longleftrightarrow> k < n" "j \<le> n" "s * j < 2 ^ 31"
  shows "case md_loop m count (int s) (int (s * j)) a q of
      None \<Rightarrow> 2 ^ 31 \<le> s * n | Some (items, i, a', q') \<Rightarrow> i = int (s * n)"
  using assms(3,4)
proof (induction "n - j" arbitrary: j a q)
  case 0
  then show ?case using assms(2) [of j] by (subst md_loop.simps) simp
next
  case (Suc d)
  then have "j < n" by simp
  have i: "int (s * j) + int s = int (s * Suc j)" by (simp add: algebra_simps)
  have le: "s * Suc j \<le> s * n" using \<open>j < n\<close> by (intro mult_le_mono2) simp
  show ?case
  proof (cases "2 ^ 31 \<le> s * Suc j")
    case True
    then have "2 ^ 31 \<le> int (s * j) + int s" unfolding i by (simp del: of_nat_mult mult_Suc_right)
    then show ?thesis
      using le_trans [OF True le] assms(1) assms(2) [of j] \<open>j < n\<close>
      by (subst md_loop.simps) (simp del: of_nat_mult mult_Suc_right)
  next
    case False
    have ih: "case md_loop m count (int s) (int (s * Suc j)) a' q' of
        None \<Rightarrow> 2 ^ 31 \<le> s * n | Some (items, i, a', q') \<Rightarrow> i = int (s * n)" for a' q'
      using False Suc.hyps(1) [of "Suc j"] Suc.hyps(2) \<open>j < n\<close> by (simp del: of_nat_mult mult_Suc_right)
    have "\<not> 2 ^ 31 \<le> int (s * Suc j)" using False by (simp del: of_nat_mult mult_Suc_right)
    moreover have "0 < int s" "int (s * j) < count" using assms(1) assms(2) [of j] \<open>j < n\<close> by simp_all
    ultimately obtain g a' q' where "md_loop m count (int s) (int (s * j)) a q =
        map_option (\<lambda>(rest, fin). (g rest, fin)) (md_loop m count (int s) (int (s * Suc j)) a' q')"
      using md_loop_step [of "int (s * j)" count "int s" m a q] unfolding i by blast
    then show ?thesis using ih [of a' q'] by (auto split: option.splits simp del: of_nat_mult mult_Suc_right)
  qed
qed

lemma md_words_pos: "count \<le> 0 \<Longrightarrow> md_words count sz = 0"
proof -
  assume "count \<le> 0"
  obtain s where s: "word_size sz = int s" "s = 1 \<or> s = 2 \<or> s = 4" by (rule word_size_nat)
  show ?thesis using md_words_bound [OF s, of 0 count] \<open>count \<le> 0\<close> by simp
qed

lemma md_returns: "md m address count sz = None \<longleftrightarrow> \<not> md_fits count sz"
proof -
  obtain s where s: "word_size sz = int s" "s = 1 \<or> s = 2 \<or> s = 4" by (rule word_size_nat)
  let ?n = "md_words count sz"
  have "0 < s" using s(2) by auto
  note loop = md_loop_returns [OF this md_words_bound [OF s], of 0 count m address address, simplified]
  have zero: "s * ?n = 0" if "count \<le> 0" using md_words_pos [OF that] by simp
  show ?thesis
  proof (cases "md_loop m count (int s) 0 address address")
    case None
    then show ?thesis using loop zero by (auto simp: md_def s(1) md_fits_def)
  next
    case (Some r)
    then obtain items a q where "md_loop m count (int s) 0 address address = Some (items, int (s * ?n), a, q)"
      using loop by (cases r) auto
    moreover have "2 ^ 31 \<le> int (s * ?n) + 15 \<longleftrightarrow> \<not> s * ?n + 15 < 2 ^ 31" by (auto simp del: of_nat_mult)
    ultimately show ?thesis by (auto simp: md_def s(1) md_fits_def Let_def simp del: of_nat_mult)
  qed
qed

lemma md_shows:
  fixes address :: u32
  assumes "unat address + nat (word_size sz) * md_words count sz < 2 ^ 32" "md_fits count sz"
  shows "\<exists>items. md m address count sz = Some items \<and>
         vals items =
           map (\<lambda>k. ld m (address + word_of_nat (nat (word_size sz) * k)) (nat (word_size sz))) [0..<md_words count sz] \<and>
         addrs items =
           map (\<lambda>k. address + word_of_nat (16 * k)) [0..<(nat (word_size sz) * md_words count sz + 15) div 16] \<and>
         chars items =
           map (\<lambda>k. shown (m (address + word_of_nat k))) [0..<nat (word_size sz) * md_words count sz]"
proof -
  obtain s where s: "word_size sz = int s" "s = 1 \<or> s = 2 \<or> s = 4" by (rule word_size_nat)
  let ?n = "md_words count sz"
  have room: "unat address + s * ?n < 2 ^ 32" using assms(1) by (simp add: s(1))
  have "s * ?n < 2 ^ 31" using assms(2) md_words_pos [of count sz] by (auto simp: md_fits_def s(1))
  then obtain items i a q where loop: "md_loop m count (int s) 0 address address = Some (items, i, a, q)"
    and "md_done m address s 0 ?n (items, i, a, q)"
    using md_loop_done [OF s(2) room md_words_bound [OF s], of 0 m] by (auto simp: row_start_def)
  moreover have "dumpchars m (address + word_of_nat (row_start (s * ?n))) (address + word_of_nat (s * ?n)) =
      map (\<lambda>k. shown (m (address + word_of_nat k))) [row_start (s * ?n)..<s * ?n]"
    by (rule dumpchars_range [OF room row_start_le])
  moreover have "[0..<s * ?n] = [0..<row_start (s * ?n)] @ [row_start (s * ?n)..<s * ?n]"
    using row_start_le by (intro upt_split) auto
  moreover have "?n = 0" if "\<not> 0 < count" using md_words_pos [of count sz] that by simp
  moreover have "md m address count sz \<noteq> None" using assms(2) md_returns by blast
  ultimately show ?thesis
    by (auto simp: md_def s(1) Let_def md_done_def row_start_def split: if_splits)
qed

text \<open>C30: The dump shows the memory. For a range that does not wrap around and whose end the \<open>int\<close> variables can
  count, \<open>md\<close> returns; it prints the words at consecutive addresses, a line for every sixteen bytes headed by its
  address, and in the text columns every byte once and in order, a dot for each that is not printable. The
  number of words is the byte count divided by the word size, rounded up: whole words are shown, so up to three
  bytes more than the \<open>count\<close> bytes of the help text are read. A count too close to the largest \<open>int\<close> overflows
  the variable \<open>i\<close>, and then no result is defined.\<close>
theorem md_correct:
  fixes address :: u32
  assumes "unat address + nat (word_size sz) * md_words count sz < 2 ^ 32"
  shows "if md_fits count sz
    then \<exists>items. md m address count sz = Some items \<and>
         vals items =
           map (\<lambda>k. ld m (address + word_of_nat (nat (word_size sz) * k)) (nat (word_size sz))) [0..<md_words count sz] \<and>
         addrs items =
           map (\<lambda>k. address + word_of_nat (16 * k)) [0..<(nat (word_size sz) * md_words count sz + 15) div 16] \<and>
         chars items =
           map (\<lambda>k. shown (m (address + word_of_nat k))) [0..<nat (word_size sz) * md_words count sz]
    else md m address count sz = None"
  using md_shows [OF assms] md_returns by simp

section \<open>What the editor stores\<close>

definition cut :: "nat \<Rightarrow> u32 \<Rightarrow> u32" where
  \<comment> \<open>the part of a value that a store of that size keeps\<close>
  "cut s v = (if s = 4 then v else if s = 2 then ucast (ucast v :: u16) else ucast (ucast v :: u8))"

fun stores :: "u32 \<Rightarrow> nat \<Rightarrow> u32 list \<Rightarrow> bytes \<Rightarrow> bytes" where
  "stores a s [] m = m"
| "stores a s (v # vs) m = stores (a + word_of_nat s) s vs (st a s v m)"

lemma ld_st: "s = 1 \<or> s = 2 \<or> s = 4 \<Longrightarrow> ld (st a s v m) a s = cut s v"
  using be32_bytes32 [of v] be16_bytes16 [of "ucast v"] by (auto simp: ld_def st_def cut_def)

lemma st_outside:
  assumes "s = 1 \<or> s = 2 \<or> s = 4" "unat a + s < 2 ^ 32" "unat b < unat a \<or> unat a + s \<le> unat b"
  shows "st a s v m b = m b"
proof -
  have "b \<noteq> a + word_of_nat k" if "k < s" for k
    using assms(2,3) that unat_plus_nat [of a k] by auto
  from this [of 0] this [of 1] this [of 2] this [of 3] assms(1) show ?thesis by (auto simp: st_def)
qed

lemma stores_outside:
  assumes "s = 1 \<or> s = 2 \<or> s = 4" "unat a + s * length vs < 2 ^ 32"
    and "unat b < unat a \<or> unat a + s * length vs \<le> unat b"
  shows "stores a s vs m b = m b"
  using assms(2,3)
proof (induction vs arbitrary: a m)
  case Nil
  then show ?case by simp
next
  case (Cons v vs)
  then have a: "unat (a + word_of_nat s) = unat a + s" by (intro unat_plus_nat) simp
  with Cons.prems have "stores (a + word_of_nat s) s vs (st a s v m) b = st a s v m b" by (intro Cons.IH) auto
  moreover have "st a s v m b = m b" using Cons.prems by (intro st_outside [OF assms(1)]) auto
  ultimately show ?case by simp
qed

lemma ld_same:
  assumes "s = 1 \<or> s = 2 \<or> s = 4" "unat a + s < 2 ^ 32"
    and "\<And>b. unat a \<le> unat b \<Longrightarrow> unat b < unat a + s \<Longrightarrow> m' b = m b"
  shows "ld m' a s = ld m a s"
proof -
  have "m' (a + word_of_nat k) = m (a + word_of_nat k)" if "k < s" for k
    using assms(2) that by (intro assms(3)) (simp_all add: unat_plus_nat)
  from this [of 0] this [of 1] this [of 2] this [of 3] assms(1) show ?thesis by (auto simp: ld_def)
qed

lemma ld_stores:
  assumes "s = 1 \<or> s = 2 \<or> s = 4" "unat a + s * length vs < 2 ^ 32" "k < length vs"
  shows "ld (stores a s vs m) (a + word_of_nat (s * k)) s = cut s (vs ! k)"
  using assms(2,3)
proof (induction vs arbitrary: a m k)
  case Nil
  then show ?case by simp
next
  case (Cons v vs)
  then have a: "unat (a + word_of_nat s) = unat a + s" by (intro unat_plus_nat) simp
  show ?case
  proof (cases k)
    case 0
    have "ld (stores (a + word_of_nat s) s vs (st a s v m)) a s = ld (st a s v m) a s"
      using Cons.prems a by (intro ld_same [OF assms(1)] stores_outside [OF assms(1)]) auto
    with 0 ld_st [OF assms(1)] show ?thesis by simp
  next
    case (Suc j)
    have "ld (stores (a + word_of_nat s) s vs (st a s v m)) (a + word_of_nat s + word_of_nat (s * j)) s = cut s (vs ! j)"
      using Cons.prems a Suc by (intro Cons.IH) auto
    with Suc show ?thesis by (simp add: algebra_simps)
  qed
qed

definition enters :: "string \<Rightarrow> u32 \<Rightarrow> bool" where
  \<comment> \<open>a line that the editor takes as a value\<close>
  "enters l v \<longleftrightarrow> l \<noteq> [] \<and> hd l \<noteq> CHR ''.'' \<and> fst (strtoul l) = v \<and> 0 < snd (strtoul l)"

lemma mm_loop_enters:
  assumes "list_all2 enters ls vs"
  shows "mm_loop buf (int s) a m (map Some ls @ rest) =
    mm_loop (last (buf # ls)) (int s) (a + word_of_nat (s * length vs)) (stores a s vs m) rest"
  using assms
proof (induction ls vs arbitrary: buf a m rule: list_all2_induct)
  case Nil
  then show ?case by simp
next
  case (Cons l ls v vs)
  from Cons.hyps(1) show ?case
    by (simp add: enters_def mm_line_def split_beta Let_def Cons.IH algebra_simps)
qed

text \<open>C29: Values typed into the editor are what the dump shows. After lines that are numbers and a
  closing dot, \<open>mm\<close> has returned, \<open>md\<close> of the range returns, for a range an \<open>int\<close> can count, and shows the numbers typed, cut to the word size, and no
  byte outside the range has changed.\<close>

theorem mm_md_roundtrip:
  fixes address :: u32
  assumes "list_all2 enters ls vs" "unat address + nat (word_size sz) * length vs < 2 ^ 32"
    and "nat (word_size sz) * length vs + 15 < 2 ^ 31"
  shows "\<exists>a' m' items. mm buf0 m address sz (map Some ls @ [Some ''.'']) = Inr (a', m') \<and>
    md m' address (word_size sz * int (length vs)) sz = Some items \<and> vals items = map (cut (nat (word_size sz))) vs \<and>
    (\<forall>b. unat b < unat address \<or> unat address + nat (word_size sz) * length vs \<le> unat b \<longrightarrow> m' b = m b)"
proof -
  obtain s where s: "word_size sz = int s" "s = 1 \<or> s = 2 \<or> s = 4" by (rule word_size_nat)
  let ?m = "stores address s vs m"
  have room: "unat address + s * length vs < 2 ^ 32" using assms(2) by (simp add: s(1))
  have dot: "strtoul ''.'' = (0, 0)" by code_simp
  have run: "mm buf0 m address sz (map Some ls @ [Some ''.'']) = Inr (address + word_of_nat (s * length vs), ?m)"
    by (simp add: mm_def s(1) mm_loop_enters [OF assms(1)] mm_line_def dot)
  have words: "md_words (int s * int (length vs)) sz = length vs"
    using s by (auto simp: md_words_def)
  then have fits: "md_fits (int s * int (length vs)) sz" using assms(3) by (simp add: md_fits_def s(1))
  have "map (\<lambda>k. ld ?m (address + word_of_nat (s * k)) s) [0..<length vs] = map (cut s) vs"
    using ld_stores [OF s(2) room] by (intro nth_equalityI) simp_all
  then obtain items where "md ?m address (int s * int (length vs)) sz = Some items" "vals items = map (cut s) vs"
    using md_shows [of address sz "int s * int (length vs)" ?m] room words fits by (auto simp: s(1))
  then show ?thesis
    using run stores_outside [OF s(2) room, of _ m] unfolding s(1) nat_int by blast
qed

text \<open>The end of the input does not end the editor: \<open>fgets\<close> leaves the last line in the buffer, so a
  number typed before it is stored again and again, into as many words as there are passes, and the editor
  has not returned after any number of them.\<close>

theorem mm_eof_overwrites:
  assumes "enters l v"
  shows "\<exists>a'. mm buf0 m address sz (Some l # replicate n None) =
    Inl (a', stores address (nat (word_size sz)) (replicate (Suc n) v) m)"
proof -
  obtain s where s: "word_size sz = int s" "s = 1 \<or> s = 2 \<or> s = 4" by (rule word_size_nat)
  have eof: "\<exists>a'. mm_loop l (int s) a m (replicate n None) = Inl (a', stores a s (replicate n v) m)" for a m n
    using assms by (induction n arbitrary: a m) (simp_all add: enters_def mm_line_def split_beta Let_def)
  show ?thesis
    using assms eof [of "address + word_of_nat s" "st address s v m" n]
    by (simp add: mm_def s(1) enters_def mm_line_def split_beta Let_def)
qed

section \<open>The image\<close>

lemma unat_pow2: "k < 32 \<Longrightarrow> unat (2 ^ k :: u32) = 2 ^ k"
  using unat_plus_nat [of 0 "2 ^ k"] power_strict_increasing [of k 32 "2 :: nat"] by simp

lemma round_up_pow2:
  assumes "k \<le> 31" "unat sz \<le> 2 ^ 31"
  shows "\<exists>j. k \<le> j \<and> j \<le> 31 \<and> round_up (2 ^ k) sz = Some (2 ^ j) \<and> unat sz \<le> 2 ^ j \<and> (j = k \<or> 2 ^ j < 2 * unat sz)"
  using assms(1)
proof (induction "31 - k" arbitrary: k)
  case 0
  then have "k = 31" by simp
  then show ?case using assms(2)
    by (intro exI [of _ 31]) (simp add: round_up.simps [of "2 ^ 31"] word_less_nat_alt unat_pow2 del: power_numeral)
next
  case (Suc d)
  then have k: "k < 31" by simp
  show ?case
  proof (cases "unat sz \<le> 2 ^ k")
    case True
    with k show ?thesis by (intro exI [of _ k]) (simp add: round_up.simps [of "2 ^ k"] word_less_nat_alt unat_pow2)
  next
    case False
    with k have "round_up (2 ^ k) sz = round_up (2 ^ Suc k) sz"
      by (simp add: round_up.simps [of "2 ^ k"] word_less_nat_alt unat_pow2 push_bit_eq_mult mult.commute)
    moreover have "d = 31 - Suc k" "Suc k \<le> 31" using Suc.hyps(2) k by simp_all
    from Suc.hyps(1) [OF this] obtain j where "Suc k \<le> j" "j \<le> 31" "round_up (2 ^ Suc k) sz = Some (2 ^ j)"
      "unat sz \<le> 2 ^ j" "j = Suc k \<or> 2 ^ j < 2 * unat sz" by blast
    ultimately show ?thesis using False by (intro exI [of _ j]) auto
  qed
qed

lemma round_up_0: "round_up 0 sz = None" if "0 < sz"
proof -
  have "\<not> (a = 0 \<and> 0 < b)" if "round_up a b = Some r" for a b r
    using that
  proof (rule round_up.raw_induct [rotated])
    fix f a b r
    assume ih: "\<And>a b r. f a b = Some r \<Longrightarrow> \<not> (a = (0 :: u32) \<and> 0 < (b :: u32))"
      and body: "(if a < b then f (push_bit 1 a) b else Some a) = Some (r :: u32)"
    show "\<not> (a = 0 \<and> 0 < b)" using ih [of 0 b r] body by auto
  qed
  with \<open>0 < sz\<close> show ?thesis by (cases "round_up 0 sz") auto
qed

lemma wrap32: "(4294967296 :: u32) = 0"
  by simp

lemma round_up_none:
  assumes "k \<le> 31" "2 ^ 31 < unat sz"
  shows "round_up (2 ^ k) sz = None"
  using assms(1)
proof (induction "31 - k" arbitrary: k)
  case 0
  then have "round_up (2 ^ k) sz = round_up 0 sz"
    using assms(2) by (subst round_up.simps) (simp add: word_less_nat_alt wrap32)
  moreover have "0 < sz" using assms(2) by (simp add: word_less_nat_alt)
  ultimately show ?case by (simp add: round_up_0)
next
  case (Suc d)
  then have "(2 :: nat) ^ k < 2 ^ 31" by (intro power_strict_increasing) auto
  then have "round_up (2 ^ k) sz = round_up (2 ^ Suc k) sz"
    using Suc assms(2) by (subst round_up.simps) (simp add: word_less_nat_alt unat_pow2 push_bit_eq_mult mult.commute)
  moreover have "d = 31 - Suc k" "Suc k \<le> 31" using Suc.hyps(2) by simp_all
  ultimately show ?case using Suc.hyps(1) [of "Suc k"] by metis
qed

lemma block_append: "block m a (i + j) = block m a i @ block m (a + word_of_nat i) j"
proof -
  have "[0..<i + j] = [0..<i] @ map (\<lambda>k. k + i) [0..<j]"
    by (subst upt_add_eq_append) (simp_all add: map_add_upt add.commute)
  then show ?thesis by (simp add: block_def ac_simps)
qed

function after :: "nat \<Rightarrow> int list \<Rightarrow> int list option" where
  \<comment> \<open>\<open>write\<close> accepts \<open>n\<close> bytes, some in each call: the results that are left\<close>
  "after n ws =
     (if n = 0 then Some ws
      else case ws of [] \<Rightarrow> None | w # ws \<Rightarrow> if 0 < w \<and> w \<le> int n then after (n - nat w) ws else None)"
  by pat_completeness auto
termination
  by (relation "measure fst") auto

declare after.simps [simp del]

lemma doWrite_loop_complete:
  assumes "after n ws = Some ws'" "n = unat len"
  shows "doWrite_loop m start here len ws = Some (sint (here + len - start), block m here n, ws')"
  using assms
proof (induction n ws arbitrary: here len rule: after.induct)
  case (1 n ws)
  show ?case
  proof (cases "n = 0")
    case True
    with "1.prems" show ?thesis by (simp add: after.simps doWrite_loop.simps block_def unsigned_eq_0_iff)
  next
    case False
    with "1.prems"(1) obtain w vs where ws: "ws = w # vs" "0 < w" "w \<le> int n" "after (n - nat w) vs = Some ws'"
      by (auto simp: after.simps [of n] split: list.splits if_splits)
    have w: "word_of_int w = (word_of_nat (nat w) :: u32)" using ws(2) by simp
    have len: "unat (len - word_of_int w) = n - nat w"
    proof -
      have "unat (0 + word_of_nat (nat w) :: u32) = unat (0 :: u32) + nat w"
        using ws(2,3) "1.prems"(2) uint_u32_bounds(2) [of len] by (intro unat_plus_nat) auto
      then have "unat (word_of_int w :: u32) = nat w" by (simp only: w add_0 unat_0)
      moreover have "nat w \<le> n" using ws(3) by simp
      moreover from calculation have "word_of_int w \<le> len" using "1.prems"(2) by (simp add: word_le_nat_alt)
      ultimately show ?thesis using "1.prems"(2) unat_sub [of "word_of_int w" len] by simp
    qed
    have ih: "doWrite_loop m start (here + word_of_int w) (len - word_of_int w) vs =
        Some (sint (here + len - start), block m (here + word_of_int w) (n - nat w), ws')"
      using "1.IH" [OF False ws(1) _ ws(4), of "len - word_of_int w" "here + word_of_int w"] ws(2,3) len by simp
    have "block m here (nat w) @ block m (here + word_of_int w) (n - nat w) = block m here n"
      using block_append [of m here "nat w" "n - nat w"] ws(2,3) by simp
    moreover have "len \<noteq> 0" using False "1.prems"(2) by auto
    ultimately show ?thesis using ws(2) ih by (simp add: doWrite_loop.simps [of m start here len] ws(1))
  qed
qed

lemma bytes32_be32: "bytes32 (be32 a b c d) = [a, b, c, d]"
proof -
  have "ucast (drop_bit 24 (be32 a b c d)) = a" "ucast (drop_bit 16 (be32 a b c d)) = b"
    "ucast (drop_bit 8 (be32 a b c d)) = c" "ucast (be32 a b c d) = d"
    by (rule bit_word_eqI, auto simp: be32_def bit_simps dest: bit_imp_le_length)+
  then show ?thesis by (simp add: bytes32_def)
qed

lemma block_ld: "block m a 4 = bytes32 (ld m a 4)"
  by (simp add: ld_def bytes32_be32 block_def upt_rec)

lemma pow2_unique:
  assumes "n \<le> 2 ^ j" "(2 :: nat) ^ j < 2 * n" "n \<le> 2 ^ k" "(2 :: nat) ^ k < 2 * n"
  shows "j = k"
proof (rule ccontr)
  assume "j \<noteq> k"
  then have "Suc j \<le> k \<or> Suc k \<le> j" by auto
  then have "(2 :: nat) ^ Suc j \<le> 2 ^ k \<or> (2 :: nat) ^ Suc k \<le> 2 ^ j" by (auto intro: power_increasing simp del: power_Suc)
  with assms show False by auto
qed

lemma round_up_1:
  assumes "unat sz \<le> 2 ^ 31" "1 < unat sz" "unat sz \<le> 2 ^ k" "2 ^ k < 2 * unat sz"
  shows "round_up 1 sz = Some (2 ^ k) \<and> k \<le> 31"
proof -
  obtain j where j: "j \<le> 31" "round_up (2 ^ 0) sz = Some (2 ^ j)" "unat sz \<le> 2 ^ j" "j = 0 \<or> 2 ^ j < 2 * unat sz"
    using round_up_pow2 [OF _ assms(1), of 0] by auto
  with assms(2) have "2 ^ j < 2 * unat sz" by auto
  with j assms pow2_unique [of "unat sz" j k] show ?thesis by simp
qed

lemma sint_small: "n < 2 ^ 31 \<Longrightarrow> sint (word_of_nat n :: u32) = int n"
  by (simp add: signed_of_nat signed_take_bit_int_eq_self)

text \<open>C34: The image file holds the memory. For a size of at least four bytes and at most half the
  address space, however \<open>write\<close> splits its work, \<open>coredump\<close> writes the bytes from \<open>start\<close>, as many as
  the next power of two, closes the file and returns the number. The word at \<open>start\<close> goes out through a
  local variable, which must lie elsewhere.\<close>

theorem coredump_image:
  fixes start va :: u32
  assumes "4 \<le> unat sz" "unat sz \<le> 2 ^ 31" "unat sz \<le> 2 ^ k" "2 ^ k < 2 * unat sz"
    and "0 \<le> opn (\<not> forceWrite)" "unat va + 4 < 2 ^ 32" "unat start + 4 < 2 ^ 32"
    and "unat start + 4 \<le> unat va \<or> unat va + 4 \<le> unat start"
    and "after 4 ws = Some ws1" "after (2 ^ k - 4) ws1 = Some ws2"
  shows "coredump va opn bsp m start sz forceWrite ws =
    Some (2 ^ k, block (st va 4 (ld m start 4) m) start (2 ^ k), Some (opn (\<not> forceWrite)))"
proof -
  let ?m = "st va 4 (ld m start 4) m"
  have k: "round_up 1 sz = Some (2 ^ k)" "k \<le> 31" using round_up_1 [of sz k] assms(1-4) by auto
  have four: "4 \<le> (2 :: nat) ^ k" using assms(1,3) by linarith
  have small: "(2 :: nat) ^ k \<le> 2 ^ 31" using k(2) power_increasing [of k 31 "2 :: nat"] by simp
  have len: "unat (2 ^ k - 4 :: u32) = 2 ^ k - 4"
    using four k(2) unat_sub [of 4 "2 ^ k :: u32"] by (simp add: word_le_nat_alt unat_pow2)
  have "doWrite ?m va 4 ws = Some (4, block ?m va 4, ws1)"
    using doWrite_loop_complete [OF assms(9), of 4 ?m va va] sint_small [of 4] by (simp add: doWrite_def)
  moreover have "sint (2 ^ k - 4 :: u32) = int (2 ^ k - 4)"
    using sint_small [of "2 ^ k - 4"] four small by (simp add: of_nat_diff)
  then have "doWrite ?m (start + 4) (2 ^ k - 4) ws1 = Some (int (2 ^ k - 4), block ?m (start + 4) (2 ^ k - 4), ws2)"
    using doWrite_loop_complete [OF assms(10) len [symmetric], of ?m "start + 4" "start + 4"] by (simp add: doWrite_def)
  moreover have "ld ?m start 4 = ld m start 4"
    using assms(6-8) by (intro ld_same) (auto intro!: st_outside)
  then have "block ?m va 4 = block ?m start 4" by (simp add: block_ld ld_st cut_def)
  moreover have "block ?m start 4 @ block ?m (start + 4) (2 ^ k - 4) = block ?m start (2 ^ k)"
    using block_append [of ?m start 4 "2 ^ k - 4"] four by simp
  moreover have "sz \<noteq> 0" using assms(1) by auto
  ultimately show ?thesis
    using k assms(5) by (simp add: coredump_def Let_def)
qed

text \<open>A size above half the address space hangs \<open>coredump\<close>: the loop that rounds it up doubles
  \<open>mem_size\<close> until it is zero and then never ends.\<close>

theorem coredump_hangs:
  assumes "2 ^ 31 < unat sz" "0 \<le> opn (\<not> forceWrite)"
  shows "round_up 1 sz = None \<and> coredump va opn bsp m start sz forceWrite ws = None"
proof -
  have "sz \<noteq> 0" using assms(1) by auto
  with round_up_none [of 0 sz] assms show ?thesis by (auto simp: coredump_def)
qed

text \<open>For each of the twelve block lengths the architecture defines, \<open>pbat\<close> names the size,
  prints a mask that covers exactly a block of that size, and the addresses it prints are multiples
  of 128 kB.\<close>

theorem pbat_block:
  assumes "bat \<le> 3" "k \<le> 11" "regs dbat bat = (u, l)" "drop_bit 2 (u AND (2 ^ 13 - 1)) = 2 ^ k - 1"
  shows "\<exists>info. pbat regs bat dbat = Some info \<and> bl_mask info = - (2 ^ (17 + k)) \<and>
    szstr info = [''128k'', ''256k'', ''512k'', ''1M'', ''2M'', ''4M'', ''8M'', ''16M'', ''32M'', ''64M'', ''128M'', ''256M''] ! k \<and>
    bepi info AND (2 ^ 17 - 1) = 0 \<and> brpn info AND (2 ^ 17 - 1) = 0"
proof -
  have "k \<in> set [0..<12]" using assms(2) by simp
  then have "push_bit 17 (NOT (2 ^ k - 1)) = (- (2 ^ (17 + k)) :: u32) \<and>
      bat_size (2 ^ k - 1) = [''128k'', ''256k'', ''512k'', ''1M'', ''2M'', ''4M'', ''8M'', ''16M'', ''32M'', ''64M'', ''128M'', ''256M''] ! k"
    unfolding bat_size_def by (simp add: upt_rec) (elim disjE; simp add: mask_eq_exp_minus_1)
  moreover have "(w AND - 131072) AND 131071 = 0" for w :: u32 by (simp add: and.assoc)
  ultimately show ?thesis
    using assms(1) unfolding pbat_def assms(3) Let_def prod.case assms(4) by simp
qed

section \<open>Witnesses\<close>

definition sample_mem :: bytes where
  "sample_mem a = ucast a"

theorem md_correct_witness:
  "unat (0x1000 :: u32) + nat (word_size 4) * md_words 18 4 < 2 ^ 32 \<and> md_fits 18 4 \<and>
   (\<exists>items. md sample_mem 0x1000 18 4 = Some items \<and>
     vals items = map (\<lambda>k. ld sample_mem (0x1000 + word_of_nat (4 * k)) 4) [0..<5] \<and>
     addrs items = [0x1000, 0x1010] \<and>
     chars items = map (\<lambda>k. shown (sample_mem (0x1000 + word_of_nat k))) [0..<20]) \<and>
   md sample_mem 0x1000 0x7fffffff 4 = None"
proof -
  have n: "md_words 18 4 = 5" "md_words 0x7fffffff 4 = 2 ^ 29" "nat (word_size 4) = 4" by (simp_all add: word_size_def md_words_def)
  then have "md_fits 18 4" "\<not> md_fits 0x7fffffff 4" by (simp_all add: md_fits_def)
  then show ?thesis
    using md_correct [of "0x1000" 4 18 sample_mem] md_correct [of "0x1000" 4 "0x7fffffff" sample_mem] n by (simp add: upt_rec)
qed

lemma enters_sample: "enters ''0x2a'' 42" "enters ''7'' 7"
  by (simp_all add: enters_def strtoul_def isspace_def sign_def digit_val_def Let_def)

theorem mm_md_roundtrip_witness:
  "\<exists>a' m' items. mm [] sample_mem 0x1000 4 (map Some [''0x2a'', ''7''] @ [Some ''.'']) = Inr (a', m') \<and>
    md m' 0x1000 (word_size 4 * int (length [42, 7 :: u32])) 4 = Some items \<and> vals items = map (cut (nat (word_size 4))) [42, 7] \<and>
    (\<forall>b. unat b < unat (0x1000 :: u32) \<or> unat (0x1000 :: u32) + nat (word_size 4) * length [42, 7 :: u32] \<le> unat b \<longrightarrow>
       m' b = sample_mem b)"
  by (rule mm_md_roundtrip) (simp_all add: enters_sample word_size_def)

theorem mm_eof_overwrites_witness:
  "\<exists>a'. mm [] sample_mem 0x1000 1 (Some ''7'' # replicate 20 None) =
    Inl (a', stores 0x1000 (nat (word_size 1)) (replicate (Suc 20) 7) sample_mem)"
  by (rule mm_eof_overwrites) (rule enters_sample)

theorem coredump_image_witness:
  "coredump 0x8000 (\<lambda>_. 3) 0 sample_mem 0x1000 7 True [1, 3, 2, 2] =
    Some (2 ^ 3, block (st 0x8000 4 (ld sample_mem 0x1000 4) sample_mem) 0x1000 (2 ^ 3), Some 3)"
  by (rule coredump_image [where ?ws1.0 = "[2, 2]" and ?ws2.0 = "[]"]) (simp_all add: after.simps)

theorem coredump_hangs_witness:
  "round_up 1 0x80000001 = None \<and> coredump 0x8000 (\<lambda>_. 3) 0 sample_mem 0 0x80000001 True [] = None"
  by (rule coredump_hangs) simp_all

theorem pbat_block_witness:
  "\<exists>info. pbat (\<lambda>_ _. (0x10001fff, 0x10000002)) 1 True = Some info \<and> bl_mask info = - (2 ^ (17 + 11)) \<and>
    szstr info = [''128k'', ''256k'', ''512k'', ''1M'', ''2M'', ''4M'', ''8M'', ''16M'', ''32M'', ''64M'', ''128M'', ''256M''] ! 11 \<and>
    bepi info AND (2 ^ 17 - 1) = 0 \<and> brpn info AND (2 ^ 17 - 1) = 0"
  by (rule pbat_block [where u = "0x10001fff" and l = "0x10000002"]) simp_all

end
