(* ===== verification/Digits.thy ===== *)
theory Digits
  imports Text
begin

text \<open>
  Numbers printed without leading zeros in a base up to 16, as the conversions \<open>%d\<close>, \<open>%o\<close> and \<open>%x\<close> of \<open>printf\<close>
  do, and that the digits read back are the number printed.
\<close>

fun base_chars :: "nat \<Rightarrow> nat \<Rightarrow> string" where
  "base_chars b n = (if b < 2 \<or> n < b then [hex_char n] else base_chars b (n div b) @ [hex_char (n mod b)])"

declare base_chars.simps [simp del]

definition dec :: "int \<Rightarrow> string" where
  \<comment> \<open>\<open>%d\<close> and \<open>%ld\<close>\<close>
  "dec i = (if i < 0 then CHR ''-'' # base_chars 10 (nat (- i)) else base_chars 10 (nat i))"

lemma base_chars_digit: "n < b \<Longrightarrow> base_chars b n = [hex_char n]"
  by (simp add: base_chars.simps)

lemma base_chars_ne [simp]: "base_chars b n \<noteq> []"
  by (simp add: base_chars.simps [of b n])

lemma digit_val_hex_char_base: "n < b \<Longrightarrow> b \<le> 16 \<Longrightarrow> digit_val b (hex_char n) = Some n"
  using digit_val_hex_char [of n] by (auto simp: digit_val_def Let_def split: if_splits option.splits)

lemma base_chars_digits:
  assumes "2 \<le> b" "b \<le> 16" "c \<in> set (base_chars b n)"
  shows "digit_val b c \<noteq> None"
  using assms
proof (induction b n rule: base_chars.induct)
  case (1 b n)
  then show ?case by (subst (asm) (2) base_chars.simps) (auto simp: digit_val_hex_char_base split: if_splits)
qed

lemma digits_base_chars:
  assumes "2 \<le> b" "b \<le> 16"
  shows "digits b (base_chars b n) 0 = (n, length (base_chars b n))"
  using assms
proof (induction b n rule: base_chars.induct)
  case (1 b n)
  show ?case
  proof (cases "n < b")
    case True
    with 1 show ?thesis by (simp add: base_chars_digit digit_val_hex_char_base)
  next
    case False
    with 1 have "digits b (base_chars b (n div b)) 0 = (n div b, length (base_chars b (n div b)))" by simp
    moreover have "\<forall>c \<in> set (base_chars b (n div b)). digit_val b c \<noteq> None" using 1(2,3) base_chars_digits by blast
    ultimately show ?thesis
      using 1(2,3) False by (simp add: base_chars.simps [of b n] digits_append digit_val_hex_char_base)
  qed
qed

lemma length_base_chars: "0 < k \<Longrightarrow> n < 10 ^ k \<Longrightarrow> length (base_chars 10 n) \<le> k"
proof (induction k arbitrary: n)
  case (Suc k)
  show ?case
  proof (cases "n < 10")
    case False
    then have "n div 10 < 10 ^ k" "0 < k" using Suc.prems by (cases k; simp add: less_mult_imp_div_less mult.commute)+
    with Suc.IH [of "n div 10"] False show ?thesis by (simp add: base_chars.simps [of 10 n])
  qed (simp add: base_chars_digit)
qed simp

end
