(* ===== verification/MemUtils_Main.thy ===== *)
theory MemUtils_Main
  imports MemUtils Digits
begin

unbundle bit_operations_syntax

text \<open>
  The interactive program around the memory display and the editor, \<open>MAIN\<close> of \<^verbatim>\<open>miscUtils/memUtils.c\<close> with its
  number reader. The standard input is a string whose end is final: \<open>getchar\<close> returns -1 from there on. In the
  number reader the current character \<open>*pc\<close> is the head of the string, and the empty string stands for -1.
  A call that never returns, or whose behaviour is undefined because a signed variable overflows, has the value
  \<open>None\<close>.
\<close>

section \<open>Numbers\<close>

definition toupper_code :: "int \<Rightarrow> int" where
  "toupper_code c = (if 97 \<le> c \<and> c \<le> 122 then c - 32 else c)"

definition code :: "string \<Rightarrow> int" where
  \<comment> \<open>the current character\<close>
  "code s = (case s of [] \<Rightarrow> -1 | c # _ \<Rightarrow> int (of_char c))"

definition valdig :: "int \<Rightarrow> string \<Rightarrow> int \<times> string" where
  "valdig base s =
     (let rval = code s - 48;
          rval = (if 0 \<le> rval \<and> 7 \<ge> rval then rval
                  else if 8 \<le> rval \<and> 9 \<ge> rval then (if base \<le> 8 then -1 else rval)
                  else if 16 = base then
                    (let rval = toupper_code (code s) - 65 in if 0 \<le> rval \<and> 5 \<ge> rval then rval + 10 else -1)
                  else -1) in
      (rval, if rval \<ge> 0 then tl s else s))"

lemma valdig_nonempty: "0 \<le> fst (valdig base s) \<Longrightarrow> s \<noteq> []"
  by (auto simp: valdig_def code_def toupper_code_def Let_def split: if_splits)

function getn_digits :: "int \<Rightarrow> u32 \<Rightarrow> string \<Rightarrow> u32 \<times> string" where
  \<comment> \<open>the digits that follow; \<open>*pn\<close> wraps around at 32 bits\<close>
  "getn_digits base n s =
     (let (dig, s') = valdig base s in
      if dig \<ge> 0 then getn_digits base (n * word_of_int base + word_of_int dig) s' else (n, s'))"
  by pat_completeness auto
termination
proof (relation "measure (\<lambda>(base, n, s). length s)", goal_cases)
  case (2 base n s x dig s')
  then have "0 \<le> fst (valdig base s)" "s' = tl s" by (auto simp: valdig_def Let_def split: if_splits)
  with valdig_nonempty [of base s] show ?case by (simp add: length_tl)
qed simp

declare getn_digits.simps [simp del]

definition getn :: "string \<Rightarrow> bool \<times> u32 \<times> string" where
  \<comment> \<open>whether a number was read (the source returns 0 then and -1 otherwise), \<open>*pn\<close> and the input left\<close>
  "getn s =
     (let s = dropWhile (\<lambda>c. c = CHR '' '' \<or> c = CHR 0x09) s in
      if 48 \<le> code s \<and> code s \<le> 57 then
        (let (base, s) =
               (if code s = 48 then
                  (let s = tl s in
                   if code s = 120 \<or> code s = 88 then (16, tl s)
                   else if 48 \<le> code s \<and> code s \<le> 55 then (8, s) else (10, s))
                else (10, s));
             (dig, s) = valdig base s in
         if dig \<ge> 0 then (let (n, s) = getn_digits base (word_of_int dig) s in (True, n, s))
         else (False, 0, s))
      else (False, 0, s))"

section \<open>Reading lines in the editor\<close>

definition fgets :: "string \<Rightarrow> string \<times> string" where
  \<comment> \<open>\<open>fgets(buf, LBSZ, stdin)\<close> when the input is not at its end\<close>
  "fgets s =
     (let k = length (takeWhile (\<lambda>c. c \<noteq> CHR 0x0A) s); n = min (LBSZ - 1) (Suc k) in (take n s, drop n s))"

function mm_stdin :: "string \<Rightarrow> int \<Rightarrow> u32 \<Rightarrow> bytes \<Rightarrow> string \<Rightarrow> (bytes \<times> string) option" where
  \<comment> \<open>the loop of \<open>mm\<close> on the standard input; at its end the buffer keeps the last line, and the loop ends there
      or never\<close>
  "mm_stdin buf sz address m s =
     (if s = [] then
        (if buf \<noteq> [] \<and> hd buf \<noteq> CHR ''.'' then None
         else (case mm_line buf sz address m of (_, _, m) \<Rightarrow> Some (m, [])))
      else
        (let (buf, s') = fgets s; (sz, address, m) = mm_line buf sz address m in
         if buf \<noteq> [] \<and> hd buf \<noteq> CHR ''.'' then mm_stdin buf sz address m s' else Some (m, s')))"
  by pat_completeness auto
termination
  by (relation "measure (\<lambda>(buf, sz, address, m, s). length s)") (auto simp: fgets_def Let_def)

declare mm_stdin.simps [simp del]

section \<open>The program\<close>

datatype main_ev = Usage_m | Usage_d | Invalid | Edited u32 int | Dumped "md_item list"

definition norm_size :: "u32 \<Rightarrow> int" where
  \<comment> \<open>the switch on \<open>s\<close>\<close>
  "norm_size s = (if s = 1 \<or> s = 2 \<or> s = 4 then sint s else 4)"

definition skip_line :: "int \<Rightarrow> string \<Rightarrow> string option" where
  \<comment> \<open>\<open>while ( '\n' != ch ) ch = getchar();\<close> with current character \<open>ch\<close>: without a line feed it never ends\<close>
  "skip_line ch rest =
     (if ch = 10 then Some rest
      else (case dropWhile (\<lambda>c. c \<noteq> CHR 0x0A) rest of [] \<Rightarrow> None | _ # rest \<Rightarrow> Some rest))"

definition main_m :: "string \<Rightarrow> bytes \<Rightarrow> int \<Rightarrow> string \<Rightarrow> (main_ev list \<times> bytes \<times> int \<times> int \<times> string) option" where
  \<comment> \<open>case \<open>'m'\<close>: the events, memory, the variable \<open>s\<close>, the current character and the input behind it\<close>
  "main_m buf0 m s inp =
     (case getn inp of (ok, a, inp) \<Rightarrow>
        if \<not> ok then Some ([Usage_m], m, s, code inp, tl inp)
        else (case getn inp of (ok, s, inp) \<Rightarrow>
          let s = (if ok then norm_size s else 4) in
          map_option (\<lambda>(m, rest). ([Edited a s], m, s, code inp, rest))
            (mm_stdin buf0 (word_size s) a m (tl inp))))"

definition main_d :: "bytes \<Rightarrow> int \<Rightarrow> string \<Rightarrow> (main_ev list \<times> int \<times> int \<times> string) option" where
  \<comment> \<open>case \<open>'d'\<close>: without a count the size is not read and \<open>s\<close> stays as it was\<close>
  "main_d m s inp =
     (case getn inp of (ok, a, inp) \<Rightarrow>
        if \<not> ok then Some ([Usage_d], s, code inp, tl inp)
        else (case getn inp of (ok, c, inp) \<Rightarrow>
          if \<not> ok then map_option (\<lambda>d. ([Dumped d], s, code inp, tl inp)) (md m a 16 s)
          else (case getn inp of (ok, s, inp) \<Rightarrow>
            let s = (if ok then norm_size s else 4) in
            map_option (\<lambda>d. ([Dumped d], s, code inp, tl inp)) (md m a (sint c) s))))"

definition main_cmd :: "string \<Rightarrow> bytes \<Rightarrow> int \<Rightarrow> char \<Rightarrow> string \<Rightarrow> (main_ev list \<times> bytes \<times> int \<times> string) option" where
  \<comment> \<open>the switch on \<open>ch\<close>, except for \<open>'q'\<close>, and the rest of the line\<close>
  "main_cmd buf0 m s ch inp =
     Option.bind
       (if ch = CHR ''m'' then main_m buf0 m s inp
        else if ch = CHR ''d'' then map_option (\<lambda>(evs, s, c, rest). (evs, m, s, c, rest)) (main_d m s inp)
        else Some ([Invalid], m, s, int (of_char ch), inp))
       (\<lambda>(evs, m, s, c, rest). map_option (\<lambda>inp. (evs, m, s, inp)) (skip_line c rest))"

text \<open>What the number reader takes from the input never includes the end of a line.\<close>

definition past :: "string \<Rightarrow> string \<Rightarrow> bool" where
  "past s s' \<longleftrightarrow> (\<exists>p. s = p @ s' \<and> CHR 0x0A \<notin> set p)"

lemma past_refl [simp]: "past s s"
  by (auto simp: past_def)

lemma past_trans: "past s t \<Longrightarrow> past t u \<Longrightarrow> past s u"
  unfolding past_def by (metis append.assoc set_append UnE)

lemma past_length: "past s s' \<Longrightarrow> length s' \<le> length s"
  by (auto simp: past_def)

lemma past_tl: "code s \<noteq> 10 \<Longrightarrow> past s (tl s)"
  unfolding past_def by (cases s) (auto simp: code_def intro: exI [of _ "[hd s]"])

lemma past_dropWhile: "\<not> P (CHR 0x0A) \<Longrightarrow> past s (dropWhile P s)"
  unfolding past_def
  by (rule exI [of _ "takeWhile P s"]) (auto dest: set_takeWhileD)

lemma valdig_past: "past s (snd (valdig base s))"
  by (auto simp: valdig_def Let_def toupper_code_def intro: past_tl split: if_splits)

lemma getn_digits_past: "past s (snd (getn_digits base n s))"
proof (induction base n s rule: getn_digits.induct)
  case (1 base n s)
  obtain dig s' where d: "valdig base s = (dig, s')" by fastforce
  have "past s s'" using valdig_past [of s base] by (simp add: d)
  with 1 [of "(dig, s')" dig s'] d show ?case
    by (subst getn_digits.simps) (auto intro: past_trans)
qed

definition getn_base :: "string \<Rightarrow> int \<times> string" where
  "getn_base s =
     (if code s = 48 then
        (let s = tl s in
         if code s = 120 \<or> code s = 88 then (16, tl s)
         else if 48 \<le> code s \<and> code s \<le> 55 then (8, s) else (10, s))
      else (10, s))"

lemma getn_alt:
  "getn s =
     (let s = dropWhile (\<lambda>c. c = CHR '' '' \<or> c = CHR 0x09) s in
      if 48 \<le> code s \<and> code s \<le> 57 \<and> 0 \<le> fst (valdig (fst (getn_base s)) (snd (getn_base s)))
      then (True, getn_digits (fst (getn_base s)) 0 (snd (getn_base s)))
      else (False, 0, if 48 \<le> code s \<and> code s \<le> 57 then snd (getn_base s) else s))"
proof -
  have "getn_digits base 0 t = (case valdig base t of (d, t') \<Rightarrow> getn_digits base (word_of_int d) t')" if "0 \<le> fst (valdig base t)" for base t
    using that by (subst getn_digits.simps) (auto split: prod.splits)
  moreover have "snd (valdig base t) = t" if "\<not> 0 \<le> fst (valdig base t)" for base t
    using that by (auto simp: valdig_def Let_def)
  ultimately show ?thesis
    unfolding getn_def getn_base_def [symmetric] by (auto simp: Let_def split_beta prod_eq_iff)
qed

lemma getn_base_past: "past s (snd (getn_base s))"
proof (cases "code s = 48")
  case True
  then have "past s (tl s)" by (simp add: past_tl)
  moreover have "past (tl s) (tl (tl s))" if "code (tl s) = 120 \<or> code (tl s) = 88" using that by (auto intro: past_tl)
  ultimately show ?thesis using True by (auto simp: getn_base_def Let_def intro: past_trans)
qed (simp add: getn_base_def)

lemma getn_past: "getn s = (ok, n, s') \<Longrightarrow> past s s'"
proof -
  assume g: "getn s = (ok, n, s')"
  let ?s = "dropWhile (\<lambda>c. c = CHR '' '' \<or> c = CHR 0x09) s"
  have "past s ?s" by (rule past_dropWhile) simp
  moreover have "past ?s (snd (getn_base ?s))" by (rule getn_base_past)
  moreover have "past (snd (getn_base ?s)) (snd (getn_digits (fst (getn_base ?s)) 0 (snd (getn_base ?s))))" by (rule getn_digits_past)
  ultimately show ?thesis using g by (auto simp: getn_alt Let_def prod_eq_iff intro: past_trans split: if_splits)
qed

lemma getn_length: "getn s = (ok, n, s') \<Longrightarrow> length s' \<le> length s"
  by (rule past_length [OF getn_past])

lemma mm_stdin_suffix: "mm_stdin buf sz address m s = Some (m', s') \<Longrightarrow> \<exists>p. s = p @ s'"
proof (induction buf sz address m s rule: mm_stdin.induct)
  case (1 buf sz address m s)
  obtain b t where f: "fgets s = (b, t)" by fastforce
  then have t: "s = b @ t" by (auto simp: fgets_def Let_def)
  obtain sz' a' m1 where l: "mm_line b sz address m = (sz', a', m1)" by (metis prod_cases3)
  have "\<exists>p. t = p @ s'" if "s \<noteq> []" "b \<noteq> [] \<and> hd b \<noteq> CHR ''.''" "mm_stdin b sz' a' m1 t = Some (m', s')"
    using 1(1) [of "(b, t)" b t "(sz', a', m1)" sz' "(a', m1)" a' m1] f l that by simp
  with 1(2) f l t show ?case
    by (subst (asm) (1) mm_stdin.simps) (fastforce split: if_splits prod.splits)
qed

lemma mm_stdin_length: "mm_stdin buf sz address m s = Some (m', s') \<Longrightarrow> length s' \<le> length s"
  using mm_stdin_suffix by fastforce

lemma skip_line_length: "skip_line c rest = Some inp \<Longrightarrow> length inp \<le> length rest"
proof -
  assume s: "skip_line c rest = Some inp"
  have "length (dropWhile (\<lambda>c. c \<noteq> CHR 0x0A) rest) \<le> length rest" by (rule length_dropWhile_le)
  with s show ?thesis by (auto simp: skip_line_def split: if_splits list.splits)
qed

lemma main_m_length: "main_m buf0 m s inp = Some (evs, m', s', c, rest) \<Longrightarrow> length rest \<le> length inp"
  by (auto simp: main_m_def Let_def split: prod.splits if_splits dest!: getn_length mm_stdin_length)

lemma main_d_length: "main_d m s inp = Some (evs, s', c, rest) \<Longrightarrow> length rest \<le> length inp"
  by (auto simp: main_d_def Let_def split: prod.splits if_splits dest!: getn_length)

lemma main_cmd_length:
  assumes "main_cmd buf0 m s ch inp = Some (evs, m', s', inp')"
  shows "length inp' \<le> length inp"
  using assms main_m_length main_d_length skip_line_length
  by (fastforce simp: main_cmd_def bind_eq_Some_conv split: if_splits prod.splits)

function MAIN :: "string \<Rightarrow> bytes \<Rightarrow> int \<Rightarrow> string \<Rightarrow> (main_ev list \<times> bytes) option" where
  \<comment> \<open>\<open>buf0\<close> is what the uninitialised line buffer of \<open>mm\<close> holds, \<open>s\<close> the uninitialised size\<close>
  "MAIN buf0 m s [] = Some ([], m)"
| "MAIN buf0 m s (ch # inp) =
     (if ch = CHR ''q'' then Some ([], m)
      else case main_cmd buf0 m s ch inp of None \<Rightarrow> None
      | Some (evs, m, s, inp) \<Rightarrow> map_option (\<lambda>(es, m). (evs @ es, m)) (MAIN buf0 m s inp))"
  by pat_completeness auto
termination
  by (relation "measure (\<lambda>(buf0, m, s, inp). length inp)") (auto simp: le_imp_less_Suc dest!: main_cmd_length)

section \<open>Numbers read back\<close>

lemma valdig_digit_val:
  assumes "base = 8 \<or> base = 10 \<or> base = 16"
  shows "valdig (int base) (c # s) = (case digit_val base c of None \<Rightarrow> (-1, c # s) | Some d \<Rightarrow> (int d, s))"
proof -
  obtain n :: nat where n: "of_char c = n" by blast
  show ?thesis using assms unfolding valdig_def digit_val_def code_def toupper_code_def by (auto simp: n Let_def)
qed

lemma valdig_Nil: "valdig base [] = (-1, [])"
  by (simp add: valdig_def code_def toupper_code_def)

lemma getn_digits_value:
  assumes "base = 8 \<or> base = 10 \<or> base = 16"
  shows "getn_digits (int base) (word_of_nat acc) s = (word_of_nat (fst (digits base s acc)), drop (snd (digits base s acc)) s)"
proof (induction s arbitrary: acc)
  case Nil
  show ?case by (subst getn_digits.simps) (simp add: valdig_Nil)
next
  case (Cons c s)
  show ?case
  proof (cases "digit_val base c")
    case None
    then show ?thesis by (subst getn_digits.simps) (simp add: valdig_digit_val [OF assms])
  next
    case (Some d)
    then show ?thesis
      using Cons.IH [of "acc * base + d"]
      by (subst getn_digits.simps) (simp add: valdig_digit_val [OF assms] split: prod.splits)
  qed
qed

definition num_text :: "nat \<Rightarrow> nat \<Rightarrow> string" where
  \<comment> \<open>a number in the notation of C\<close>
  "num_text base n = (if base = 16 then ''0x'' else if base = 8 then ''0'' else []) @ base_chars base n"

definition ends_number :: "nat \<Rightarrow> string \<Rightarrow> bool" where
  "ends_number base t \<longleftrightarrow> t = [] \<or> digit_val base (hd t) = None"

lemma digits_stop: "ends_number base t \<Longrightarrow> digits base t acc = (acc, 0)"
  by (cases t) (auto simp: ends_number_def)

lemma getn_digits_number:
  assumes "base = 8 \<or> base = 10 \<or> base = 16" "ends_number base t"
  shows "getn_digits (int base) 0 (base_chars base n @ t) = (word_of_nat n, t)"
proof -
  have b: "2 \<le> base" "base \<le> 16" using assms(1) by auto
  then have "\<forall>c \<in> set (base_chars base n). digit_val base c \<noteq> None" using base_chars_digits by blast
  then have "digits base (base_chars base n @ t) 0 = (n, length (base_chars base n))"
    using digits_base_chars [OF b, of n] by (simp add: digits_append digits_stop [OF assms(2)])
  then show ?thesis using getn_digits_value [OF assms(1), of 0 "base_chars base n @ t"] by simp
qed

lemma hd_base_chars:
  assumes "base = 8 \<or> base = 10 \<or> base = 16"
  shows "\<exists>d ds. base_chars base n = hex_char d # ds \<and> d < base \<and> (0 < n \<longrightarrow> 0 < d)"
  using assms
proof (induction base n rule: base_chars.induct)
  case (1 b n)
  show ?case
  proof (cases "n < b")
    case False
    then have "0 < n div b" using 1(2) by (auto simp: div_greater_zero_iff)
    with 1 False obtain d ds where "base_chars b (n div b) = hex_char d # ds" "d < b" "0 < d" by fastforce
    with False show ?thesis by (subst base_chars.simps) auto
  qed (auto simp: base_chars_digit)
qed

lemma code_hex_char: "d < 16 \<Longrightarrow> code (hex_char d # s) = (if d < 10 then 48 + int d else 87 + int d)"
  by (simp add: code_def hex_char_def)

lemma blanks_dropped: "list_all (\<lambda>c. c = CHR '' '' \<or> c = CHR 0x09) bs \<Longrightarrow> code s \<noteq> 32 \<Longrightarrow> code s \<noteq> 9 \<Longrightarrow>
    dropWhile (\<lambda>c. c = CHR '' '' \<or> c = CHR 0x09) (bs @ s) = s"
  by (induction bs) (cases s; auto simp: code_def)+

lemma getn_number:
  assumes "base = 8 \<or> base = 10 \<or> base = 16" "base = 10 \<longrightarrow> 0 < n" "ends_number base t"
    and "list_all (\<lambda>c. c = CHR '' '' \<or> c = CHR 0x09) bs"
  shows "getn (bs @ num_text base n @ t) = (True, word_of_nat n, t)"
proof -
  obtain d ds where d: "base_chars base n = hex_char d # ds" "d < base" "0 < n \<longrightarrow> 0 < d"
    using hd_base_chars [OF assms(1)] by blast
  have c: "code (hex_char d # s) = (if d < 10 then 48 + int d else 87 + int d)" for s using assms(1) d(2) by (intro code_hex_char) auto
  have v: "0 \<le> fst (valdig (int base) (base_chars base n @ t))"
    using d assms(1) by (auto simp: valdig_digit_val digit_val_hex_char_base)
  note g = getn_digits_number [OF assms(1,3), of n]
  let ?s = "num_text base n @ t"
  have "getn_base ?s = (int base, base_chars base n @ t) \<and> 48 \<le> code ?s \<and> code ?s \<le> 57"
    using assms(1,2) d(2,3) c by (auto simp: num_text_def d(1) getn_base_def Let_def code_def)
  moreover from this have "dropWhile (\<lambda>c. c = CHR '' '' \<or> c = CHR 0x09) (bs @ ?s) = ?s"
    using assms(4) by (intro blanks_dropped) auto
  ultimately show ?thesis using v g by (simp add: getn_alt Let_def)
qed

section \<open>Lines\<close>

lemma past_line:
  assumes "past (l @ CHR 0x0A # rest) s" "CHR 0x0A \<notin> set l"
  shows "\<exists>l'. s = l' @ CHR 0x0A # rest \<and> CHR 0x0A \<notin> set l'"
proof -
  obtain p where p: "l @ CHR 0x0A # rest = p @ s" "CHR 0x0A \<notin> set p" using assms(1) by (auto simp: past_def)
  have "\<exists>q. l = p @ q"
  proof (cases "length p \<le> length l")
    case True
    then show ?thesis using p(1) by (metis append_eq_append_conv_if append_take_drop_id)
  next
    case False
    then have "p ! length l = CHR 0x0A" "length l < length p"
      using arg_cong [OF p(1), of "\<lambda>xs. xs ! length l"] by (simp_all add: nth_append)
    then show ?thesis using p(2) nth_mem by fastforce
  qed
  with p assms(2) show ?thesis by auto
qed

lemma skip_line_rest:
  "CHR 0x0A \<notin> set l \<Longrightarrow> skip_line (code (l @ CHR 0x0A # rest)) (tl (l @ CHR 0x0A # rest)) = Some rest"
proof (cases l)
  case (Cons c cs)
  assume "CHR 0x0A \<notin> set l"
  then have "dropWhile (\<lambda>c. c \<noteq> CHR 0x0A) (cs @ CHR 0x0A # rest) = CHR 0x0A # rest"
    using Cons by (subst dropWhile_append2) auto
  moreover have "int (of_char c) \<noteq> 10"
    using \<open>CHR 0x0A \<notin> set l\<close> Cons of_char_eq_iff [of c "CHR 0x0A", where ?'a = nat] by auto
  ultimately show ?thesis using Cons by (simp add: skip_line_def code_def)
qed (simp add: skip_line_def code_def)

text \<open>What the number reader finds on a line does not depend on what follows the line.\<close>

definition keep_rest :: "string \<Rightarrow> 'a \<times> string \<Rightarrow> 'a \<times> string" where
  "keep_rest rest r = (fst r, snd r @ CHR 0x0A # rest)"

lemma code_behind:
  "48 \<le> code (s @ CHR 0x0A # rest) \<and> code (s @ CHR 0x0A # rest) \<le> 57 \<longleftrightarrow> 48 \<le> code s \<and> code s \<le> 57"
  by (cases s) (simp_all add: code_def)

lemma valdig_behind: "valdig base (s @ CHR 0x0A # rest) = keep_rest rest (valdig base s)"
  by (cases s) (auto simp: valdig_def keep_rest_def code_def toupper_code_def Let_def)

lemma getn_digits_behind: "getn_digits base n (s @ CHR 0x0A # rest) = keep_rest rest (getn_digits base n s)"
proof (induction base n s rule: getn_digits.induct)
  case (1 base n s)
  obtain dig s' where d: "valdig base s = (dig, s')" by fastforce
  then have "valdig base (s @ CHR 0x0A # rest) = (dig, s' @ CHR 0x0A # rest)" by (simp add: valdig_behind keep_rest_def)
  with 1 [of "(dig, s')" dig s'] d show ?case
    by (subst (1 2) getn_digits.simps) (simp add: keep_rest_def)
qed

lemma getn_base_behind: "getn_base (s @ CHR 0x0A # rest) = keep_rest rest (getn_base s)"
proof (cases "code s = 48")
  case True
  then obtain c t where s: "s = c # t" by (cases s) (auto simp: code_def)
  with True have c: "code (c # t @ CHR 0x0A # rest) = 48" by (simp add: code_def)
  show ?thesis using c True unfolding s
    by (cases t) (auto simp: getn_base_def keep_rest_def Let_def code_def)
next
  case False
  then have "code (s @ CHR 0x0A # rest) \<noteq> 48" by (cases s) (auto simp: code_def)
  with False show ?thesis by (simp add: getn_base_def keep_rest_def)
qed

lemma getn_behind:
  assumes "getn s = (ok, n, s')"
  shows "getn (s @ CHR 0x0A # rest) = (ok, n, s' @ CHR 0x0A # rest)"
proof -
  let ?b = "\<lambda>c. c = CHR '' '' \<or> c = CHR 0x09"
  let ?s = "dropWhile ?b s"
  have d: "dropWhile ?b (s @ CHR 0x0A # rest) = ?s @ CHR 0x0A # rest"
    by (induction s) auto
  have c: "48 \<le> code (?s @ CHR 0x0A # rest) \<and> code (?s @ CHR 0x0A # rest) \<le> 57 \<longleftrightarrow> 48 \<le> code ?s \<and> code ?s \<le> 57"
    by (rule code_behind)
  have e: "fst (valdig (fst (getn_base (?s @ CHR 0x0A # rest))) (snd (getn_base (?s @ CHR 0x0A # rest)))) =
      fst (valdig (fst (getn_base ?s)) (snd (getn_base ?s)))"
    by (simp add: getn_base_behind valdig_behind keep_rest_def)
  have f: "getn_digits (fst (getn_base (?s @ CHR 0x0A # rest))) 0 (snd (getn_base (?s @ CHR 0x0A # rest))) =
      keep_rest rest (getn_digits (fst (getn_base ?s)) 0 (snd (getn_base ?s)))"
    by (simp add: getn_base_behind getn_digits_behind keep_rest_def)
  have g: "snd (getn_base (?s @ CHR 0x0A # rest)) = snd (getn_base ?s) @ CHR 0x0A # rest"
    by (simp add: getn_base_behind keep_rest_def)
  define A B where "A = (48 \<le> code ?s \<and> code ?s \<le> 57)" and "B = (0 \<le> fst (valdig (fst (getn_base ?s)) (snd (getn_base ?s))))"
  have "getn s = (if A \<and> B then (True, getn_digits (fst (getn_base ?s)) 0 (snd (getn_base ?s)))
      else (False, 0, if A then snd (getn_base ?s) else ?s))"
    unfolding getn_alt [of s] Let_def A_def B_def by simp
  moreover have "getn (s @ CHR 0x0A # rest) =
      (if A \<and> B then (True, keep_rest rest (getn_digits (fst (getn_base ?s)) 0 (snd (getn_base ?s))))
       else (False, 0, (if A then snd (getn_base ?s) else ?s) @ CHR 0x0A # rest))"
    unfolding getn_alt [of "s @ CHR 0x0A # rest"] Let_def d e f conj_assoc [symmetric] c
    unfolding g A_def B_def by simp
  ultimately show ?thesis using assms by (auto simp: keep_rest_def prod_eq_iff split: if_splits)
qed

definition dump_fits :: "string \<Rightarrow> bool" where
  \<comment> \<open>the count on a line of command \<open>d\<close>, if there is one, can be handled by \<open>md\<close>\<close>
  "dump_fits l =
     (case getn l of (ok1, a, l) \<Rightarrow> case getn l of (ok2, c, l) \<Rightarrow> case getn l of (ok3, s, l) \<Rightarrow>
        ok1 \<and> ok2 \<longrightarrow> md_fits (sint c) (if ok3 then norm_size s else 4))"

lemma md_fits_16: "md_fits 16 s"
  by (auto simp: md_fits_def md_words_def word_size_def)

lemma main_d_line:
  assumes "CHR 0x0A \<notin> set l"
  shows "case main_d m s (l @ CHR 0x0A # rest) of
      None \<Rightarrow> \<not> dump_fits l
    | Some (evs, s', c, r) \<Rightarrow> dump_fits l \<and> skip_line c r = Some rest \<and> length evs = 1"
proof -
  obtain ok1 a l1 where g1: "getn l = (ok1, a, l1)" by (metis prod_cases3)
  obtain ok2 cnt l2 where g2: "getn l1 = (ok2, cnt, l2)" by (metis prod_cases3)
  obtain ok3 sz l3 where g3: "getn l2 = (ok3, sz, l3)" by (metis prod_cases3)
  have l: "CHR 0x0A \<notin> set l1" "CHR 0x0A \<notin> set l2" "CHR 0x0A \<notin> set l3"
    using getn_past [OF g1] getn_past [OF g2] getn_past [OF g3] assms by (auto simp: past_def)
  note g = getn_behind [OF g1, of rest] getn_behind [OF g2, of rest] getn_behind [OF g3, of rest]
  have none: "md m a' c' s' = None \<longleftrightarrow> \<not> md_fits c' s'" for a' c' s' by (rule md_returns)
  obtain d where d16: "md m a 16 s = Some d" using none [of a 16 s] md_fits_16 by auto
  show ?thesis
  proof (cases "ok1 \<and> ok2")
    case True
    then show ?thesis
      using skip_line_rest [OF l(3), of rest] none [of a "sint cnt" "if ok3 then norm_size sz else 4"]
      by (cases "md m a (sint cnt) (if ok3 then norm_size sz else 4)") (simp_all add: main_d_def dump_fits_def g g1 g2 g3 Let_def)
  next
    case False
    then show ?thesis
      using skip_line_rest [OF l(1), of rest] skip_line_rest [OF l(2), of rest]
      by (auto simp: main_d_def dump_fits_def g g1 g2 g3 d16)
  qed
qed

definition answered :: "string \<Rightarrow> bool" where
  \<comment> \<open>a line that is no dump, or one whose count can be handled\<close>
  "answered l \<longleftrightarrow> l \<noteq> [] \<and> hd l = CHR ''d'' \<longrightarrow> dump_fits (tl l)"

lemma main_cmd_line:
  assumes "CHR 0x0A \<notin> set l" "ch \<noteq> CHR 0x0A" "ch \<noteq> CHR ''m''"
  shows "if answered (ch # l) then \<exists>e s'. main_cmd buf0 m s ch (l @ CHR 0x0A # rest) = Some ([e], m, s', rest)
    else main_cmd buf0 m s ch (l @ CHR 0x0A # rest) = None"
proof (cases "ch = CHR ''d''")
  case True
  show ?thesis
  proof (cases "main_d m s (l @ CHR 0x0A # rest)")
    case None
    then show ?thesis using main_d_line [OF assms(1), where m = m and s = s and rest = rest] True by (simp add: main_cmd_def answered_def)
  next
    case (Some r)
    then obtain evs s' c r' where d: "main_d m s (l @ CHR 0x0A # rest) = Some (evs, s', c, r')" by (cases r) auto
    with main_d_line [OF assms(1), where m = m and s = s and rest = rest] obtain e where "evs = [e]" "skip_line c r' = Some rest" "dump_fits l"
      by (cases evs) auto
    with d True show ?thesis by (simp add: main_cmd_def answered_def)
  qed
next
  case False
  then show ?thesis
    using assms skip_line_rest [of "ch # l" rest] by (simp add: main_cmd_def code_def answered_def)
qed

lemma main_cmd_empty: "main_cmd buf0 m s (CHR 0x0A) rest = Some ([Invalid], m, s, rest)"
  by (simp add: main_cmd_def skip_line_def)

lemma main_responds:
  assumes "\<forall>l \<in> set ls. CHR 0x0A \<notin> set l \<and> (l = [] \<or> hd l \<noteq> CHR ''m'')"
  shows "if list_all answered (takeWhile (\<lambda>l. l = [] \<or> hd l \<noteq> CHR ''q'') ls)
    then \<exists>evs. MAIN buf0 m s (concat (map (\<lambda>l. l @ [CHR 0x0A]) ls)) = Some (evs, m) \<and>
      length evs = length (takeWhile (\<lambda>l. l = [] \<or> hd l \<noteq> CHR ''q'') ls)
    else MAIN buf0 m s (concat (map (\<lambda>l. l @ [CHR 0x0A]) ls)) = None"
  using assms
proof (induction ls arbitrary: s)
  case (Cons l ls)
  note IH = Cons.IH
  let ?rest = "concat (map (\<lambda>l. l @ [CHR 0x0A]) ls)"
  show ?case
  proof (cases l)
    case Nil
    then show ?thesis using IH [of s] Cons.prems by (auto simp: main_cmd_empty answered_def)
  next
    case (Cons ch cs)
    then have ch: "CHR 0x0A \<notin> set cs" "ch \<noteq> CHR 0x0A" "ch \<noteq> CHR ''m''" using Cons.prems by auto
    note cmd = main_cmd_line [OF ch, where ?buf0.0 = buf0 and m = m and s = s and rest = ?rest]
    show ?thesis
    proof (cases "ch = CHR ''q'' \<or> \<not> answered l")
      case True
      then show ?thesis using cmd Cons by auto
    next
      case False
      then obtain e s' where "main_cmd buf0 m s ch (cs @ CHR 0x0A # ?rest) = Some ([e], m, s', ?rest)"
        using cmd Cons by auto
      then show ?thesis using IH [of s'] Cons.prems Cons False by auto
    qed
  qed
qed simp

section \<open>Properties\<close>

text \<open>A number in the notation of C, octal, decimal or hexadecimal, behind any blanks, is read back as its
  value modulo \<open>2 ^ 32\<close>, and the input is left at the first character behind it; only the decimal notation of
  zero, a single digit, is excluded.\<close>
theorem getn_reads:
  assumes "base = 8 \<or> base = 10 \<or> base = 16" "base = 10 \<longrightarrow> 0 < n" "ends_number base t"
    and "list_all (\<lambda>c. c = CHR '' '' \<or> c = CHR 0x09) bs"
  shows "getn (bs @ num_text base n @ t) = (True, word_of_nat n, t)"
  using assms by (rule getn_number)

theorem getn_reads_witness: "getn '' 0xff 4'' = (True, 255, '' 4'')"
proof -
  have "base_chars 16 255 = ''ff''" by code_simp
  moreover have "ends_number 16 '' 4''" by code_simp
  ultimately show ?thesis using getn_reads [of 16 255 "'' 4''" "'' ''"] by (simp add: num_text_def)
qed

text \<open>A zero typed as a single digit is refused: the digit is taken for the prefix of an octal number.\<close>

lemma getn_zero_refused:
  assumes "t = [] \<or> \<not> (48 \<le> code t \<and> code t \<le> 57) \<and> code t \<noteq> 120 \<and> code t \<noteq> 88"
  shows "getn (''0'' @ t) = (False, 0, t)"
proof -
  have "fst (valdig 10 t) < 0" using assms by (auto simp: valdig_def Let_def code_def toupper_code_def)
  then show ?thesis using assms by (auto simp: getn_alt getn_base_def Let_def code_def)
qed

text \<open>C32: The program answers each line with one response and stops at \<open>q\<close> or at the end of the input: on
  every input of complete lines none of which starts the editor, it returns, has left memory as it was, and has
  printed one dump or message for each line in front of the first that starts with \<open>q\<close>. The exception is a dump
  whose count, as read from its line, is so large that the variable \<open>i\<close> of \<open>md\<close> overflows: with such a line in
  front of the first \<open>q\<close> no result is defined.\<close>
theorem main_returns:
  assumes "\<forall>l \<in> set ls. CHR 0x0A \<notin> set l \<and> (l = [] \<or> hd l \<noteq> CHR ''m'')"
  shows "if list_all answered (takeWhile (\<lambda>l. l = [] \<or> hd l \<noteq> CHR ''q'') ls)
    then \<exists>evs. MAIN buf0 m s (concat (map (\<lambda>l. l @ [CHR 0x0A]) ls)) = Some (evs, m) \<and>
      length evs = length (takeWhile (\<lambda>l. l = [] \<or> hd l \<noteq> CHR ''q'') ls)
    else MAIN buf0 m s (concat (map (\<lambda>l. l @ [CHR 0x0A]) ls)) = None"
  using assms by (rule main_responds)

theorem main_returns_witness:
  "(\<exists>evs. MAIN [] (\<lambda>_. 7) 4 (''d 0x100 16 4'' @ [CHR 0x0A] @ ''?'' @ [CHR 0x0A] @ ''q'' @ [CHR 0x0A]) = Some (evs, \<lambda>_. 7) \<and>
     length evs = 2) \<and>
   MAIN [] (\<lambda>_. 7) 4 (''d 0x100 0x7fffffff 4'' @ [CHR 0x0A]) = None"
proof -
  have g: "getn '' 0x100 16 4'' = (True, 256, '' 16 4'')" "getn '' 16 4'' = (True, 16, '' 4'')" "getn '' 4'' = (True, 4, [])"
    "getn '' 0x100 0x7fffffff 4'' = (True, 256, '' 0x7fffffff 4'')" "getn '' 0x7fffffff 4'' = (True, 0x7fffffff, '' 4'')"
    by code_simp+
  have "md_words 0x7fffffff 4 = 2 ^ 29" by (simp add: md_words_def word_size_def)
  then have "\<not> md_fits 0x7fffffff 4" by (simp add: md_fits_def word_size_def)
  then have "answered ''d 0x100 16 4''" "answered ''?''" "\<not> answered ''d 0x100 0x7fffffff 4''"
    using md_fits_16 [of 4] by (simp_all add: answered_def dump_fits_def g norm_size_def)
  then show ?thesis
    using main_returns [of "[''d 0x100 16 4'', ''?'', ''q'']" "[]" "\<lambda>_. 7" 4]
      main_returns [of "[''d 0x100 0x7fffffff 4'']" "[]" "\<lambda>_. 7" 4] by (simp add: numeral_2_eq_2)
qed

lemma skip_line_none: "c \<noteq> 10 \<Longrightarrow> CHR 0x0A \<notin> set rest \<Longrightarrow> skip_line c rest = None"
proof -
  assume "c \<noteq> 10" "CHR 0x0A \<notin> set rest"
  moreover from this(2) have "dropWhile (\<lambda>c. c \<noteq> CHR 0x0A) rest = []" by (intro dropWhile_eq_Nil_conv [THEN iffD2]) auto
  ultimately show ?thesis unfolding skip_line_def by (simp only: if_False list.case)
qed

lemma code_line_feed: "CHR 0x0A \<notin> set s \<Longrightarrow> code s \<noteq> 10"
  using of_char_eq_iff [of "hd s" "CHR 0x0A", where ?'a = nat] by (cases s) (auto simp: code_def)

lemma getn_incomplete:
  assumes "getn s = (ok, n, s')" "CHR 0x0A \<notin> set s"
  shows "CHR 0x0A \<notin> set s'" "CHR 0x0A \<notin> set (tl s')" "code s' \<noteq> 10"
proof -
  show 1: "CHR 0x0A \<notin> set s'" using getn_past [OF assms(1)] assms(2) by (auto simp: past_def)
  show "CHR 0x0A \<notin> set (tl s')" using 1 by (cases s') auto
  show "code s' \<noteq> 10" by (rule code_line_feed [OF 1])
qed

lemma main_cmd_hangs:
  assumes "CHR 0x0A \<notin> set (ch # inp)"
  shows "main_cmd buf0 m s ch inp = None"
proof -
  obtain ok1 a i1 where g1: "getn inp = (ok1, a, i1)" by (metis prod_cases3)
  obtain ok2 cnt i2 where g2: "getn i1 = (ok2, cnt, i2)" by (metis prod_cases3)
  obtain ok3 sz i3 where g3: "getn i2 = (ok3, sz, i3)" by (metis prod_cases3)
  have "CHR 0x0A \<notin> set inp" using assms by simp
  note i1 = getn_incomplete [OF g1 this]
  note i2 = getn_incomplete [OF g2 i1(1)]
  note i3 = getn_incomplete [OF g3 i2(1)]
  note none = skip_line_none [OF i1(3,2)] skip_line_none [OF i2(3,2)] skip_line_none [OF i3(3,2)]
  have "skip_line (code i2) rest = None" if "mm_stdin buf sz a m (tl i2) = Some (m', rest)" for buf sz a m m' rest
    using mm_stdin_suffix [OF that] i2(2) by (intro skip_line_none [OF i2(3)]) auto
  moreover have "skip_line (int (of_char ch)) inp = None"
    using assms code_line_feed [of "ch # inp"] by (intro skip_line_none) (auto simp: code_def)
  moreover have "skip_line c rest = None" if "main_d m s inp = Some (evs, s', c, rest)" for evs s' c rest
    using that none by (auto simp: main_d_def g1 g2 g3 Let_def split: if_splits)
  ultimately show ?thesis
    using none by (cases "main_d m s inp") (auto simp: main_cmd_def main_m_def g1 g2 Let_def bind_eq_None_conv split: if_splits)
qed

text \<open>The program never returns when its input ends without a line feed: after any last line other than \<open>q\<close>
  that is not complete, the loop that skips the rest of the line waits for a line feed for ever.\<close>
theorem main_hangs:
  assumes "inp \<noteq> []" "CHR 0x0A \<notin> set inp" "hd inp \<noteq> CHR ''q''"
  shows "MAIN buf0 m s inp = None"
  using assms main_cmd_hangs by (cases inp) auto

theorem main_hangs_witness: "MAIN [] (\<lambda>_. 0) 4 ''d 0x100 16'' = None"
  using main_hangs [of "''d 0x100 16''" "[]" "\<lambda>_. 0" 4] by simp

lemma ends_number_sep: "b = 8 \<or> b = 10 \<or> b = 16 \<Longrightarrow> ends_number b ('' '' @ t)" "b = 8 \<or> b = 10 \<or> b = 16 \<Longrightarrow> ends_number b (CHR 0x0A # t)"
  by (auto simp: ends_number_def digit_val_def)



text \<open>Without a count the word size is whatever the variable held before.\<close>

lemma main_stale_size:
  assumes "(b = 8 \<or> b = 10 \<or> b = 16) \<and> (b = 10 \<longrightarrow> 0 < a)"
  shows "main_d m s ('' '' @ num_text b a @ CHR 0x0A # rest) =
    map_option (\<lambda>d. ([Dumped d], s, 10, rest)) (md m (word_of_nat a) 16 s)"
  using assms getn_number [of b a "CHR 0x0A # rest" "'' ''"]
  by (simp add: ends_number_sep main_d_def getn_alt [of "CHR 0x0A # rest"] code_def)

end
