(* ===== verification/Ttcp.thy ===== *)
theory Ttcp
  imports Text "HOL-Library.Signed_Division"
begin

unbundle bit_operations_syntax

text \<open>
  The network benchmark \<^verbatim>\<open>miscUtils/ttcp.c\<close>, as it is built for RTEMS. The static variables are the
  record \<open>ttcp_cfg\<close> (what the options set) and the record \<open>xfer\<close> (what a transfer changes); the static
  flag \<open>going\<close> of the datagram receiver is part of the latter. What \<open>getopt_r\<close> returns is a list of
  options with their arguments, what the socket calls return is the record \<open>tt_env\<close>, and the results of
  the reads and writes are lists: running out of them means that the program is still waiting
  (\<open>None\<close>). Byte counts, \<open>double\<close> in the source, are natural numbers. The timers and the report
  are in \<open>Ttcp_Report\<close>.
\<close>

section \<open>Options\<close>

record ttcp_cfg =
  buflen :: int
  nbuf :: int
  bufoffset :: int
  bufalign :: int
  udp :: bool
  so_debug :: bool        \<comment> \<open>\<open>options\<close>\<close>
  port :: u16
  trans :: bool
  sinkmode :: bool
  verbose :: bool
  nodelay :: bool
  b_flag :: bool
  sockbufsize :: int
  fmt :: char
  touchdata :: bool
  milliseconds :: int

definition initialize_vars :: ttcp_cfg where
  "initialize_vars =
     \<lparr>buflen = 8 * 1024, nbuf = 2 * 1024, bufoffset = 0, bufalign = 16 * 1024, udp = False, so_debug = False,
      port = 5001, trans = False, sinkmode = False, verbose = False, nodelay = False, b_flag = False,
      sockbufsize = 0, fmt = CHR ''K'', touchdata = False, milliseconds = 0\<rparr>"

definition apply_opt :: "char \<times> string \<Rightarrow> ttcp_cfg \<Rightarrow> ttcp_cfg option" where
  \<comment> \<open>the switch on the option; \<open>None\<close>: go to usage\<close>
  "apply_opt o1 c =
     (case o1 of (ch, optarg) \<Rightarrow>
        if ch = CHR ''B'' then Some (c\<lparr>b_flag := True\<rparr>)
        else if ch = CHR ''t'' then Some (c\<lparr>trans := True\<rparr>)
        else if ch = CHR ''r'' then Some (c\<lparr>trans := False\<rparr>)
        else if ch = CHR ''d'' then Some (c\<lparr>so_debug := True\<rparr>)
        else if ch = CHR ''D'' then Some (c\<lparr>nodelay := True\<rparr>)
        else if ch = CHR ''m'' then Some (c\<lparr>milliseconds := atoi optarg\<rparr>)
        else if ch = CHR ''n'' then Some (c\<lparr>nbuf := atoi optarg\<rparr>)
        else if ch = CHR ''l'' then Some (c\<lparr>buflen := atoi optarg\<rparr>)
        else if ch = CHR ''s'' then Some (c\<lparr>sinkmode := \<not> sinkmode c\<rparr>)
        else if ch = CHR ''p'' then Some (c\<lparr>port := word_of_int (atoi optarg)\<rparr>)
        else if ch = CHR ''u'' then Some (c\<lparr>udp := True\<rparr>)
        else if ch = CHR ''v'' then Some (c\<lparr>verbose := True\<rparr>)
        else if ch = CHR ''A'' then Some (c\<lparr>bufalign := atoi optarg\<rparr>)
        else if ch = CHR ''O'' then Some (c\<lparr>bufoffset := atoi optarg\<rparr>)
        else if ch = CHR ''b'' then Some (c\<lparr>sockbufsize := atoi optarg\<rparr>)
        else if ch = CHR ''f'' then Some (c\<lparr>fmt := (case optarg of [] \<Rightarrow> CHR 0x00 | x # _ \<Rightarrow> x)\<rparr>)
        else if ch = CHR ''T'' then Some (c\<lparr>touchdata := True\<rparr>)
        else None)"

fun parse_opts :: "(char \<times> string) list \<Rightarrow> ttcp_cfg \<Rightarrow> ttcp_cfg option" where
  "parse_opts [] c = Some c"
| "parse_opts (x # xs) c = (case apply_opt x c of None \<Rightarrow> None | Some c \<Rightarrow> parse_opts xs c)"

section \<open>The buffer\<close>

definition udp_buflen :: "ttcp_cfg \<Rightarrow> ttcp_cfg" where
  "udp_buflen c = (if udp c \<and> buflen c < 5 then c\<lparr>buflen := 5\<rparr> else c)"

definition buf_start :: "int \<Rightarrow> ttcp_cfg \<Rightarrow> int" where
  \<comment> \<open>\<open>alloc_buf\<close> is what \<open>malloc(buflen+bufalign)\<close> returned; \<open>smod\<close> is the remainder of C\<close>
  "buf_start alloc_buf c =
     (if bufalign c \<noteq> 0
      then alloc_buf + (bufalign c - alloc_buf smod bufalign c + bufoffset c) smod bufalign c
      else alloc_buf)"

lemma unat_and_127: "unat ((c :: u8) AND 0x7f) = unat c mod 128"
proof -
  have "c AND 0x7f = take_bit 7 c" by (simp add: take_bit_eq_mask mask_eq_exp_minus_1)
  then show ?thesis by (simp add: unsigned_take_bit_eq) (simp add: take_bit_eq_mod)
qed

lemma unat_u8_plus_1: "unat ((c :: u8) + 1) mod 128 = (unat c + 1) mod 128"
proof -
  have "unat (c + 1) = (unat c + 1) mod 256" by (simp add: unat_word_ariths)
  then show ?thesis by (simp add: mod_mod_cancel)
qed

lemma isprint_7bit: "isprint (c AND 0x7f) \<longleftrightarrow> 32 \<le> unat c mod 128 \<and> unat c mod 128 < 127"
  by (simp add: isprint_def word_le_nat_alt word_less_nat_alt unat_and_127)

function skip_unprintable :: "u8 \<Rightarrow> u8" where
  "skip_unprintable c = (if isprint (c AND 0x7f) then c else skip_unprintable (c + 1))"
  by pat_completeness auto
termination
proof (relation "measure (\<lambda>c. let x = unat c mod 128 in if x = 127 then 33 else 32 - x)")
  fix c :: u8
  assume "\<not> isprint (c AND 0x7f)"
  then have "unat c mod 128 < 32 \<or> unat c mod 128 = 127"
    using mod_less_divisor [of 128 "unat c"] by (auto simp: isprint_7bit)
  moreover have "unat (c + 1) mod 128 = (if unat c mod 128 = 127 then 0 else unat c mod 128 + 1)"
    using unat_u8_plus_1 [of c] by (simp add: mod_Suc)
  ultimately show "(c + 1, c) \<in> measure (\<lambda>c. let x = unat c mod 128 in if x = 127 then 33 else 32 - x)"
    by (auto simp: Let_def)
qed simp

declare skip_unprintable.simps [simp del]

fun pattern_loop :: "u8 \<Rightarrow> nat \<Rightarrow> u8 list" where
  "pattern_loop c 0 = []"
| "pattern_loop c (Suc cnt) = (let c = skip_unprintable c in (c AND 0x7f) # pattern_loop (c + 1) cnt)"

definition pattern :: "int \<Rightarrow> u8 list" where
  "pattern cnt = pattern_loop 0 (nat cnt)"

section \<open>Reading and writing\<close>

abbreviation ENOBUFS :: int where "ENOBUFS \<equiv> 105"

datatype rdres = Got "u8 list" | Rd_fail int     \<comment> \<open>\<open>Got []\<close>: end of file; otherwise \<open>errno\<close>\<close>
datatype wrres = Put nat | Wr_fail int

record xfer =
  nbytes :: nat
  numCalls :: nat
  errno :: int
  going :: bool
  wire :: "u8 list list"        \<comment> \<open>what each network write has sent\<close>
  console :: "u8 list"          \<comment> \<open>what was written to the standard output\<close>
  head4 :: "u8 list"            \<comment> \<open>the first four bytes of the buffer\<close>

fun Nwrite :: "bool \<Rightarrow> u8 list \<Rightarrow> wrres list \<Rightarrow> xfer \<Rightarrow> (int \<times> wrres list \<times> xfer) option" where
  \<comment> \<open>\<open>udp\<close>, the bytes of the buffer to send\<close>
  "Nwrite dgram data [] x = None"
| "Nwrite dgram data (r # rs) x =
     (let x = x\<lparr>numCalls := numCalls x + 1\<rparr> in
      case r of
        Put n \<Rightarrow> Some (int n, rs, x\<lparr>wire := wire x @ [take n data]\<rparr>)
      | Wr_fail e \<Rightarrow>
          if dgram \<and> e = ENOBUFS then Nwrite dgram data rs (x\<lparr>errno := 0\<rparr>)
          else Some (-1, rs, x\<lparr>errno := e\<rparr>))"

fun mread :: "nat \<Rightarrow> u8 list \<Rightarrow> rdres list \<Rightarrow> xfer \<Rightarrow> (int \<times> u8 list \<times> rdres list \<times> xfer) option" where
  \<comment> \<open>\<open>acc\<close> are the \<open>count\<close> bytes read so far; a read returns at most what is asked for\<close>
  "mread n acc [] x = None"
| "mread n acc (r # rs) x =
     (let x = x\<lparr>numCalls := numCalls x + 1\<rparr> in
      case r of
        Rd_fail e \<Rightarrow> Some (-1, acc, rs, x\<lparr>errno := e\<rparr>)
      | Got d \<Rightarrow>
          (let d = take (n - length acc) d; acc' = acc @ d in
           if d = [] then Some (int (length acc), acc, rs, x)
           else if length acc' < n then mread n acc' rs x
           else Some (int (length acc'), acc', rs, x)))"

definition Nread :: "ttcp_cfg \<Rightarrow> nat \<Rightarrow> rdres list \<Rightarrow> xfer \<Rightarrow> (int \<times> u8 list \<times> rdres list \<times> xfer) option" where
  \<comment> \<open>the count returned and the bytes stored; reading them again for \<open>touchdata\<close> has no effect\<close>
  "Nread c count rs x =
     (if \<not> udp c \<and> b_flag c then mread count [] rs x
      else case rs of [] \<Rightarrow> None
      | r # rs \<Rightarrow>
          (let x = x\<lparr>numCalls := numCalls x + 1\<rparr> in
           case r of Rd_fail e \<Rightarrow> Some (-1, [], rs, x\<lparr>errno := e\<rparr>)
           | Got d \<Rightarrow> (let d = take count d in Some (int (length d), d, rs, x))))"

definition request :: "ttcp_cfg \<Rightarrow> nat" where
  \<comment> \<open>\<open>buflen\<close> as the \<open>size_t\<close> argument of a call\<close>
  "request c = unat (word_of_int (buflen c) :: u32)"

lemma Nwrite_shorter: "Nwrite dgram data ws x = Some (cnt, ws', x') \<Longrightarrow> length ws' < length ws"
  by (induction dgram data ws x rule: Nwrite.induct)
    (auto simp: Let_def split: wrres.splits if_splits)

lemma mread_shorter: "mread n acc rs x = Some (cnt, d, rs', x') \<Longrightarrow> length rs' < length rs"
  by (induction rs arbitrary: acc x)
    (auto simp: Let_def intro: less_SucI split: rdres.splits if_splits)

lemma Nread_shorter: "Nread c n rs x = Some (cnt, d, rs', x') \<Longrightarrow> length rs' < length rs"
  by (auto simp: Nread_def Let_def mread_shorter split: if_splits list.splits rdres.splits)

section \<open>The transfer loops\<close>

function source :: "ttcp_cfg \<Rightarrow> u8 list \<Rightarrow> int \<Rightarrow> wrres list \<Rightarrow> xfer \<Rightarrow> (wrres list \<times> xfer) option" where
  \<comment> \<open>\<open>while (nbuf-- && Nwrite(fd,buf,buflen) == buflen)\<close>\<close>
  "source c buf n ws x =
     (if n = 0 then Some (ws, x)
      else case Nwrite (udp c) buf ws x of None \<Rightarrow> None
      | Some (cnt, ws, x) \<Rightarrow>
          if cnt = buflen c then source c buf (n - 1) ws (x\<lparr>nbytes := nbytes x + nat (buflen c)\<rparr>)
          else Some (ws, x))"
  by pat_completeness auto
termination
  by (relation "measure (\<lambda>(c, buf, n, ws, x). length ws)") (auto dest: Nwrite_shorter)

function sink_udp :: "ttcp_cfg \<Rightarrow> rdres list \<Rightarrow> xfer \<Rightarrow> xfer option" where
  "sink_udp c rs x =
     (case Nread c (request c) rs x of None \<Rightarrow> None
      | Some (cnt, d, rs, x) \<Rightarrow>
          if cnt \<le> 0 then Some x
          else if cnt \<le> 4 then (if going x then Some x else sink_udp c rs (x\<lparr>going := True\<rparr>))
          else sink_udp c rs (x\<lparr>nbytes := nbytes x + nat cnt\<rparr>))"
  by pat_completeness auto
termination
  by (relation "measure (\<lambda>(c, rs, x). length rs)") (auto dest: Nread_shorter)

function sink_tcp :: "ttcp_cfg \<Rightarrow> rdres list \<Rightarrow> xfer \<Rightarrow> xfer option" where
  "sink_tcp c rs x =
     (case Nread c (request c) rs x of None \<Rightarrow> None
      | Some (cnt, d, rs, x) \<Rightarrow>
          if cnt \<le> 0 then Some x else sink_tcp c rs (x\<lparr>nbytes := nbytes x + nat cnt\<rparr>))"
  by pat_completeness auto
termination
  by (relation "measure (\<lambda>(c, rs, x). length rs)") (auto dest: Nread_shorter)

fun copy_out :: "ttcp_cfg \<Rightarrow> rdres list \<Rightarrow> wrres list \<Rightarrow> xfer \<Rightarrow> (wrres list \<times> xfer) option" where
  \<comment> \<open>standard input to the network\<close>
  "copy_out c [] ws x = None"
| "copy_out c (r # rs) ws x =
     (case r of Rd_fail e \<Rightarrow> Some (ws, x\<lparr>errno := e\<rparr>)
      | Got d \<Rightarrow>
          (let d = take (request c) d in
           if d = [] then Some (ws, x)
           else case Nwrite (udp c) d ws (x\<lparr>head4 := take 4 (d @ drop (length d) (head4 x))\<rparr>) of None \<Rightarrow> None
           | Some (cnt, ws, x) \<Rightarrow>
               if cnt = int (length d) then copy_out c rs ws (x\<lparr>nbytes := nbytes x + length d\<rparr>)
               else Some (ws, x)))"

function copy_in :: "ttcp_cfg \<Rightarrow> rdres list \<Rightarrow> wrres list \<Rightarrow> xfer \<Rightarrow> xfer option" where
  \<comment> \<open>network to standard output\<close>
  "copy_in c rs os x =
     (case Nread c (request c) rs x of None \<Rightarrow> None
      | Some (cnt, d, rs, x) \<Rightarrow>
          if cnt \<le> 0 then Some x
          else case os of [] \<Rightarrow> None
          | Wr_fail e # os \<Rightarrow> Some (x\<lparr>errno := e\<rparr>)
          | Put n # os \<Rightarrow>
              (let x = x\<lparr>console := console x @ take n d\<rparr> in
               if int n = cnt then copy_in c rs os (x\<lparr>nbytes := nbytes x + n\<rparr>) else Some x))"
  by pat_completeness auto
termination
  by (relation "measure (\<lambda>(c, rs, os, x). length rs)") (auto dest: Nread_shorter)

declare source.simps [simp del] sink_udp.simps [simp del] sink_tcp.simps [simp del] copy_in.simps [simp del]

section \<open>Setting up the connection\<close>

record tt_env =
  tt_alloc :: int              \<comment> \<open>address \<open>malloc\<close> returns, 0 for null\<close>
  tt_sock :: int
  bind_ok :: bool
  sockbuf_ok :: bool           \<comment> \<open>\<open>setsockopt\<close> of the buffer size\<close>
  debug_ok :: bool
  nodelay_ok :: bool           \<comment> \<open>the protocol is unknown or \<open>setsockopt\<close> succeeds\<close>
  connect_ok :: bool
  accepted :: int
  close_list_ok :: bool
  peer_ok :: bool
  heap4 :: "u8 list"           \<comment> \<open>the first four bytes of the new buffer\<close>
  from_net :: "rdres list"
  to_net :: "wrres list"
  from_stdin :: "rdres list"
  to_stdout :: "wrres list"
  close_ok :: bool

datatype tt_ev = T_malloc | T_free | T_open int | T_close int | T_err string

definition err :: "string \<Rightarrow> bool \<Rightarrow> int \<Rightarrow> tt_ev list" where
  \<comment> \<open>whether \<open>alloc_buf\<close> is set, and \<open>fd\<close>\<close>
  "err s alloc fd = [T_err s] @ (if alloc then [T_free] else []) @ (if fd \<noteq> 0 then [T_close fd] else [])"

definition listen_accept :: "ttcp_cfg \<Rightarrow> tt_env \<Rightarrow> tt_ev list + (tt_ev list \<times> int)" where
  \<comment> \<open>the server side, from \<open>listen\<close> to \<open>getpeername\<close>\<close>
  "listen_accept c e =
     (if so_debug c \<and> \<not> debug_ok e then Inl (err ''setsockopt'' True (tt_sock e))
      else if accepted e < 0 then Inl (err ''accept'' True (accepted e))
      else if \<not> close_list_ok e then Inl ([T_open (accepted e), T_close (tt_sock e)] @ err ''close'' True (accepted e))
      else if \<not> peer_ok e then Inl ([T_open (accepted e), T_close (tt_sock e)] @ err ''getpeername'' True (accepted e))
      else Inr ([T_open (accepted e), T_close (tt_sock e)], accepted e))"

definition connect_out :: "ttcp_cfg \<Rightarrow> tt_env \<Rightarrow> tt_ev list + (tt_ev list \<times> int)" where
  "connect_out c e =
     (if so_debug c \<and> \<not> debug_ok e then Inl (err ''setsockopt'' True (tt_sock e))
      else if nodelay c \<and> \<not> nodelay_ok e then Inl (err ''setsockopt: nodelay'' True (tt_sock e))
      else if \<not> connect_ok e then Inl (err ''connect'' True (tt_sock e))
      else Inr ([], tt_sock e))"

definition setup_socket :: "ttcp_cfg \<Rightarrow> tt_env \<Rightarrow> tt_ev list + (tt_ev list \<times> int)" where
  \<comment> \<open>\<open>Inl\<close>: an error, and the routine returns 1; \<open>Inr\<close>: the descriptor for the transfer\<close>
  "setup_socket c e =
     (if tt_sock e < 0 then Inl (err ''socket'' True (tt_sock e))
      else map_sum (\<lambda>evs. T_open (tt_sock e) # evs) (map_prod (\<lambda>evs. T_open (tt_sock e) # evs) (\<lambda>fd. fd))
        (if \<not> bind_ok e then Inl (err ''bind'' True (tt_sock e))
         else if sockbufsize c \<noteq> 0 \<and> \<not> sockbuf_ok e then
           Inl (err (if trans c then ''setsockopt: sndbuf'' else ''setsockopt: rcvbuf'') True (tt_sock e))
         else if udp c then Inr ([], tt_sock e)
         else if trans c then connect_out c e
         else listen_accept c e))"

section \<open>The main routine\<close>

definition transfer :: "ttcp_cfg \<Rightarrow> tt_env \<Rightarrow> xfer \<Rightarrow> (wrres list \<times> xfer) option" where
  "transfer c e x =
     (if sinkmode c then
        (if trans c then
           (let buf = pattern (buflen c); x = x\<lparr>head4 := take 4 buf\<rparr>;
                sentinel = (\<lambda>ws x. if udp c then map_option snd (Nwrite True (head4 x) ws x) else Some (ws, x)) in
            Option.bind (sentinel (to_net e) x) (\<lambda>(ws, x).
              Option.bind (source c buf (nbuf c) ws x) (\<lambda>(ws, x). sentinel ws x)))
         else map_option (Pair (to_net e))
           (if udp c then sink_udp c (from_net e) x else sink_tcp c (from_net e) x))
      else if trans c then copy_out c (from_stdin e) (to_net e) x
      else map_option (Pair (to_net e)) (copy_in c (from_net e) (to_stdout e) x))"

fun sentinels :: "nat \<Rightarrow> u8 list \<Rightarrow> wrres list \<Rightarrow> xfer \<Rightarrow> xfer option" where
  \<comment> \<open>the datagrams that mark the end\<close>
  "sentinels 0 data ws x = Some x"
| "sentinels (Suc n) data ws x =
     (case Nwrite True data ws x of None \<Rightarrow> None | Some (cnt, ws, x) \<Rightarrow> sentinels n data ws x)"

definition finish :: "ttcp_cfg \<Rightarrow> tt_env \<Rightarrow> int \<Rightarrow> wrres list \<times> xfer \<Rightarrow> (int \<times> tt_ev list \<times> xfer) option" where
  "finish c e fd r =
     (case r of (ws, x) \<Rightarrow>
        if errno x \<noteq> 0 then Some (1, err ''IO'' True fd, x)
        else case (if udp c \<and> trans c then sentinels 4 (head4 x) ws x else Some x) of None \<Rightarrow> None
        | Some x \<Rightarrow>
            if \<not> close_ok e then Some (1, T_close fd # err ''close'' True fd, x)
            else Some (0, [T_close fd, T_free], x))"

definition host_ok :: "(string \<Rightarrow> u32) \<Rightarrow> (string \<Rightarrow> u32 option) \<Rightarrow> string \<Rightarrow> u32 option" where
  "host_ok inet_addr gethostbyname host =
     (if atoi host > 0 then Some (inet_addr host) else gethostbyname host)"

definition rtems_shell_main_ttcp ::
  "(string \<Rightarrow> u32) \<Rightarrow> (string \<Rightarrow> u32 option) \<Rightarrow> tt_env \<Rightarrow> nat \<Rightarrow> (char \<times> string) list \<Rightarrow> string list \<Rightarrow> bool \<Rightarrow>
   (int \<times> tt_ev list \<times> xfer) option" where
  \<comment> \<open>\<open>opts\<close> and \<open>operands\<close> are what \<open>getopt_r\<close> makes of the \<open>argc\<close> arguments; \<open>going0\<close> is the static flag\<close>
  "rtems_shell_main_ttcp inet_addr gethostbyname e argc opts operands going0 =
     (let x = \<lparr>nbytes = 0, numCalls = 0, errno = 0, going = going0, wire = [], console = [], head4 = heap4 e\<rparr> in
      if argc < 2 then Some (1, [], x)
      else case parse_opts opts initialize_vars of None \<Rightarrow> Some (1, [], x)
      | Some c \<Rightarrow>
          if trans c \<and> operands = [] then Some (1, [], x)
          else if trans c \<and> host_ok inet_addr gethostbyname (hd operands) = None then Some (1, err ''bad hostname'' False 0, x)
          else
            (let c = udp_buflen c in
             if tt_alloc e = 0 then Some (1, err ''malloc'' False 0, x)
             else case setup_socket c e of
               Inl evs \<Rightarrow> Some (1, T_malloc # evs, x)
             | Inr (evs, fd) \<Rightarrow>
                 Option.bind (transfer c e x) (\<lambda>r.
                   map_option (\<lambda>(rc, evs', x). (rc, T_malloc # evs @ evs', x))
                     (finish c e fd r))))"

definition ttcp_argv :: "string \<Rightarrow> string list" where
  \<comment> \<open>the arguments that \<open>ttcp\<close> makes of its string: a copy of 511 characters, at most 31 words\<close>
  "ttcp_argv args = ''ttcp'' # take 31 (strtok_blank (take 511 args))"

section \<open>Times\<close>

type_synonym timeval = "int \<times> int"

definition tvadd :: "timeval \<Rightarrow> timeval \<Rightarrow> timeval" where
  "tvadd t0 t1 =
     (let s = fst t0 + fst t1; u = snd t0 + snd t1 in
      if u > 1000000 then (s + 1, u - 1000000) else (s, u))"

definition tvsub :: "timeval \<Rightarrow> timeval \<Rightarrow> timeval" where
  "tvsub t1 t0 =
     (let s = fst t1 - fst t0; u = snd t1 - snd t0 in
      if u < 0 then (s - 1, u + 1000000) else (s, u))"

end
