(* ===== verification/Ttcp_Transfer.thy ===== *)
theory Ttcp_Transfer
  imports Ttcp
begin

unbundle bit_operations_syntax

text \<open>
  What the benchmark of \<open>Ttcp\<close> does: the pattern it sends, where it puts its buffer, what the two ends of a
  transfer count, and what it has released when it returns.
\<close>

section \<open>The pattern\<close>

definition pos :: "u8 \<Rightarrow> nat" where
  \<comment> \<open>index of the first printable character from \<open>c\<close> on among the 95 printable ones\<close>
  "pos c = (let x = unat c mod 128 in if x < 32 \<or> x = 127 then 0 else x - 32)"

lemma mod_128_plus_1: "unat (c + 1) mod 128 = (if unat c mod 128 = 127 then 0 else unat c mod 128 + 1)" for c :: u8
  using unat_u8_plus_1 [of c] by (simp add: mod_Suc)

lemma skip_pos: "unat (skip_unprintable c) mod 128 = 32 + pos c"
proof (induction c rule: skip_unprintable.induct)
  case (1 c)
  have lt: "unat c mod 128 < 128" by simp
  show ?case
  proof (cases "isprint (c AND 0x7f)")
    case True
    then show ?thesis by (subst skip_unprintable.simps) (auto simp: isprint_7bit pos_def Let_def)
  next
    case False
    with lt have "unat c mod 128 < 32 \<or> unat c mod 128 = 127" by (auto simp: isprint_7bit)
    then have "pos (c + 1) = pos c" using mod_128_plus_1 [of c] by (auto simp: pos_def Let_def)
    with 1 False show ?thesis by (subst skip_unprintable.simps) simp
  qed
qed

lemma pos_lt: "pos c < 95"
proof -
  have "unat c mod 128 < 128" by simp
  then show ?thesis unfolding pos_def Let_def by (auto simp: less_diff_conv2)
qed

lemma pos_next: "pos (skip_unprintable c + 1) = (pos c + 1) mod 95"
proof -
  have "unat (skip_unprintable c + 1) mod 128 = (if pos c = 95 - 1 + 1 then 0 else 33 + pos c)"
    using mod_128_plus_1 [of "skip_unprintable c"] skip_pos [of c] pos_lt [of c] by auto
  then show ?thesis using pos_lt [of c] by (auto simp: pos_def [of "skip_unprintable c + 1"] Let_def)
qed

lemma pattern_loop_eq: "pattern_loop c n = map (\<lambda>i. word_of_nat (32 + (pos c + i) mod 95)) [0..<n]"
proof (induction n arbitrary: c)
  case 0
  then show ?case by simp
next
  case (Suc n)
  have "unat (skip_unprintable c AND 0x7f) = 32 + pos c" by (simp add: unat_and_127 skip_pos)
  moreover have "skip_unprintable c AND 0x7f = word_of_nat (unat (skip_unprintable c AND 0x7f))" by simp
  ultimately have hd: "skip_unprintable c AND 0x7f = word_of_nat (32 + pos c)" by metis
  have tl: "[0..<Suc n] = 0 # map Suc [0..<n]" by (simp add: upt_conv_Cons map_Suc_upt del: upt_Suc)
  have shift: "(Suc (pos c) mod 95 + i) mod 95 = Suc (pos c + i) mod 95" for i by (metis add_Suc mod_add_left_eq)
  show ?case
    unfolding tl using pos_lt [of c] by (simp add: Let_def hd Suc.IH pos_next shift del: upt_Suc)
qed

text \<open>The data sent in source mode are the 95 printable ASCII characters in order, over and over,
  as many as the buffer holds.\<close>

theorem ttcp_pattern: "pattern cnt = map (\<lambda>i. word_of_nat (32 + i mod 95)) [0..<nat cnt]"
  by (simp add: pattern_def pattern_loop_eq pos_def)

section \<open>The buffer\<close>

lemma smod_nonneg: "0 \<le> a \<Longrightarrow> 0 < b \<Longrightarrow> a smod b = a mod b" for a b :: int
  by (simp add: signed_modulo_int_def sgn_if modulo_int_def)

text \<open>With a positive alignment and an offset that is not negative, the buffer starts at the
  address asked for modulo the alignment, and the \<open>buflen\<close> bytes of it lie inside the block allocated.\<close>

theorem ttcp_buffer_placed:
  assumes "0 < p" "0 < bufalign c" "0 \<le> bufoffset c"
  shows "p \<le> buf_start p c \<and> buf_start p c + buflen c < p + (buflen c + bufalign c) \<and>
    buf_start p c mod bufalign c = bufoffset c mod bufalign c"
proof -
  let ?a = "bufalign c"
  have "p smod ?a = p mod ?a" using assms by (simp add: smod_nonneg)
  moreover have "0 \<le> ?a - p mod ?a + bufoffset c"
    using assms pos_mod_bound [of ?a p] by linarith
  ultimately have start: "buf_start p c = p + (?a - p mod ?a + bufoffset c) mod ?a"
    using assms(2) by (simp add: buf_start_def smod_nonneg)
  have "(p + (?a - p mod ?a + bufoffset c)) mod ?a = (p - p mod ?a + (?a + bufoffset c)) mod ?a"
    by (simp add: algebra_simps)
  also have "\<dots> = bufoffset c mod ?a"
    by (metis add.commute minus_mod_eq_mult_div mod_add_self1 mod_mult_self4 mult.commute)
  finally show ?thesis
    using assms(2) by (simp add: start mod_add_right_eq)
qed

lemma buf_start_underruns:
  \<comment> \<open>an offset below minus the alignment puts the buffer in front of the block\<close>
  "buf_start 16384 (initialize_vars\<lparr>bufoffset := -20000\<rparr>) < 16384"
  by (simp add: buf_start_def initialize_vars_def signed_modulo_int_def signed_divide_int_def)

section \<open>What the ends of a transfer count\<close>

lemma mread_fills_acc:
  assumes "\<forall>r \<in> set rs. \<exists>b bs. r = Got (b # bs)" "n \<le> length acc + length rs" "length acc < n"
  shows "\<exists>d rs' x'. mread n acc rs x = Some (int n, d, rs', x') \<and> length d = n"
  using assms
proof (induction rs arbitrary: acc x)
  case Nil
  then show ?case by simp
next
  case (Cons r rs)
  then obtain b bs where r: "r = Got (b # bs)" by auto
  let ?d = "take (n - length acc) (b # bs)"
  have d: "?d \<noteq> []" "length (acc @ ?d) \<le> n" "length acc < length (acc @ ?d)" using Cons.prems(3) by auto
  show ?case
  proof (cases "length (acc @ ?d) < n")
    case True
    with Cons.IH [of "acc @ ?d"] Cons.prems d r show ?thesis by (auto simp: Let_def)
  next
    case False
    with d r show ?thesis by (auto simp: Let_def)
  qed
qed

text \<open>\<open>mread\<close> fills the buffer. As long as the connection delivers something with each read,
  however little, it returns exactly the number of bytes asked for, after at most that many reads.\<close>

theorem mread_fills:
  assumes "0 < n" "n \<le> length rs" "\<forall>r \<in> set rs. \<exists>b bs. r = Got (b # bs)"
  shows "\<exists>d rs' x'. mread n [] rs x = Some (int n, d, rs', x') \<and> length d = n"
  using assms by (intro mread_fills_acc) auto

lemma source_complete:
  assumes "0 < buflen c" "length buf = nat (buflen c)"
  shows "source c buf (int n) (replicate n (Put (nat (buflen c))) @ ws) x =
    Some (ws, x\<lparr>nbytes := nbytes x + n * nat (buflen c), numCalls := numCalls x + n, wire := wire x @ replicate n buf\<rparr>)"
proof (induction n arbitrary: x)
  case 0
  then show ?case by (simp add: source.simps)
next
  case (Suc n)
  show ?case
    using assms by (subst source.simps) (simp add: Suc.IH Let_def)
qed

lemma sink_tcp_counts:
  assumes "\<not> udp c" "\<not> b_flag c" "\<forall>s \<in> set segs. s \<noteq> [] \<and> length s \<le> request c"
  shows "\<exists>x'. sink_tcp c (map Got segs @ [Got []]) x = Some x' \<and> nbytes x' = nbytes x + length (concat segs) \<and> errno x' = errno x"
  using assms(3)
proof (induction segs arbitrary: x)
  case Nil
  with assms show ?case by (subst sink_tcp.simps) (simp add: Nread_def Let_def)
next
  case (Cons s segs)
  then have s: "s \<noteq> []" "length s \<le> request c" by auto
  let ?x = "x\<lparr>numCalls := numCalls x + 1, nbytes := nbytes x + length s\<rparr>"
  have "\<forall>s \<in> set segs. s \<noteq> [] \<and> length s \<le> request c" using Cons.prems by simp
  from Cons.IH [OF this, of ?x] obtain x' where "sink_tcp c (map Got segs @ [Got []]) ?x = Some x'"
    "nbytes x' = nbytes ?x + length (concat segs)" "errno x' = errno ?x" by blast
  with assms(1,2) s show ?case by (subst sink_tcp.simps) (simp add: Nread_def Let_def)
qed

text \<open>C27: Both ends of a TCP transfer count the same. A sender in source mode whose writes are accepted
  puts \<open>nbuf\<close> buffers on the connection and counts their bytes; a receiver in sink mode that reads those
  bytes up to the end of the connection, in whatever pieces, returns with the same count, and neither
  reports an error.\<close>

theorem ttcp_counts_agree:
  fixes nb :: nat
  assumes "sinkmode cs" "trans cs" "\<not> udp cs" "0 < buflen cs" "nbuf cs = int nb"
    and "to_net es = replicate nb (Put (nat (buflen cs)))"
    and "sinkmode cr" "\<not> trans cr" "\<not> udp cr" "\<not> b_flag cr"
    and "from_net er = map Got segs @ [Got []]" "\<forall>s \<in> set segs. s \<noteq> [] \<and> length s \<le> request cr"
    and "concat segs = concat (replicate nb (pattern (buflen cs)))" "nbytes x = 0" "wire x = []" "errno x = 0"
  shows "\<exists>ws xs xr. transfer cs es x = Some ([], xs) \<and> transfer cr er x = Some (ws, xr) \<and>
    concat (wire xs) = concat segs \<and> nbytes xs = nb * nat (buflen cs) \<and> nbytes xr = nbytes xs \<and>
    errno xs = 0 \<and> errno xr = 0"
proof -
  have len: "length (pattern (buflen cs)) = nat (buflen cs)" by (simp add: pattern_def pattern_loop_eq)
  have bytes: "length (concat (replicate n (pattern (buflen cs)))) = n * nat (buflen cs)" for n
    using len by (induction n) simp_all
  from source_complete [OF assms(4) len, of nb "[]"]
  have send: "transfer cs es x = Some ([], x\<lparr>nbytes := nb * nat (buflen cs), numCalls := numCalls x + nb,
      wire := replicate nb (pattern (buflen cs)), head4 := take 4 (pattern (buflen cs))\<rparr>)"
    using assms by (simp add: transfer_def Let_def)
  from sink_tcp_counts [OF assms(9,10,12), of x] obtain xr
    where recv: "sink_tcp cr (from_net er) x = Some xr" "nbytes xr = length (concat segs)" "errno xr = 0"
    using assms(11,14,16) by auto
  then have "transfer cr er x = Some (to_net er, xr)" using assms(7-9) by (simp add: transfer_def)
  with send recv bytes [of nb] assms(13,16) show ?thesis by simp
qed

lemma sink_udp_data:
  assumes "udp c" "going x" "\<forall>s \<in> set segs. 4 < length s \<and> length s \<le> request c" "s \<noteq> []" "length s \<le> 4" "4 < request c"
  shows "\<exists>x'. sink_udp c (map Got segs @ Got s # rs) x = Some x' \<and> nbytes x' = nbytes x + length (concat segs) \<and> going x'"
  using assms(2,3)
proof (induction segs arbitrary: x)
  case Nil
  with assms show ?case by (subst sink_udp.simps) (simp add: Nread_def Let_def)
next
  case (Cons d segs)
  let ?x = "x\<lparr>numCalls := numCalls x + 1, nbytes := nbytes x + length d\<rparr>"
  have "\<forall>s \<in> set segs. 4 < length s \<and> length s \<le> request c" "going ?x" using Cons.prems by simp_all
  from Cons.IH [OF this(2,1)] obtain x' where "sink_udp c (map Got segs @ Got s # rs) ?x = Some x'"
    "nbytes x' = nbytes ?x + length (concat segs)" "going x'" by blast
  with assms(1) Cons.prems show ?case by (subst sink_udp.simps) (auto simp: Nread_def Let_def)
qed

text \<open>The datagram receiver works once. Its first run counts the bytes of the datagrams
  between the two sentinels. The flag \<open>going\<close> is static and never reset, so every later run in the same
  session takes the sentinel that opens the transfer for the one that closes it, and returns with a count
  of zero.\<close>

theorem ttcp_udp_second_run:
  assumes "udp c" "4 < request c" "\<forall>s \<in> set segs. 4 < length s \<and> length s \<le> request c"
    and "s0 \<noteq> []" "length s0 \<le> 4" "s1 \<noteq> []" "length s1 \<le> 4" "\<not> going x" "nbytes x = 0"
  shows "\<exists>x1 x2. sink_udp c (Got s0 # map Got segs @ [Got s1]) x = Some x1 \<and>
    nbytes x1 = length (concat segs) \<and>
    sink_udp c (Got s0 # map Got segs @ [Got s1]) (x\<lparr>going := going x1\<rparr>) = Some x2 \<and> nbytes x2 = 0"
proof -
  let ?x = "x\<lparr>numCalls := numCalls x + 1, going := True\<rparr>"
  obtain x1 where "sink_udp c (map Got segs @ [Got s1]) ?x = Some x1" "nbytes x1 = length (concat segs)" "going x1"
    using sink_udp_data [OF assms(1) _ assms(3,6,7,2), of ?x "[]"] assms(9) by auto
  then have first: "sink_udp c (Got s0 # map Got segs @ [Got s1]) x = Some x1"
    using assms by (subst sink_udp.simps) (simp add: Nread_def Let_def)
  have "sink_udp c (Got s0 # map Got segs @ [Got s1]) (x\<lparr>going := True\<rparr>) = Some (x\<lparr>numCalls := numCalls x + 1, going := True\<rparr>)"
    using assms by (subst sink_udp.simps) (simp add: Nread_def Let_def)
  with first \<open>nbytes x1 = _\<close> \<open>going x1\<close> assms(9) show ?thesis by simp
qed

section \<open>What is released\<close>

definition balanced :: "tt_ev list \<Rightarrow> bool" where
  "balanced evs \<longleftrightarrow> count_list evs T_malloc = count_list evs T_free \<and>
     (\<forall>fd. T_open fd \<in> set evs \<longrightarrow> T_close fd \<in> set evs)"

lemma setup_socket_err:
  assumes "setup_socket c e = Inl evs" "0 < tt_sock e" "0 < accepted e"
  shows "balanced (T_malloc # evs)"
  using assms
  by (auto simp: setup_socket_def connect_out_def listen_accept_def err_def balanced_def map_sum_def
      split: sum.splits if_splits)

lemma setup_socket_ok:
  assumes "setup_socket c e = Inr (evs, fd)" "0 < tt_sock e" "0 < accepted e"
  shows "0 < fd \<and> count_list evs T_malloc = 0 \<and> count_list evs T_free = 0 \<and>
    (\<forall>f. T_open f \<in> set evs \<longrightarrow> f = fd \<or> T_close f \<in> set evs)"
  using assms
  by (auto simp: setup_socket_def connect_out_def listen_accept_def
      split: sum.splits if_splits)

lemma finish_releases:
  assumes "finish c e fd r = Some (rc, evs, x)" "0 < fd"
  shows "count_list evs T_malloc = 0 \<and> count_list evs T_free = 1 \<and> T_close fd \<in> set evs \<and> (\<forall>f. T_open f \<notin> set evs)"
  using assms by (auto simp: finish_def err_def split: prod.splits if_splits option.splits)

text \<open>C33: Whatever fails, and wherever, the buffer is freed exactly once and every descriptor is closed
  when the routine returns, provided \<open>accept\<close> succeeds. The descriptors are positive, 0 being the
  standard input.\<close>

theorem ttcp_releases:
  assumes "rtems_shell_main_ttcp ia gh e argc opts operands g = Some (rc, evs, x)" "0 < tt_sock e" "0 < accepted e"
  shows "count_list evs T_malloc = count_list evs T_free \<and> (\<forall>fd. T_open fd \<in> set evs \<longrightarrow> T_close fd \<in> set evs)"
proof -
  have "balanced evs"
  proof (cases "\<exists>c. parse_opts opts initialize_vars = Some c \<and> (\<exists>evs fd. setup_socket (udp_buflen c) e = Inr (evs, fd))")
    case False
    with assms show ?thesis
      by (auto simp: rtems_shell_main_ttcp_def Let_def err_def setup_socket_err balanced_def
          dest!: setup_socket_err split: if_splits option.splits sum.splits)
  next
    case True
    then obtain c evs1 fd where c: "parse_opts opts initialize_vars = Some c" "setup_socket (udp_buflen c) e = Inr (evs1, fd)"
      by blast
    note ok = setup_socket_ok [OF c(2) assms(2,3)]
    from assms(1) consider "evs = [] \<or> evs = err ''bad hostname'' False 0 \<or> evs = err ''malloc'' False 0"
      | r evs2 where "finish (udp_buflen c) e fd r = Some (rc, evs2, x)" "evs = T_malloc # evs1 @ evs2"
      by (auto simp: rtems_shell_main_ttcp_def Let_def c bind_eq_Some_conv split: if_splits)
    then show ?thesis
    proof cases
      case 1
      then show ?thesis by (auto simp: balanced_def err_def)
    next
      case 2
      with finish_releases [OF 2(1)] ok show ?thesis by (auto simp: balanced_def)
    qed
  qed
  then show ?thesis by (simp add: balanced_def)
qed

text \<open>When \<open>accept\<close> fails, its result overwrites the variable that holds the descriptor before
  the error routine closes it, so the listening socket stays open.\<close>

theorem ttcp_accept_leaks:
  assumes "\<not> udp c" "\<not> trans c" "\<not> so_debug c" "sockbufsize c = 0" "bind_ok e" "0 < tt_sock e" "accepted e < 0"
  shows "\<exists>evs. setup_socket c e = Inl evs \<and> T_open (tt_sock e) \<in> set evs \<and> T_close (tt_sock e) \<notin> set evs"
  using assms by (simp add: setup_socket_def listen_accept_def err_def)

section \<open>Times\<close>

lemma tvsub_correct:
  assumes "0 \<le> snd t1" "snd t1 < 1000000" "0 \<le> snd t0" "snd t0 < 1000000"
  shows "0 \<le> snd (tvsub t1 t0) \<and> snd (tvsub t1 t0) < 1000000 \<and>
    fst (tvsub t1 t0) * 1000000 + snd (tvsub t1 t0) = (fst t1 * 1000000 + snd t1) - (fst t0 * 1000000 + snd t0)"
  using assms by (auto simp: tvsub_def Let_def)

lemma tvadd_not_normalised:
  \<comment> \<open>a sum of exactly one second of microseconds is not carried over\<close>
  "tvadd (0, 400000) (0, 600000) = (0, 1000000)"
  by (simp add: tvadd_def)

section \<open>Witnesses\<close>

definition sample_sender :: ttcp_cfg where
  "sample_sender = initialize_vars\<lparr>sinkmode := True, trans := True, buflen := 6, nbuf := 2\<rparr>"

definition sample_receiver :: ttcp_cfg where
  "sample_receiver = initialize_vars\<lparr>sinkmode := True\<rparr>"

definition sample_env :: tt_env where
  "sample_env = \<lparr>tt_alloc = 0x10000, tt_sock = 4, bind_ok = False, sockbuf_ok = True, debug_ok = True, nodelay_ok = True,
     connect_ok = True, accepted = 5, close_list_ok = True, peer_ok = True, heap4 = [], from_net = [], to_net = [],
     from_stdin = [], to_stdout = [], close_ok = True\<rparr>"

definition sample_xfer :: xfer where
  "sample_xfer = \<lparr>nbytes = 0, numCalls = 0, errno = 0, going = False, wire = [], console = [], head4 = []\<rparr>"

lemmas tt_samples = sample_sender_def sample_receiver_def sample_env_def sample_xfer_def initialize_vars_def

theorem ttcp_buffer_placed_witness:
  "1000 \<le> buf_start 1000 initialize_vars \<and>
   buf_start 1000 initialize_vars + buflen initialize_vars < 1000 + (buflen initialize_vars + bufalign initialize_vars) \<and>
   buf_start 1000 initialize_vars mod bufalign initialize_vars = bufoffset initialize_vars mod bufalign initialize_vars"
  by (rule ttcp_buffer_placed) (simp_all add: initialize_vars_def)

theorem mread_fills_witness:
  "\<exists>d rs' x'. mread 3 [] [Got [1], Got [2, 3], Got [4], Got [5]] sample_xfer = Some (int 3, d, rs', x') \<and> length d = 3"
  by (rule mread_fills) simp_all

lemma pattern_6: "pattern 6 = [32, 33, 34, 35, 36, 37]"
  by (simp add: pattern_def pattern_loop_eq pos_def upt_rec)

lemma request_receiver: "request sample_receiver = 8192"
  by (simp add: request_def tt_samples)

theorem ttcp_counts_agree_witness:
  "\<exists>ws xs xr. transfer sample_sender (sample_env\<lparr>to_net := replicate 2 (Put 6)\<rparr>) sample_xfer = Some ([], xs) \<and>
    transfer sample_receiver (sample_env\<lparr>from_net := map Got [[32, 33, 34], [35, 36, 37, 32, 33, 34, 35, 36], [37]] @ [Got []]\<rparr>)
      sample_xfer = Some (ws, xr) \<and>
    concat (wire xs) = concat [[32, 33, 34], [35, 36, 37, 32, 33, 34, 35, 36], [37]] \<and>
    nbytes xs = 2 * nat (buflen sample_sender) \<and> nbytes xr = nbytes xs \<and> errno xs = 0 \<and> errno xr = 0"
  by (rule ttcp_counts_agree)
    (simp_all add: request_receiver pattern_6 sample_sender_def sample_env_def sample_xfer_def numeral_2_eq_2,
     simp_all add: sample_receiver_def initialize_vars_def)

theorem ttcp_udp_second_run_witness:
  "\<exists>x1 x2. sink_udp (sample_receiver\<lparr>udp := True\<rparr>) (Got [1, 2, 3, 4] # map Got [[1, 2, 3, 4, 5]] @ [Got [1, 2, 3, 4]]) sample_xfer = Some x1 \<and>
    nbytes x1 = length (concat [[1, 2, 3, 4, 5 :: u8]]) \<and>
    sink_udp (sample_receiver\<lparr>udp := True\<rparr>) (Got [1, 2, 3, 4] # map Got [[1, 2, 3, 4, 5]] @ [Got [1, 2, 3, 4]])
      (sample_xfer\<lparr>going := going x1\<rparr>) = Some x2 \<and> nbytes x2 = 0"
  by (rule ttcp_udp_second_run) (simp_all add: request_def tt_samples)

definition idle_xfer :: xfer where
  "idle_xfer = \<lparr>nbytes = 0, numCalls = 0, errno = 0, going = False, wire = [], console = [], head4 = []\<rparr>"

theorem ttcp_releases_witness:
  "rtems_shell_main_ttcp (\<lambda>_. 0) (\<lambda>_. None) sample_env 2 [(CHR ''r'', [])] [] False =
     Some (1, [T_malloc, T_open 4, T_err ''bind'', T_free, T_close 4], idle_xfer) \<and>
   0 < tt_sock sample_env \<and> 0 < accepted sample_env \<and>
   count_list [T_malloc, T_open 4, T_err ''bind'', T_free, T_close 4] T_malloc =
     count_list [T_malloc, T_open 4, T_err ''bind'', T_free, T_close 4] T_free"
proof -
  have *: "rtems_shell_main_ttcp (\<lambda>_. 0) (\<lambda>_. None) sample_env 2 [(CHR ''r'', [])] [] False =
     Some (1, [T_malloc, T_open 4, T_err ''bind'', T_free, T_close 4], idle_xfer)"
    "0 < tt_sock sample_env" "0 < accepted sample_env"
    by (simp_all add: rtems_shell_main_ttcp_def apply_opt_def udp_buflen_def setup_socket_def err_def tt_samples idle_xfer_def)
  then show ?thesis using ttcp_releases [OF *] by blast
qed

theorem ttcp_accept_leaks_witness:
  "\<exists>evs. setup_socket sample_receiver (sample_env\<lparr>bind_ok := True, accepted := -1\<rparr>) = Inl evs \<and>
     T_open (tt_sock (sample_env\<lparr>bind_ok := True, accepted := -1\<rparr>)) \<in> set evs \<and>
     T_close (tt_sock (sample_env\<lparr>bind_ok := True, accepted := -1\<rparr>)) \<notin> set evs"
  by (rule ttcp_accept_leaks) (simp_all add: tt_samples)

end
