(* ===== verification/Ttcp_Report.thy ===== *)
theory Ttcp_Report
  imports Ttcp_Transfer Digits Complex_Main
begin

text \<open>
  The timers and the report of \<^verbatim>\<open>miscUtils/ttcp.c\<close>, for RTEMS and for a host, where the resource usage of the
  process is printed too. Values of type \<open>double\<close> are rational numbers: the divisions by powers of 1024 are exact
  in binary floating point, of the others the rounding is not modelled. A conversion \<open>%.0f\<close> or \<open>%.2f\<close> keeps its
  value, \<open>None\<close> standing for the result of a division by zero. Counters of type \<open>long\<close> are integers; what the source
  converts to \<open>int\<close> is cut to 32 bits.
\<close>

section \<open>Model\<close>

record rusage =
  ru_utime :: timeval
  ru_stime :: timeval
  ru_maxrss :: int
  ru_ixrss :: int
  ru_idrss :: int
  ru_isrss :: int
  ru_minflt :: int
  ru_majflt :: int
  ru_nswap :: int
  ru_inblock :: int
  ru_oublock :: int
  ru_nvcsw :: int
  ru_nivcsw :: int

record tt_timer =
  time0 :: timeval
  ru0 :: rusage

datatype item = Txt string | Num_d int | Fix0 rat | Fix2 "rat option" | Addr_p u32

definition outfmt :: "char \<Rightarrow> rat \<Rightarrow> rat \<times> string" where
  "outfmt f b =
     (if f = CHR ''G'' then (b / 1024 / 1024 / 1024, '' GB'')
      else if f = CHR ''M'' then (b / 1024 / 1024, '' MB'')
      else if f = CHR ''g'' then (b * 8 / 1024 / 1024 / 1024, '' Gbit'')
      else if f = CHR ''k'' then (b * 8 / 1024, '' Kbit'')
      else if f = CHR ''m'' then (b * 8 / 1024 / 1024, '' Mbit'')
      else (b / 1024, '' KB''))"

definition tms_timeval :: "int \<Rightarrow> int \<Rightarrow> timeval" where
  \<comment> \<open>for System V, a time in ticks of \<open>HZ\<close> per second; the product is a 32-bit \<open>long\<close>\<close>
  "tms_timeval hz ticks = (ticks sdiv hz, sint (word_of_int ((ticks smod hz) * 1000000) :: u32) sdiv hz)"

definition prep_timer :: "timeval \<Rightarrow> rusage \<Rightarrow> tt_timer" where
  \<comment> \<open>the arguments are what \<open>gettimeofday\<close> and \<open>getrusage\<close> report\<close>
  "prep_timer now ru = \<lparr>time0 = now, ru0 = ru\<rparr>"

definition psecs :: "int \<Rightarrow> string" where
  "psecs l =
     (let i = l sdiv 3600;
          (hm, i) = (if i \<noteq> 0
            then (let j = l smod 3600 in (dec i @ '':'' @ dec (j sdiv 60 sdiv 10) @ dec (j sdiv 60 smod 10), j))
            else (dec (l sdiv 60), l));
          i = i smod 60 in
      hm @ '':'' @ dec (i sdiv 10) @ dec (i smod 10))"

definition cpu_ticks :: "rusage \<Rightarrow> rusage \<Rightarrow> int" where
  \<comment> \<open>\<open>t\<close>, in hundredths of a second\<close>
  "cpu_ticks r0 r1 =
     (fst (ru_utime r1) - fst (ru_utime r0)) * 100 + (snd (ru_utime r1) - snd (ru_utime r0)) sdiv 10000 +
     (fst (ru_stime r1) - fst (ru_stime r0)) * 100 + (snd (ru_stime r1) - snd (ru_stime r0)) sdiv 10000"

definition as_int :: "int \<Rightarrow> int" where
  \<comment> \<open>conversion to \<open>int\<close>\<close>
  "as_int i = sint (word_of_int i :: u32)"

definition real_ticks :: "timeval \<Rightarrow> timeval \<Rightarrow> int" where
  \<comment> \<open>\<open>ms\<close>, in hundredths of a second\<close>
  "real_ticks e b = as_int ((fst e - fst b) * 100 + (snd e - snd b) sdiv 10000)"

definition prusage_item :: "rusage \<Rightarrow> rusage \<Rightarrow> timeval \<Rightarrow> timeval \<Rightarrow> char \<Rightarrow> string" where
  \<comment> \<open>the switch on the letter behind the percent sign\<close>
  "prusage_item r0 r1 e b c =
     (let t = cpu_ticks r0 r1; ms = real_ticks e b;
          secs = (\<lambda>d :: timeval. dec (fst d) @ ''.'' @ dec (snd d sdiv 100000)) in
      if c = CHR ''U'' then secs (tvsub (ru_utime r1) (ru_utime r0))
      else if c = CHR ''S'' then secs (tvsub (ru_stime r1) (ru_stime r0))
      else if c = CHR ''E'' then psecs (ms sdiv 100)
      else if c = CHR ''P'' then dec (as_int ((t * 100) sdiv (if ms \<noteq> 0 then ms else 1))) @ ''%''
      else if c = CHR ''W'' then dec (ru_nswap r1 - ru_nswap r0)
      else if c = CHR ''X'' then dec (if t = 0 then 0 else (ru_ixrss r1 - ru_ixrss r0) sdiv t)
      else if c = CHR ''D'' then dec (if t = 0 then 0 else (ru_idrss r1 + ru_isrss r1 - (ru_idrss r0 + ru_isrss r0)) sdiv t)
      else if c = CHR ''K'' then dec (if t = 0 then 0
        else ((ru_ixrss r1 + ru_isrss r1 + ru_idrss r1) - (ru_ixrss r0 + ru_idrss r0 + ru_isrss r0)) sdiv t)
      else if c = CHR ''M'' then dec (ru_maxrss r1 sdiv 2)
      else if c = CHR ''F'' then dec (ru_majflt r1 - ru_majflt r0)
      else if c = CHR ''R'' then dec (ru_minflt r1 - ru_minflt r0)
      else if c = CHR ''I'' then dec (ru_inblock r1 - ru_inblock r0)
      else if c = CHR ''O'' then dec (ru_oublock r1 - ru_oublock r0)
      else if c = CHR ''C'' then dec (ru_nvcsw r1 - ru_nvcsw r0) @ ''+'' @ dec (ru_nivcsw r1 - ru_nivcsw r0)
      else [])"

fun prusage_loop :: "(char \<Rightarrow> string) \<Rightarrow> string \<Rightarrow> string" where
  \<comment> \<open>the loop over the format; a percent sign at the end prints nothing\<close>
  "prusage_loop item [] = []"
| "prusage_loop item (c # cs) =
     (if c \<noteq> CHR ''%'' then c # prusage_loop item cs
      else (case cs of [] \<Rightarrow> [] | d # ds \<Rightarrow> item d @ prusage_loop item ds))"

definition prusage :: "rusage \<Rightarrow> rusage \<Rightarrow> timeval \<Rightarrow> timeval \<Rightarrow> string" where
  "prusage r0 r1 e b =
     prusage_loop (prusage_item r0 r1 e b) ''%Uuser %Ssys %Ereal %P %Xi+%Dd %Mmaxrss %F+%Rpf %Ccsw''"

definition tv_secs :: "timeval \<Rightarrow> rat" where
  "tv_secs t = of_int (fst t) + of_int (snd t) / 1000000"

definition read_timer :: "bool \<Rightarrow> tt_timer \<Rightarrow> rusage \<Rightarrow> timeval \<Rightarrow> nat \<Rightarrow> string \<times> rat \<times> rat" where
  \<comment> \<open>whether this is RTEMS, then the start, the usage and the time now and the size of the string; the results
      are the string, \<open>realt\<close> and \<open>cput\<close>, the value returned\<close>
  "read_timer rtems tm ru1 timedol len =
     (let str = take len (if rtems then [] else prusage (ru0 tm) ru1 timedol (time0 tm));
          realt = tv_secs (tvsub timedol (time0 tm));
          cput = (if rtems then 0
                  else tv_secs (tvsub (tvadd (ru_utime ru1) (ru_stime ru1)) (tvadd (ru_utime (ru0 tm)) (ru_stime (ru0 tm)))));
          cput = (if cput < 1 / 100000 then 1 / 100000 else cput) in
      (str, realt, cput))"

definition fdiv :: "rat \<Rightarrow> rat \<Rightarrow> rat option" where
  "fdiv a b = (if b = 0 then None else Some (a / b))"

definition rate_item :: "ttcp_cfg \<Rightarrow> rat \<Rightarrow> item list" where
  "rate_item c b = (case outfmt (fmt c) b of (v, u) \<Rightarrow> [Fix2 (Some v), Txt u])"

definition ttcp_report :: "ttcp_cfg \<Rightarrow> xfer \<Rightarrow> rat \<Rightarrow> rat \<Rightarrow> string \<Rightarrow> u32 \<Rightarrow> item list list" where
  \<comment> \<open>the lines printed at the end of a run\<close>
  "ttcp_report c x realt cput stats buf =
     (let cput = (if cput \<le> 0 then 1 / 1000 else cput); realt = (if realt \<le> 0 then 1 / 1000 else realt);
          me = Txt (if trans c then ''ttcp-t: '' else ''ttcp-r: ''); n = of_nat (nbytes x) in
      [[me, Fix0 n, Txt '' bytes in '', Fix2 (Some realt), Txt '' real seconds = ''] @ rate_item c (n / realt) @ [Txt ''/sec +++'']] @
      (if verbose c
       then [[me, Fix0 n, Txt '' bytes in '', Fix2 (Some cput), Txt '' CPU seconds = ''] @ rate_item c (n / cput) @ [Txt ''/cpu sec'']]
       else []) @
      [[me, Num_d (int (numCalls x)), Txt '' I/O calls, msec/call = '', Fix2 (fdiv (1024 * realt) (of_nat (numCalls x))),
        Txt '', calls/sec = '', Fix2 (Some (of_nat (numCalls x) / realt))], [me, Txt stats]] @
      (if verbose c then [[me, Txt ''buffer address '', Addr_p buf]] else []))"

section \<open>The timers\<close>

lemma tv_secs_tvsub: "tv_secs (tvsub t1 t0) = tv_secs t1 - tv_secs t0"
  by (auto simp: tv_secs_def tvsub_def Let_def add_divide_distrib diff_divide_distrib)

lemma tv_secs_tvadd: "tv_secs (tvadd t0 t1) = tv_secs t0 + tv_secs t1"
  by (auto simp: tv_secs_def tvadd_def Let_def add_divide_distrib diff_divide_distrib)

text \<open>The timers are exact. The real time is the difference of the two readings of the clock, and on a host the
  processor time is the growth of user and system time together, at least ten microseconds; the missing carry in
  \<open>tvadd\<close> has no effect, whether or not the readings are normalised. On RTEMS the processor time is ten
  microseconds.\<close>
theorem read_timer_exact:
  "read_timer rtems (prep_timer t0 r0) r1 t1 len =
    (take len (if rtems then [] else prusage r0 r1 t1 t0), tv_secs t1 - tv_secs t0,
     if rtems then 1 / 100000
     else max (1 / 100000) (tv_secs (ru_utime r1) + tv_secs (ru_stime r1) - (tv_secs (ru_utime r0) + tv_secs (ru_stime r0))))"
  by (simp add: read_timer_def prep_timer_def Let_def tv_secs_tvsub tv_secs_tvadd max_def)

text \<open>The conversion of ticks is exact to the microsecond and normalised up to the rate that the comment in the
  source names; beyond it the product can wrap around.\<close>

lemma sdiv_smod_pos: "0 \<le> a \<Longrightarrow> 0 < b \<Longrightarrow> a sdiv b = a div b \<and> a smod b = a mod b" for a b :: int
  by (simp add: signed_divide_int_def signed_modulo_int_def sgn_if minus_div_mult_eq_mod)

lemma tms_timeval_exact:
  assumes "0 < hz" "hz \<le> 2147" "0 \<le> ticks"
  shows "tms_timeval hz ticks = (ticks div hz, ticks mod hz * 1000000 div hz)"
    and "0 \<le> snd (tms_timeval hz ticks)" "snd (tms_timeval hz ticks) < 1000000"
proof -
  have m: "0 \<le> ticks mod hz" "ticks mod hz < hz" using assms(1) by simp_all
  then have "ticks mod hz * 1000000 < 2 ^ 31" using assms(2) by simp
  moreover have "sint (word_of_int x :: u32) = x" if "0 \<le> x" "x < 2 ^ 31" for x
    using that by (simp add: signed_of_int signed_take_bit_int_eq_self)
  ultimately have "sint (word_of_int (ticks mod hz * 1000000) :: u32) = ticks mod hz * 1000000"
    using m(1) by (metis mult_nonneg_nonneg zero_le_numeral)
  then show *: "tms_timeval hz ticks = (ticks div hz, ticks mod hz * 1000000 div hz)"
    using assms m by (simp add: tms_timeval_def sdiv_smod_pos)
  show "0 \<le> snd (tms_timeval hz ticks)" using assms(1) m by (simp add: * pos_imp_zdiv_nonneg_iff)
  have "ticks mod hz * 1000000 div hz * hz \<le> ticks mod hz * 1000000"
    using div_mult_mod_eq [of "ticks mod hz * 1000000" hz] assms(1) pos_mod_sign [of hz "ticks mod hz * 1000000"] by linarith
  also have "\<dots> < 1000000 * hz" using m by simp
  finally show "snd (tms_timeval hz ticks) < 1000000" using assms(1) by (simp add: *)
qed

section \<open>The clock\<close>

fun colon_fields :: "string \<Rightarrow> string list" where
  "colon_fields [] = [[]]"
| "colon_fields (c # cs) =
     (if c = CHR '':'' then [] # colon_fields cs else (case colon_fields cs of [] \<Rightarrow> [[c]] | f # fs \<Rightarrow> (c # f) # fs))"

definition clock_value :: "string \<Rightarrow> nat" where
  \<comment> \<open>the seconds that \<open>h:mm:ss\<close> or \<open>m:ss\<close> stands for\<close>
  "clock_value s = foldl (\<lambda>a f. 60 * a + fst (digits 10 f 0)) 0 (colon_fields s)"

lemma colon_fields_ne [simp]: "colon_fields s \<noteq> []"
  by (cases s) (auto split: list.splits)

lemma colon_fields_append: "CHR '':'' \<notin> set a \<Longrightarrow> colon_fields (a @ CHR '':'' # b) = a # colon_fields b"
  by (induction a) auto

lemma colon_fields_last: "CHR '':'' \<notin> set a \<Longrightarrow> colon_fields a = [a]"
  by (induction a) auto

lemma dec_digits: "0 \<le> i \<Longrightarrow> c \<in> set (dec i) \<Longrightarrow> digit_val 10 c \<noteq> None"
  using base_chars_digits [of 10 c "nat i"] by (simp add: dec_def)

lemma no_colon: "(\<And>c. c \<in> set s \<Longrightarrow> digit_val 10 c \<noteq> None) \<Longrightarrow> CHR '':'' \<notin> set s"
  by (auto simp: digit_val_def dest: meta_spec [of _ "CHR '':''"])

lemma digits_dec: "0 \<le> i \<Longrightarrow> digits 10 (dec i) 0 = (nat i, length (dec i))"
  using digits_base_chars [of 10 "nat i"] by (simp add: dec_def)

lemma dec_no_colon: "0 \<le> i \<Longrightarrow> CHR '':'' \<notin> set (dec i)"
  by (rule no_colon [OF dec_digits])

definition two :: "int \<Rightarrow> string" where
  "two i = dec (i sdiv 10) @ dec (i smod 10)"

lemma two_digits:
  assumes "0 \<le> i"
  shows "fst (digits 10 (two i) 0) = nat i" "CHR '':'' \<notin> set (two i)"
proof -
  have d: "i sdiv 10 = i div 10" "i smod 10 = i mod 10" using sdiv_smod_pos [OF assms, of 10] by simp_all
  have "dec (i mod 10) = [hex_char (nat (i mod 10))]" "nat (i mod 10) < 10" using assms by (simp_all add: dec_def base_chars_digit)
  then have "digits 10 (dec (i mod 10)) v = (v * 10 + nat (i mod 10), 1)" for v by (simp add: digit_val_hex_char_base)
  moreover have "\<forall>c \<in> set (dec (i div 10)). digit_val 10 c \<noteq> None" using dec_digits [of "i div 10"] assms by auto
  moreover have "nat (i div 10) * 10 + nat (i mod 10) = nat i" using assms by (simp add: nat_div_distrib nat_mod_distrib)
  ultimately show "fst (digits 10 (two i) 0) = nat i"
    using digits_dec [of "i div 10"] assms unfolding two_def d by (simp add: digits_append)
  show "CHR '':'' \<notin> set (two i)" using assms dec_no_colon unfolding two_def d by auto
qed

lemma psecs_shape:
  assumes "0 \<le> l"
  shows "psecs l = (if l div 3600 \<noteq> 0 then dec (l div 3600) @ '':'' @ two (l mod 3600 div 60) else dec (l div 60)) @
     '':'' @ two (l mod 60)"
proof -
  have "l mod 3600 mod 60 = l mod 60" by (rule mod_mod_cancel) simp
  then show ?thesis
    using assms sdiv_smod_pos [OF assms, of 3600] sdiv_smod_pos [OF assms, of 60] sdiv_smod_pos [of "l mod 3600" 60]
    by (simp add: psecs_def two_def Let_def)
qed

text \<open>The elapsed time printed as hours, minutes and seconds stands for the number of seconds it was
  made from, for every nonnegative number of seconds.\<close>
theorem psecs_reads:
  assumes "0 \<le> l"
  shows "int (clock_value (psecs l)) = l"
proof -
  have m: "int (nat (l mod 60)) = l mod 60" "0 \<le> l mod 60" "0 \<le> l mod 3600 div 60" by simp_all
  note d = dec_no_colon digits_dec two_digits colon_fields_append colon_fields_last
  show ?thesis
  proof (cases "l div 3600 = 0")
    case True
    have "clock_value (psecs l) = 60 * nat (l div 60) + nat (l mod 60)"
      unfolding psecs_shape [OF assms] using True assms m by (simp add: clock_value_def d)
    then show ?thesis using assms pos_imp_zdiv_nonneg_iff [of 60 l] by simp
  next
    case False
    have "clock_value (psecs l) = 60 * (60 * nat (l div 3600) + nat (l mod 3600 div 60)) + nat (l mod 60)"
      unfolding psecs_shape [OF assms] using False assms m by (simp add: clock_value_def d)
    moreover have "60 * (60 * (l div 3600) + l mod 3600 div 60) + l mod 60 = l"
    proof -
      have "l mod 3600 mod 60 = l mod 60" by (rule mod_mod_cancel) simp
      moreover have "60 * (60 * q + a) + r' = l" if "q * 3600 + r = l" "a * 60 + r' = r" for q r a r' using that by (auto simp: algebra_simps)
      ultimately show ?thesis using div_mult_mod_eq [of l 3600] div_mult_mod_eq [of "l mod 3600" 60] by metis
    qed
    moreover have "int (60 * (60 * nat q + nat a) + nat r) = 60 * (60 * q + a) + r" if "0 \<le> q" "0 \<le> a" "0 \<le> r" for q a r
      using that by simp
    ultimately show ?thesis using assms m pos_imp_zdiv_nonneg_iff [of 3600 l] by (metis zero_less_numeral)
  qed
qed

theorem psecs_reads_witness: "psecs 3725 = ''1:02:05'' \<and> clock_value (psecs 3725) = 3725"
proof -
  have "psecs 3725 = ''1:02:05''"
    by (simp add: psecs_shape two_def sdiv_smod_pos dec_def base_chars_digit hex_char_def char_of_def bit_Suc_0_iff)
  then show ?thesis using psecs_reads [of 3725] by simp
qed

section \<open>The rates\<close>

definition unit_bytes :: "char \<Rightarrow> rat" where
  \<comment> \<open>how many bytes make the unit that the option selects, bits being eighths\<close>
  "unit_bytes f =
     (if f = CHR ''G'' then 2 ^ 30 else if f = CHR ''M'' then 2 ^ 20 else if f = CHR ''g'' then 2 ^ 27
      else if f = CHR ''k'' then 2 ^ 7 else if f = CHR ''m'' then 2 ^ 17 else 2 ^ 10)"

lemma outfmt_scales: "fst (outfmt f b) * unit_bytes f = b"
  by (simp add: outfmt_def unit_bytes_def)

text \<open>The first line of the report is consistent: the number of bytes it shows is the product of the seconds
  and the rate it shows, in the unit selected, and the seconds are positive whatever the clock did.\<close>
theorem ttcp_report_rate:
  "\<exists>t v u. hd (ttcp_report c x realt cput stats buf) =
     [Txt (if trans c then ''ttcp-t: '' else ''ttcp-r: ''), Fix0 (of_nat (nbytes x)), Txt '' bytes in '', Fix2 (Some t),
      Txt '' real seconds = '', Fix2 (Some v), Txt u, Txt ''/sec +++''] \<and>
    0 < t \<and> (0 < realt \<longrightarrow> t = realt) \<and> v * unit_bytes (fmt c) * t = of_nat (nbytes x)"
proof -
  define t where "t = (if realt \<le> 0 then 1 / 1000 else realt)"
  obtain v u where vu: "outfmt (fmt c) (of_nat (nbytes x) / t) = (v, u)" by fastforce
  have "0 < t" by (simp add: t_def)
  moreover have "v * unit_bytes (fmt c) = of_nat (nbytes x) / t"
    using outfmt_scales [of "fmt c" "of_nat (nbytes x) / t"] by (simp add: vu)
  ultimately show ?thesis
    by (intro exI [of _ t] exI [of _ v] exI [of _ u]) (simp add: ttcp_report_def Let_def rate_item_def vu t_def [symmetric], simp add: t_def)
qed

theorem ttcp_report_rate_witness:
  "\<exists>v u. v * 1024 * 2 = (of_nat 8192 :: rat) \<and> hd (ttcp_report initialize_vars (sample_xfer\<lparr>nbytes := 8192\<rparr>) 2 1 [] 0) =
     [Txt ''ttcp-r: '', Fix0 (of_nat 8192), Txt '' bytes in '', Fix2 (Some 2), Txt '' real seconds = '', Fix2 (Some v), Txt u, Txt ''/sec +++'']"
  using ttcp_report_rate [of initialize_vars "sample_xfer\<lparr>nbytes := 8192\<rparr>" 2 1 "[]" 0]
  by (auto simp: initialize_vars_def unit_bytes_def)

text \<open>The time per call is not in milliseconds, and without a call it is the result of a division by zero.\<close>

lemma ttcp_report_msec:
  assumes "0 < realt" "\<not> verbose c"
  shows "ttcp_report c x realt cput stats buf ! 1 ! 3 =
    Fix2 (if numCalls x = 0 then None else Some (1024 / 1000 * (1000 * realt / of_nat (numCalls x))))"
  using assms by (simp add: ttcp_report_def Let_def fdiv_def)

end
