(* ===== verification/Ttcp_Udp.thy ===== *)
theory Ttcp_Udp
  imports Ttcp_Transfer "HOL-Library.Sublist"
begin

unbundle bit_operations_syntax

text \<open>
  The datagram transfer of \<^verbatim>\<open>miscUtils/ttcp.c\<close> over a network that loses datagrams. The sender
  opens the transfer with a datagram of four bytes and closes it with five; what arrives is any
  subsequence of what was sent.
\<close>

section \<open>The receiver\<close>

lemma sink_udp_end: "udp c \<Longrightarrow> sink_udp c [] x = None"
  by (subst sink_udp.simps) (simp add: Nread_def)

lemma sink_udp_data1:
  "udp c \<Longrightarrow> 4 < length d \<Longrightarrow> length d \<le> request c \<Longrightarrow>
     sink_udp c (Got d # rs) x = sink_udp c rs (x\<lparr>numCalls := numCalls x + 1, nbytes := nbytes x + length d\<rparr>)"
  by (subst sink_udp.simps) (auto simp: Nread_def Let_def)

lemma sink_udp_mark:
  "udp c \<Longrightarrow> length d = 4 \<Longrightarrow> 4 \<le> request c \<Longrightarrow>
     sink_udp c (Got d # rs) x =
       (if going x then Some (x\<lparr>numCalls := numCalls x + 1\<rparr>) else sink_udp c rs (x\<lparr>numCalls := numCalls x + 1, going := True\<rparr>))"
  by (subst sink_udp.simps) (simp add: Nread_def Let_def)

lemma sink_udp_datas:
  "udp c \<Longrightarrow> 4 < length d \<Longrightarrow> length d \<le> request c \<Longrightarrow>
     sink_udp c (replicate k (Got d) @ rs) x = sink_udp c rs (x\<lparr>numCalls := numCalls x + k, nbytes := nbytes x + k * length d\<rparr>)"
  by (induction k arbitrary: x) (simp_all add: sink_udp_data1 algebra_simps)

text \<open>At most one mark, then data, then marks: the second mark ends the run, and without it the
  receiver is still waiting.\<close>

lemma sink_udp_arrivals:
  assumes "udp c" "4 < length d" "length d \<le> request c" "length s = 4" and "\<not> going x" "j \<le> 1"
  shows "sink_udp c (map Got (replicate j s @ replicate k d @ replicate m s)) x =
    (if 2 \<le> j + m then Some (x\<lparr>numCalls := numCalls x + k + 2, going := True, nbytes := nbytes x + k * length d\<rparr>) else None)"
proof -
  have r: "4 \<le> request c" using assms(2,3) by simp
  note marks = sink_udp_mark [OF assms(1,4) r] sink_udp_datas [OF assms(1-3)] sink_udp_datas [OF assms(1-3), where rs = "[]", simplified] sink_udp_end [OF assms(1)]
  consider "j = 0" "m = 0" | "j = 0" "m = 1" | n where "j = 0" "m = Suc (Suc n)" | "j = 1" "m = 0" | n where "j = 1" "m = Suc n"
    using assms(6) by (cases j; cases m; cases "m - 1"; auto)
  then show ?thesis
    using assms(5) by cases (simp_all add: marks flip: append_assoc)
qed

section \<open>The sender\<close>

text \<open>Writes that find the network's buffers full \<open>k\<close> times before they are accepted.\<close>

definition attempts :: "nat list \<Rightarrow> nat \<Rightarrow> wrres list" where
  "attempts ks n = concat (map (\<lambda>k. replicate k (Wr_fail ENOBUFS) @ [Put n]) ks)"

definition calls :: "nat list \<Rightarrow> nat" where
  "calls ks = sum_list (map Suc ks)"

lemma attempts_simps [simp]:
  "attempts [] n = []" "attempts (k # ks) n = replicate k (Wr_fail ENOBUFS) @ Put n # attempts ks n"
  "calls [] = 0" "calls (k # ks) = Suc k + calls ks"
  by (simp_all add: attempts_def calls_def)

lemma Nwrite_retries:
  "errno x = 0 \<Longrightarrow> Nwrite True d (replicate k (Wr_fail ENOBUFS) @ Put (length d) # ws) x =
     Some (int (length d), ws, x\<lparr>numCalls := numCalls x + Suc k, wire := wire x @ [d]\<rparr>)"
proof (induction k arbitrary: x)
  case (Suc k)
  from Suc.prems Suc.IH [of "x\<lparr>numCalls := Suc (numCalls x), errno := 0\<rparr>"] show ?case by (cases x) (simp add: Let_def)
qed (simp add: Let_def)

lemma source_udp:
  assumes "udp c" "buflen c = int (length buf)"
  shows "errno x = 0 \<Longrightarrow> source c buf (int (length ks)) (attempts ks (length buf) @ ws) x =
    Some (ws, x\<lparr>nbytes := nbytes x + length ks * length buf, numCalls := numCalls x + calls ks,
      wire := wire x @ replicate (length ks) buf\<rparr>)"
proof (induction ks arbitrary: x)
  case Nil
  show ?case by (simp add: source.simps)
next
  case (Cons k ks)
  with assms show ?case by (subst source.simps) (simp add: Nwrite_retries replicate_append_same)
qed

lemma sentinels_udp:
  "errno x = 0 \<Longrightarrow> sentinels (length ks) d (attempts ks (length d) @ ws) x =
     Some (x\<lparr>numCalls := numCalls x + calls ks, wire := wire x @ replicate (length ks) d\<rparr>)"
  by (induction ks arbitrary: x) (simp_all add: Nwrite_retries)

text \<open>What the sender puts on the network.\<close>

lemma sender_wire:
  fixes c e x
  defines "buf \<equiv> pattern (buflen c)"
  assumes "sinkmode c" "trans c" "udp c" "4 < buflen c" "nbuf c = int (length ks)" "length ks' = 4" "close_ok e"
    and "to_net e = attempts [k0] 4 @ attempts ks (nat (buflen c)) @ attempts [k1] 4 @ attempts ks' 4"
    and "errno x = 0" "wire x = []" "nbytes x = 0"
  shows "\<exists>r evs xf. transfer c e x = Some r \<and> finish c e fd r = Some (0, evs, xf) \<and> nbytes xf = length ks * nat (buflen c) \<and>
    wire xf = take 4 buf # replicate (length ks) buf @ replicate 5 (take 4 buf)"
proof -
  have len: "length buf = nat (buflen c)" by (simp add: buf_def pattern_def pattern_loop_eq)
  then have mark: "length (take 4 buf) = 4" using assms(5) by simp
  let ?m = "take 4 buf"
  let ?x = "x\<lparr>head4 := ?m, numCalls := numCalls x + Suc k0, wire := [?m]\<rparr>"
  let ?y = "?x\<lparr>nbytes := length ks * length buf, numCalls := numCalls ?x + calls ks, wire := wire ?x @ replicate (length ks) buf\<rparr>"
  let ?z = "?y\<lparr>numCalls := numCalls ?y + Suc k1, wire := wire ?y @ [?m]\<rparr>"
  have "transfer c e x = Some (attempts ks' 4, ?z)"
    using assms(2-4,6,9-12) len assms(5) Nwrite_retries [of "x\<lparr>head4 := ?m\<rparr>" ?m k0 "attempts ks (length buf) @ attempts [k1] 4 @ attempts ks' 4"]
      source_udp [of c buf ?x ks "attempts [k1] 4 @ attempts ks' 4"] Nwrite_retries [of ?y ?m k1 "attempts ks' 4"] mark
    by (simp add: transfer_def Let_def buf_def [symmetric])
  moreover have "finish c e fd (attempts ks' 4, ?z) = Some (0, [T_close fd, T_free], ?z\<lparr>numCalls := numCalls ?z + calls ks', wire := wire ?z @ replicate 4 ?m\<rparr>)"
    using assms(3,4,7,8,10) sentinels_udp [of ?z ks' ?m "[]"] mark by (simp add: finish_def)
  moreover have "wire (?z\<lparr>numCalls := numCalls ?z + calls ks', wire := wire ?z @ replicate 4 ?m\<rparr>) =
      ?m # replicate (length ks) buf @ replicate 5 ?m" by (simp add: eval_nat_numeral)
  ultimately show ?thesis using len by (intro exI conjI) (assumption | simp)+
qed

section \<open>Both ends\<close>

lemma subseq_replicate:
  assumes "subseq xs (replicate n a)"
  obtains k where "k \<le> n" "xs = replicate k a"
proof (rule that)
  show "length xs \<le> n" using list_emb_length [OF assms] by simp
  have "set xs \<subseteq> {a}" using list_emb_set [OF assms] by force
  then show "xs = replicate (length xs) a" by (metis replicate_length_same singletonD subsetD)
qed

text \<open>C28: A datagram transfer over a network that loses datagrams. The sender's writes may find the
  network's buffers full any number of times. It counts the blocks it sends. Whatever subsequence of its
  datagrams arrives, the receiver returns exactly when at least two of the six short datagrams that mark
  the ends arrive, whether or not the opening one is among them, and then it has counted exactly the
  bytes of the blocks that arrived, never more than the sender.\<close>

theorem ttcp_udp_loss:
  assumes "sinkmode cs" "trans cs" "udp cs" "4 < buflen cs" "nbuf cs = int (length ks)" "length ks' = 4" "close_ok es"
    and "to_net es = attempts [k0] 4 @ attempts ks (nat (buflen cs)) @ attempts [k1] 4 @ attempts ks' 4"
    and "sinkmode cr" "\<not> trans cr" "udp cr" "nat (buflen cs) \<le> request cr"
    and "errno x = 0" "wire x = []" "nbytes x = 0" "\<not> going x"
  shows "\<exists>r evs xf. transfer cs es x = Some r \<and> finish cs es fd r = Some (0, evs, xf) \<and>
    nbytes xf = length ks * nat (buflen cs) \<and>
    (\<forall>got. subseq got (wire xf) \<longrightarrow>
      (case transfer cr (er\<lparr>from_net := map Got got\<rparr>) x of
         None \<Rightarrow> length (filter (\<lambda>d. length d = 4) got) < 2
       | Some (ws, xr) \<Rightarrow> 2 \<le> length (filter (\<lambda>d. length d = 4) got) \<and>
           nbytes xr = length (concat (filter (\<lambda>d. length d \<noteq> 4) got)) \<and> nbytes xr \<le> nbytes xf))"
proof -
  let ?buf = "pattern (buflen cs)" and ?m = "take 4 (pattern (buflen cs))"
  obtain r evs xf where S: "transfer cs es x = Some r" "finish cs es fd r = Some (0, evs, xf)"
    "nbytes xf = length ks * nat (buflen cs)" "wire xf = replicate 1 ?m @ replicate (length ks) ?buf @ replicate 5 ?m"
    using sender_wire [OF assms(1-8,13-15), of fd] by auto
  have len: "length ?buf = nat (buflen cs)" by (simp add: pattern_def pattern_loop_eq)
  have d: "4 < length ?buf" "length ?buf \<le> request cr" "length ?m = 4" using assms(4,12) len by simp_all
  have "case transfer cr (er\<lparr>from_net := map Got got\<rparr>) x of
         None \<Rightarrow> length (filter (\<lambda>d. length d = 4) got) < 2
       | Some (ws, xr) \<Rightarrow> 2 \<le> length (filter (\<lambda>d. length d = 4) got) \<and>
           nbytes xr = length (concat (filter (\<lambda>d. length d \<noteq> 4) got)) \<and> nbytes xr \<le> nbytes xf"
    if sub: "subseq got (wire xf)" for got
  proof -
    obtain j k m where g: "got = replicate j ?m @ replicate k ?buf @ replicate m ?m" "j \<le> 1" "k \<le> length ks"
      using sub unfolding S(4) by (elim subseq_appendE subseq_replicate) simp
    have "transfer cr (er\<lparr>from_net := map Got got\<rparr>) x = map_option (Pair (to_net er))
        (if 2 \<le> j + m then Some (x\<lparr>numCalls := numCalls x + k + 2, going := True, nbytes := nbytes x + k * length ?buf\<rparr>) else None)"
      using sink_udp_arrivals [OF assms(11) d assms(16) g(2), of k m] assms(9-11) by (simp add: transfer_def g(1) del: map_append map_replicate)
    moreover have "length (filter (\<lambda>d. length d = 4) got) = j + m" using d by (simp add: g(1))
    moreover have "length (concat (filter (\<lambda>d. length d \<noteq> 4) got)) = k * length ?buf"
      using d by (simp add: g(1) length_concat sum_list_replicate)
    moreover have "k * length ?buf \<le> nbytes xf" using g(3) by (simp add: S(3) len)
    ultimately show ?thesis using assms(15) by (simp split: if_splits)
  qed
  with S(1-3) show ?thesis by blast
qed

theorem ttcp_udp_loss_witness:
  "\<exists>xr ws. transfer (sample_receiver\<lparr>udp := True\<rparr>) (sample_env\<lparr>from_net := map Got [[32, 33, 34, 35, 36, 37], [32, 33, 34, 35], [32, 33, 34, 35]]\<rparr>)
     sample_xfer = Some (ws, xr) \<and> nbytes xr = 6"
proof -
  let ?cs = "sample_sender\<lparr>udp := True\<rparr>" and ?cr = "sample_receiver\<lparr>udp := True\<rparr>"
  let ?es = "sample_env\<lparr>to_net := attempts [0] 4 @ attempts [2, 0] 6 @ attempts [0] 4 @ attempts [0, 1, 0, 0] 4\<rparr>"
  let ?got = "[[32, 33, 34, 35, 36, 37], [32, 33, 34, 35], [32, 33, 34, 35 :: u8]]"
  have c: "sinkmode ?cs" "trans ?cs" "udp ?cs" "4 < buflen ?cs" "nbuf ?cs = int (length [2, 0 :: nat])" "length [0, 1, 0, 0 :: nat] = 4"
    "close_ok ?es" "to_net ?es = attempts [0] 4 @ attempts [2, 0] (nat (buflen ?cs)) @ attempts [0] 4 @ attempts [0, 1, 0, 0] 4"
    "sinkmode ?cr" "\<not> trans ?cr" "udp ?cr" "nat (buflen ?cs) \<le> request ?cr"
    "errno sample_xfer = 0" "wire sample_xfer = []" "nbytes sample_xfer = 0" "\<not> going sample_xfer"
    by (simp_all add: request_def sample_sender_def sample_receiver_def sample_env_def sample_xfer_def initialize_vars_def)
  obtain r evs xf where S: "transfer ?cs ?es sample_xfer = Some r" "finish ?cs ?es 4 r = Some (0, evs, xf)"
    and R: "\<And>got. subseq got (wire xf) \<Longrightarrow> (case transfer ?cr (sample_env\<lparr>from_net := map Got got\<rparr>) sample_xfer of
         None \<Rightarrow> length (filter (\<lambda>d. length d = 4) got) < 2
       | Some (ws, xr) \<Rightarrow> 2 \<le> length (filter (\<lambda>d. length d = 4) got) \<and>
           nbytes xr = length (concat (filter (\<lambda>d. length d \<noteq> 4) got)) \<and> nbytes xr \<le> nbytes xf)"
    using ttcp_udp_loss [OF c, of 4 sample_env] by blast
  have "wire xf = [32, 33, 34, 35] # replicate (length [2, 0 :: nat]) (pattern 6) @ replicate 5 [32, 33, 34, 35]"
    using sender_wire [OF c(1-8,13-15), of 4] S by (auto simp: sample_sender_def pattern_6)
  then have "subseq ?got (wire xf)" by (simp add: pattern_6 eval_nat_numeral)
  from R [OF this] show ?thesis by (auto split: option.splits)
qed

end
