(* ===== verification/Tasks.thy ===== *)
theory Tasks
  imports Prelude Complex_Main
begin

text \<open>
  The task utilities: spawning and looping, \<^verbatim>\<open>miscUtils/loop.c\<close>; timing a routine,
  \<^verbatim>\<open>miscUtils/exectime.c\<close>; and the processor load, \<^verbatim>\<open>miscUtils/task_uptime.c\<close>. Status codes are natural
  numbers with 0 for success. Calls appear in a trace of events; floating point values of the load are
  rational numbers.
\<close>

section \<open>Spawning and looping\<close>

record ArgsRec =
  fn :: nat                    \<comment> \<open>address of the routine\<close>
  period_ticks :: int
  times :: int
  iargs :: "int list"          \<comment> \<open>\<open>a1\<close> to \<open>a10\<close>\<close>
  fargs :: "64 word list"      \<comment> \<open>\<open>f1\<close> to \<open>f5\<close>\<close>

datatype lp_ev =
    L_alloc | L_free
  | L_create_period nat        \<comment> \<open>status\<close>
  | L_period int               \<comment> \<open>ticks\<close>
  | L_missed int               \<comment> \<open>number of loops in the message\<close>
  | L_call nat "int list" "64 word list"
  | L_delete_period nat
  | L_delete_self
  | L_task_create u32 u32      \<comment> \<open>priority and stack\<close>
  | L_task_start nat

record wrap_env =
  create_sc :: nat             \<comment> \<open>status of \<open>rtems_rate_monotonic_create\<close>\<close>
  period_id :: nat             \<comment> \<open>the id it stores if it succeeds\<close>
  timeouts :: "nat \<Rightarrow> bool"    \<comment> \<open>the \<open>n\<close>-th call of \<open>rtems_rate_monotonic_period\<close> returns \<open>RTEMS_TIMEOUT\<close>\<close>

fun wrap_loop :: "ArgsRec \<Rightarrow> nat \<Rightarrow> (nat \<Rightarrow> bool) \<Rightarrow> nat \<Rightarrow> nat \<Rightarrow> lp_ev list" where
  \<comment> \<open>the period (0: none), and how many loops are left and done\<close>
  "wrap_loop arg period tmo 0 k = []"
| "wrap_loop arg period tmo (Suc left) k =
     (if period \<noteq> 0 \<and> tmo k
      then [L_period (period_ticks arg), L_missed (times arg - int left - 1)]
      else (if period \<noteq> 0 then [L_period (period_ticks arg)] else []) @
           L_call (fn arg) (iargs arg) (fargs arg) # wrap_loop arg period tmo left (Suc k))"

definition wrap :: "wrap_env \<Rightarrow> ArgsRec \<Rightarrow> lp_ev list" where
  "wrap e arg =
     (let tm = times arg; period = (if tm > 1 \<and> create_sc e = 0 then period_id e else 0) in
      (if tm > 1 then [L_create_period (create_sc e)] else []) @
      (if tm > 1 \<and> create_sc e \<noteq> 0 then [] else wrap_loop arg period (timeouts e) (nat tm) 0) @
      (if period \<noteq> 0 then [L_delete_period period] else []) @ [L_free, L_delete_self])"

record lp_env =
  args_mem :: bool             \<comment> \<open>the argument block can be allocated\<close>
  task_create_sc :: nat
  task_start_sc :: nat
  tid :: nat

definition spawn :: "lp_env \<Rightarrow> int \<Rightarrow> int \<Rightarrow> nat \<times> lp_ev list" where
  "spawn e priority stack =
     (let priority = (if priority = 0 then 60 else priority); stack = (if stack = 0 then 20000 else stack);
          created = [L_task_create (word_of_int priority) (word_of_int stack)] in
      if task_create_sc e \<noteq> 0 then (0, created)
      else if task_start_sc e \<noteq> 0 then (0, created @ [L_task_start (tid e)])
      else (tid e, created @ [L_task_start (tid e)]))"

definition spawnUtil :: "lp_env \<Rightarrow> int \<Rightarrow> int \<Rightarrow> nat \<Rightarrow> int list \<Rightarrow> 64 word list \<Rightarrow> (nat \<times> ArgsRec \<times> lp_ev list) res" where
  \<comment> \<open>the id returned, and the argument block handed to the task\<close>
  "spawnUtil e priority stack f as fs =
     (if \<not> args_mem e then Inl NullDeref
      else
        (let args = \<lparr>fn = f, period_ticks = 0, times = 1, iargs = as, fargs = fs\<rparr>;
             (rval, evs) = spawn e priority stack in
         Inr (rval, args, L_alloc # evs @ (if rval = 0 then [L_free] else []))))"

definition loopUtil :: "lp_env \<Rightarrow> int \<Rightarrow> int \<Rightarrow> nat \<Rightarrow> int list \<Rightarrow> 64 word list \<Rightarrow> (nat \<times> ArgsRec \<times> lp_ev list) res" where
  "loopUtil e ticks n_times f as fs =
     (if \<not> args_mem e then Inl NullDeref
      else
        (let args = \<lparr>fn = f, period_ticks = ticks, times = n_times, iargs = as, fargs = fs\<rparr>;
             (rval, evs) = spawn e 0 0 in
         Inr (rval, args, L_alloc # evs @ (if rval = 0 then [L_free] else []))))"

section \<open>Timing\<close>

fun exec_calls :: "nat \<Rightarrow> nat" where
  \<comment> \<open>calls made by \<open>do ... while (rep-- > 0)\<close>, for \<open>rep\<close> that is not negative\<close>
  "exec_calls 0 = 1"
| "exec_calls (Suc rep) = Suc (exec_calls rep)"

definition execUsN :: "int \<Rightarrow> int \<times> int \<Rightarrow> int \<times> int \<Rightarrow> u32 \<times> nat" where
  \<comment> \<open>the times before and after, in seconds and microseconds; the result and the number of calls\<close>
  "execUsN rep before now =
     (let now = (if snd now < snd before then (fst now - 1, snd now + 1000000) else now) in
      (word_of_int ((fst now - fst before) * 1000000 + snd now - snd before),
       if rep \<le> 0 then 1 else exec_calls (nat rep)))"

definition execUs :: "int \<times> int \<Rightarrow> int \<times> int \<Rightarrow> u32 \<times> nat" where
  "execUs before now = execUsN 0 before now"

section \<open>Processor load\<close>

type_synonym timespec = "int \<times> int"

record load_state =
  internal_up :: timespec
  internal_idle :: timespec

abbreviation RTEMS_NOT_DEFINED :: nat where "RTEMS_NOT_DEFINED \<equiv> 11"

definition miscu_get_idle_uptime :: "timespec option \<Rightarrow> nat \<times> timespec option" where
  \<comment> \<open>the time used by \<open>_Thread_Idle\<close>, if that is set; the status and what is stored\<close>
  "miscu_get_idle_uptime idle = (case idle of None \<Rightarrow> (RTEMS_NOT_DEFINED, None) | Some t \<Rightarrow> (0, Some t))"

definition seconds :: "timespec \<Rightarrow> rat" where
  "seconds t = of_int (fst t) + of_int (snd t) / 10 ^ 9"

definition miscu_cpu_load_percentage ::
  "(timespec \<Rightarrow> timespec \<Rightarrow> timespec) \<Rightarrow> timespec option \<Rightarrow> timespec option \<Rightarrow>
   timespec option \<Rightarrow> timespec option \<Rightarrow> load_state \<Rightarrow> rat option \<times> timespec option \<times> timespec option \<times> load_state" where
  \<comment> \<open>\<open>tsub\<close> is \<open>_Timespec_Subtract\<close>, \<open>uptime\<close> the result of \<open>rtems_clock_get_uptime\<close> if it succeeds, \<open>lu\<close> and
      \<open>li\<close> what the arguments point to; the result is \<open>None\<close> for \<open>NAN\<close>, followed by what they point to then\<close>
  "miscu_cpu_load_percentage tsub uptime idle lu li s =
     (let last_up = (case lu of None \<Rightarrow> internal_up s | Some t \<Rightarrow> t);
          last_idle = (case li of None \<Rightarrow> internal_idle s | Some t \<Rightarrow> t) in
      case uptime of None \<Rightarrow> (None, lu, li, s)
      | Some now_up \<Rightarrow>
          (let up = seconds (tsub last_up now_up) in
           if up = 0 then (None, lu, li, s)
           else case miscu_get_idle_uptime idle of
             (sc, Some now_idle) \<Rightarrow>
               (Some (100 * (1 - seconds (tsub last_idle now_idle) / up)),
                map_option (\<lambda>_. now_up) lu, map_option (\<lambda>_. now_idle) li,
                s\<lparr>internal_up := (if lu = None then now_up else internal_up s),
                  internal_idle := (if li = None then now_idle else internal_idle s)\<rparr>)
           | (sc, None) \<Rightarrow> (None, lu, li, s)))"

definition miscu_cpu_load_percentage_init :: "timespec option \<Rightarrow> timespec option \<Rightarrow> timespec option \<times> timespec option" where
  "miscu_cpu_load_percentage_init lu li = (map_option (\<lambda>_. (0, 0)) lu, map_option (\<lambda>_. (0, 0)) li)"

datatype objloc = OBJECTS_LOCAL | OBJECTS_REMOTE | OBJECTS_ERROR

abbreviation RTEMS_ILLEGAL_ON_REMOTE_OBJECT :: nat where "RTEMS_ILLEGAL_ON_REMOTE_OBJECT \<equiv> 18"
abbreviation RTEMS_INVALID_ID :: nat where "RTEMS_INVALID_ID \<equiv> 4"

definition miscu_get_task_uptime :: "objloc \<Rightarrow> timespec \<Rightarrow> int \<Rightarrow> nat \<times> timespec option \<times> int" where
  \<comment> \<open>where \<open>_Thread_Get\<close> found the task and the time it has used; the last component is the nesting level
      of disabled dispatching, which \<open>_Thread_Get\<close> has raised for a local or remote object\<close>
  "miscu_get_task_uptime loc used nest =
     (case loc of
        OBJECTS_LOCAL \<Rightarrow> (0, Some used, nest + 1 - 1)
      | OBJECTS_REMOTE \<Rightarrow> (RTEMS_ILLEGAL_ON_REMOTE_OBJECT, None, nest + 1 - 1)
      | OBJECTS_ERROR \<Rightarrow> (RTEMS_INVALID_ID, None, nest))"

section \<open>Loops\<close>

definition calls :: "lp_ev list \<Rightarrow> nat" where
  "calls evs = length (filter (\<lambda>ev. case ev of L_call f a g \<Rightarrow> True | _ \<Rightarrow> False) evs)"

lemma calls_simps [simp]:
  "calls [] = 0" "calls (L_call f a g # evs) = Suc (calls evs)" "calls (xs @ ys) = calls xs + calls ys"
  "calls (L_create_period s # evs) = calls evs" "calls (L_period t # evs) = calls evs"
  "calls (L_missed n # evs) = calls evs" "calls (L_delete_period p # evs) = calls evs"
  "calls (L_free # evs) = calls evs" "calls (L_delete_self # evs) = calls evs"
  by (simp_all add: calls_def)

lemma wrap_loop_ok: "(\<And>j. period \<noteq> 0 \<Longrightarrow> j < left \<Longrightarrow> \<not> tmo (k + j)) \<Longrightarrow>
    calls (wrap_loop arg period tmo left k) = left \<and> (\<forall>n. L_missed n \<notin> set (wrap_loop arg period tmo left k))"
proof (induction left arbitrary: k)
  case 0
  then show ?case by simp
next
  case (Suc left)
  from Suc.IH [of "Suc k"] Suc.prems [of 0] Suc.prems [of "Suc _"] show ?case by auto
qed

lemma wrap_loop_missed:
  assumes "period \<noteq> 0" "j < left" "tmo (k + j)" "\<And>i. i < j \<Longrightarrow> \<not> tmo (k + i)" "times arg = int (k + left)"
  shows "calls (wrap_loop arg period tmo left k) = j \<and> L_missed (int (k + j)) \<in> set (wrap_loop arg period tmo left k)"
  using assms(2-5)
proof (induction j arbitrary: left k)
  case 0
  then show ?case using assms(1) by (cases left) auto
next
  case (Suc j)
  then obtain l where l: "left = Suc l" by (cases left) auto
  have "\<not> tmo k" using Suc.prems(3) [of 0] by simp
  moreover have "calls (wrap_loop arg period tmo l (Suc k)) = j \<and> L_missed (int (Suc k + j)) \<in> set (wrap_loop arg period tmo l (Suc k))"
    using Suc.prems(1,2,4) Suc.prems(3) [of "Suc _"] l by (intro Suc.IH) auto
  ultimately show ?case by (simp add: l)
qed

lemma wrap_loop_no_free:
  "L_free \<notin> set (wrap_loop arg period tmo left k) \<and> L_delete_period p \<notin> set (wrap_loop arg period tmo left k)"
  by (induction left arbitrary: k) auto

lemma wrap_loop_only_calls:
  "L_call f a g \<in> set (wrap_loop arg period tmo left k) \<Longrightarrow> f = fn arg \<and> a = iargs arg \<and> g = fargs arg"
  by (induction left arbitrary: k) (auto split: if_splits)

text \<open>C36: The looping task calls its routine, with the arguments given, the number of times asked for, as long
  as no deadline is missed; if the deadline before loop \<open>j\<close> is missed it stops after \<open>j\<close> calls and reports that
  number; if the period for more than one loop cannot be created the routine is not called at all. On every one
  of these paths the task frees its argument block once, deletes the period it has created and no other, and
  ends.\<close>
theorem wrap_runs:
  assumes "0 < period_id e"
  shows "(1 < times arg \<and> create_sc e \<noteq> 0 \<longrightarrow> calls (wrap e arg) = 0) \<and>
    ((1 < times arg \<longrightarrow> create_sc e = 0 \<and> (\<forall>i. i < nat (times arg) \<longrightarrow> \<not> timeouts e i)) \<longrightarrow>
       calls (wrap e arg) = nat (times arg)) \<and>
    (\<forall>j. 1 < times arg \<and> create_sc e = 0 \<and> j < nat (times arg) \<and> timeouts e j \<and> (\<forall>i. i < j \<longrightarrow> \<not> timeouts e i) \<longrightarrow>
       calls (wrap e arg) = j \<and> L_missed (int j) \<in> set (wrap e arg)) \<and>
    (\<forall>f a g. L_call f a g \<in> set (wrap e arg) \<longrightarrow> f = fn arg \<and> a = iargs arg \<and> g = fargs arg) \<and>
    count_list (wrap e arg) L_free = 1 \<and> last (wrap e arg) = L_delete_self \<and>
    (\<forall>p. L_delete_period p \<in> set (wrap e arg) \<longleftrightarrow> p = period_id e \<and> L_create_period 0 \<in> set (wrap e arg))"
proof -
  have once: "count_list (wrap_loop arg p t l k) L_free = 0" for p t l k
    using wrap_loop_no_free by (simp add: count_list_0_iff)
  have "calls (wrap e arg) = nat (times arg)"
    if "1 < times arg \<longrightarrow> create_sc e = 0 \<and> (\<forall>i. i < nat (times arg) \<longrightarrow> \<not> timeouts e i)"
    using that assms wrap_loop_ok [of "if 1 < times arg then period_id e else 0" "nat (times arg)" "timeouts e" 0 arg]
    by (auto simp: wrap_def Let_def)
  moreover have "calls (wrap e arg) = j \<and> L_missed (int j) \<in> set (wrap e arg)"
    if "1 < times arg" "create_sc e = 0" "j < nat (times arg)" "timeouts e j" "\<forall>i. i < j \<longrightarrow> \<not> timeouts e i" for j
    using that assms wrap_loop_missed [of "period_id e" j "nat (times arg)" "timeouts e" 0 arg]
    by (simp add: wrap_def Let_def)
  moreover have "L_create_period q \<notin> set (wrap_loop arg p t l k)" for p t l k q
    by (induction l arbitrary: k) auto
  then have "L_delete_period p \<in> set (wrap e arg) \<longleftrightarrow> p = period_id e \<and> L_create_period 0 \<in> set (wrap e arg)" for p
    using assms wrap_loop_no_free by (auto simp: wrap_def Let_def)
  moreover have "L_call f a g \<in> set (wrap e arg) \<Longrightarrow> f = fn arg \<and> a = iargs arg \<and> g = fargs arg" for f a g
    using wrap_loop_only_calls by (fastforce simp: wrap_def Let_def split: if_splits)
  ultimately show ?thesis by (auto simp: wrap_def Let_def once)
qed

text \<open>The argument block of a spawned task has one owner. If the utility returns an id, the task was
  created with the defaults filled in and started with the block, which the utility has not freed; if it
  returns 0, no task runs with the block and the utility has freed it.\<close>

theorem loop_args_owner:
  assumes "args_mem e" "0 < tid e"
  shows "\<exists>rval args evs. loopUtil e ticks n f as fs = Inr (rval, args, evs) \<and>
    times args = n \<and> period_ticks args = ticks \<and> fn args = f \<and> iargs args = as \<and>
    L_task_create 60 20000 \<in> set evs \<and> count_list evs L_alloc = 1 \<and>
    (if rval = 0 then count_list evs L_free = 1 \<and> (task_create_sc e \<noteq> 0 \<or> task_start_sc e \<noteq> 0)
     else rval = tid e \<and> count_list evs L_free = 0 \<and> last evs = L_task_start (tid e) \<and>
       task_create_sc e = 0 \<and> task_start_sc e = 0)"
  using assms by (simp add: loopUtil_def spawn_def Let_def)

section \<open>Timing\<close>

lemma exec_calls_eq: "exec_calls n = Suc n"
  by (induction n) simp_all

text \<open>\<open>execUsN\<close> calls the routine once more than asked for, at least once, and returns the time
  that has passed in microseconds, modulo the size of its result.\<close>

theorem execUsN_result:
  "execUsN rep before now =
     (word_of_int ((fst now * 1000000 + snd now) - (fst before * 1000000 + snd before)), Suc (nat rep))"
  by (auto simp: execUsN_def Let_def exec_calls_eq algebra_simps)

section \<open>Processor load\<close>

text \<open>The processor load is a percentage. If the subtraction is exact, time has passed and the idle
  task has used at most that time, the load lies between 0 and 100, and the reference points move to the
  current times, the caller's if given and the static ones otherwise. If a clock cannot be read or no
  time has passed the result is not a number and nothing changes.\<close>

theorem cpu_load_bounds:
  assumes "\<And>a b. seconds (tsub a b) = seconds b - seconds a"
    and "last_up = (case lu of None \<Rightarrow> internal_up s | Some t \<Rightarrow> t)" "last_idle = (case li of None \<Rightarrow> internal_idle s | Some t \<Rightarrow> t)"
  shows "(seconds last_up < seconds now_up \<and> seconds last_idle \<le> seconds now_idle \<and>
      seconds now_idle - seconds last_idle \<le> seconds now_up - seconds last_up \<longrightarrow>
      (\<exists>r. 0 \<le> r \<and> r \<le> 100 \<and> miscu_cpu_load_percentage tsub (Some now_up) (Some now_idle) lu li s =
        (Some r, map_option (\<lambda>_. now_up) lu, map_option (\<lambda>_. now_idle) li,
         \<lparr>internal_up = (if lu = None then now_up else internal_up s),
          internal_idle = (if li = None then now_idle else internal_idle s)\<rparr>))) \<and>
    miscu_cpu_load_percentage tsub None idle lu li s = (None, lu, li, s) \<and>
    miscu_cpu_load_percentage tsub (Some now_up) None lu li s = (None, lu, li, s) \<and>
    (seconds last_up = seconds now_up \<longrightarrow> miscu_cpu_load_percentage tsub (Some now_up) idle lu li s = (None, lu, li, s))"
proof -
  have "0 \<le> 100 * (1 - a / b)" "100 * (1 - a / b) \<le> 100" if "0 \<le> a" "a \<le> b" "0 < b" for a b :: rat
    using that by (simp_all add: divide_le_eq)
  from this [of "seconds now_idle - seconds last_idle" "seconds now_up - seconds last_up"] show ?thesis
    by (auto simp: miscu_cpu_load_percentage_def miscu_get_idle_uptime_def Let_def assms)
qed

section \<open>Witnesses\<close>

theorem wrap_runs_witness:
  "let e = \<lparr>create_sc = 0, period_id = 9, timeouts = \<lambda>i. i = 2\<rparr>;
       arg = \<lparr>fn = 100, period_ticks = 5, times = 4, iargs = [1], fargs = []\<rparr> in
    calls (wrap e arg) = 2 \<and> count_list (wrap e arg) L_free = 1 \<and>
    calls (wrap (e\<lparr>create_sc := 5\<rparr>) arg) = 0 \<and> count_list (wrap (e\<lparr>create_sc := 5\<rparr>) arg) L_free = 1"
proof -
  let ?e = "\<lparr>create_sc = 0, period_id = 9, timeouts = \<lambda>i. i = 2\<rparr>"
  let ?arg = "\<lparr>fn = 100, period_ticks = 5, times = 4, iargs = [1], fargs = []\<rparr>"
  have ids: "0 < period_id ?e" "0 < period_id (?e\<lparr>create_sc := 5\<rparr>)" by simp_all
  show ?thesis using wrap_runs [OF ids(1), of ?arg] wrap_runs [OF ids(2), of ?arg] by (auto simp: Let_def)
qed

theorem loop_args_owner_witness:
  "\<exists>rval args evs. loopUtil \<lparr>args_mem = True, task_create_sc = 0, task_start_sc = 0, tid = 7\<rparr> 5 4 100 [1] [] = Inr (rval, args, evs) \<and>
    times args = 4 \<and> period_ticks args = 5 \<and> fn args = 100 \<and> iargs args = [1] \<and>
    L_task_create 60 20000 \<in> set evs \<and> count_list evs L_alloc = 1 \<and>
    (if rval = 0 then count_list evs L_free = 1 \<and>
       (task_create_sc \<lparr>args_mem = True, task_create_sc = 0, task_start_sc = 0, tid = 7\<rparr> \<noteq> 0 \<or>
        task_start_sc \<lparr>args_mem = True, task_create_sc = 0, task_start_sc = 0, tid = 7\<rparr> \<noteq> 0)
     else rval = tid \<lparr>args_mem = True, task_create_sc = 0, task_start_sc = 0, tid = 7\<rparr> \<and> count_list evs L_free = 0 \<and>
       last evs = L_task_start (tid \<lparr>args_mem = True, task_create_sc = 0, task_start_sc = 0, tid = 7\<rparr>) \<and>
       task_create_sc \<lparr>args_mem = True, task_create_sc = 0, task_start_sc = 0, tid = 7\<rparr> = 0 \<and>
       task_start_sc \<lparr>args_mem = True, task_create_sc = 0, task_start_sc = 0, tid = 7\<rparr> = 0)"
  by (rule loop_args_owner) simp_all

definition exact_sub :: "timespec \<Rightarrow> timespec \<Rightarrow> timespec" where
  "exact_sub a b = (fst b - fst a, snd b - snd a)"

theorem cpu_load_bounds_witness:
  "\<exists>r. 0 \<le> r \<and> r \<le> 100 \<and>
     miscu_cpu_load_percentage exact_sub (Some (10, 0)) (Some (4, 0)) None None \<lparr>internal_up = (0, 0), internal_idle = (0, 0)\<rparr> =
       (Some r, None, None, \<lparr>internal_up = (10, 0), internal_idle = (4, 0)\<rparr>)"
proof -
  have "seconds (exact_sub a b) = seconds b - seconds a" for a b
    by (simp add: seconds_def exact_sub_def diff_divide_distrib)
  from cpu_load_bounds [OF this, where lu = None and li = None and s = "\<lparr>internal_up = (0, 0), internal_idle = (0, 0)\<rparr>"
      and last_up = "(0, 0)" and last_idle = "(0, 0)" and now_up = "(10, 0)" and now_idle = "(4, 0)"]
  show ?thesis by (simp add: seconds_def)
qed

end
