(* ===== verification/Monitor.thy ===== *)
theory Monitor
  imports Text Interfaces
begin

text \<open>
  The shell around the RTEMS monitor, \<^verbatim>\<open>monitor/call.cc\<close>, with the commands \<^verbatim>\<open>monitor/memusage.c\<close> and
  \<^verbatim>\<open>monitor/stack.c\<close>. One task at a time may run the monitor: \<open>rtems_monitor_task_id\<close> marks it as busy and
  \<open>monitorMutex\<close> protects the mark. The tasks that call \<open>rtemsMonitor\<close> are interleaved statement by statement
  (\<open>mon_step\<close>); what happens between the two critical sections is the sequential function \<open>session\<close>. The line
  editor, the command table and \<open>rtems_monitor_make_argv\<close> belong to other packages and are parameters.
\<close>

section \<open>Commands\<close>

datatype fn_result = Invalid_argument | Called_with u32 | Called

definition fnwrap :: "int \<Rightarrow> (nat \<Rightarrow> string option) \<Rightarrow> fn_result" where
  \<comment> \<open>\<open>argv i = None\<close>: the null pointer that ends the arguments\<close>
  "fnwrap argc argv =
     (if argc > 0
      then (case argv 1 of
              Some a \<Rightarrow> (case strtol a of (v, endp) \<Rightarrow>
                           if a = [] \<or> endp < length a then Invalid_argument else Called_with (word_of_int v))
            | None \<Rightarrow> Called_with 0)
      else Called)"

datatype fn_ptr = CPU_usage_Dump | CPU_usage_Reset | Fn_taskStack | Fn_memUsageDump | Fn_other nat
datatype cmd_function = Fnwrap | Rtems_function nat     \<comment> \<open>ours, or that of a command of RTEMS\<close>

record command_entry =
  command :: string
  usage :: string
  arguments_required :: nat
  command_function :: cmd_function
  command_arg :: fn_ptr

definition command_entry_builder :: "string \<Rightarrow> string \<Rightarrow> nat \<Rightarrow> fn_ptr \<Rightarrow> command_entry" where
  "command_entry_builder name help args_req fp =
     \<lparr>command = name, usage = help, arguments_required = args_req, command_function = Fnwrap, command_arg = fp\<rparr>"

definition entries :: "command_entry list" where
  "entries =
     [command_entry_builder ''cpuUsageDump'' ''cpuUsageDump'' 0 CPU_usage_Dump,
      command_entry_builder ''cpuUsageReset'' ''cpuUsageReset'' 0 CPU_usage_Reset,
      command_entry_builder ''threadStack'' ''threadStack [taskId]; give stacktrace of a task (0 for self)'' 1 Fn_taskStack,
      command_entry_builder ''memUsageDump'' ''memUsageDump; show used/free amount of RTEMS workspace and malloc heap'' 1 Fn_memUsageDump]"

section \<open>A session\<close>

datatype mon_ev =
    Load_symbols | New_editor | Del_editor | Strdup | Free_buf
  | Call fn_ptr fn_result   \<comment> \<open>through \<open>fnwrap\<close>\<close>
  | Run string nat          \<comment> \<open>a command of RTEMS with its number of arguments\<close>
  | Not_found string | No_memory

record mon_env =
  editor_ok :: bool                               \<comment> \<open>\<open>new_GetLine\<close>\<close>
  make_argv :: "string \<Rightarrow> string list"         \<comment> \<open>the arguments \<open>rtems_monitor_make_argv\<close> finds\<close>
  lookup :: "string \<Rightarrow> command_entry option"   \<comment> \<open>\<open>rtems_monitor_command_lookup\<close>\<close>

datatype input = Line string bool | No_line       \<comment> \<open>a line and whether \<open>strdup\<close> succeeds; \<open>gl_get_line\<close> returns null\<close>

definition argv_at :: "string list \<Rightarrow> nat \<Rightarrow> string option" where
  "argv_at argv i = (if i < length argv then Some (argv ! i) else None)"

definition run_command :: "command_entry option \<Rightarrow> string list \<Rightarrow> mon_ev" where
  \<comment> \<open>\<open>argv\<close> has at least one word\<close>
  "run_command cmd argv =
     (case cmd of None \<Rightarrow> Not_found (argv ! 0)
      | Some c \<Rightarrow>
          (case command_function c of
             Fnwrap \<Rightarrow> Call (command_arg c) (fnwrap (int (length argv)) (argv_at argv))
           | Rtems_function f \<Rightarrow> Run (argv ! 0) (length argv)))"

definition free_evs :: "bool \<Rightarrow> mon_ev list" where
  "free_evs buf = (if buf then [Free_buf] else [])"

fun session_loop :: "mon_env \<Rightarrow> bool \<Rightarrow> input list \<Rightarrow> (mon_ev list \<times> bool) res option" where
  \<comment> \<open>the trace and whether \<open>buf\<close> is allocated at the end; \<open>None\<close>: still waiting for a line\<close>
  "session_loop e buf [] = None"
| "session_loop e buf (No_line # ins) = Some (Inr ([], buf))"
| "session_loop e buf (Line s ok # ins) =
     (if \<not> ok then Some (Inr (free_evs buf @ [No_memory], False))
      else if length (make_argv e s) \<ge> 20 then Some (Inl Fatal)
      else
        (case make_argv e s of [] \<Rightarrow> Some (Inl NullDeref)
         | a # as \<Rightarrow>
             if a = ''exit'' \<or> a = ''quit'' then Some (Inr (free_evs buf @ [Strdup], True))
             else
               map_option (map_sum (\<lambda>f. f) (\<lambda>(evs, b). (free_evs buf @ [Strdup, run_command (lookup e a) (a # as)] @ evs, b)))
                 (session_loop e True ins)))"

definition session :: "mon_env \<Rightarrow> input list \<Rightarrow> mon_ev list res option" where
  "session e ins =
     (if \<not> editor_ok e then Some (Inr [Load_symbols, No_memory])
      else map_option (map_sum (\<lambda>f. f) (\<lambda>(evs, buf). [Load_symbols, New_editor] @ evs @ [Del_editor] @ free_evs buf))
             (session_loop e False ins))"

section \<open>The busy mark\<close>

datatype pc = Idle | Checking | Refusing | Marking | Marked | Running | Leaving | Unmarking | Unmarked | Returned int

record mon =
  monitorMutex :: "nat option"       \<comment> \<open>the task that holds the mutex\<close>
  rtems_monitor_task_id :: nat       \<comment> \<open>\<open>0\<close>: not in use\<close>
  pcs :: "nat \<Rightarrow> pc"

definition goto :: "nat \<Rightarrow> pc \<Rightarrow> mon \<Rightarrow> mon" where
  "goto t l m = m\<lparr>pcs := (pcs m)(t := l)\<rparr>"

definition session_ends :: "mon_env \<times> input list \<Rightarrow> bool" where
  \<comment> \<open>the session gets past its loop: it neither waits for a line nor stops at an assertion or a null pointer\<close>
  "session_ends i = (case session (fst i) (snd i) of Some (Inr evs) \<Rightarrow> True | _ \<Rightarrow> False)"

definition mon_step :: "mon_env \<times> input list \<Rightarrow> nat \<Rightarrow> mon \<Rightarrow> mon option" where
  \<comment> \<open>the next statement of task \<open>t\<close> in \<open>rtemsMonitor\<close>, for the environment and the lines of its session;
     \<open>None\<close>: it is blocked, stays in its session, or has returned\<close>
  "mon_step i t m =
     (case pcs m t of
        Idle \<Rightarrow> if monitorMutex m = None then Some (goto t Checking (m\<lparr>monitorMutex := Some t\<rparr>)) else None
      | Checking \<Rightarrow> Some (goto t (if rtems_monitor_task_id m \<noteq> 0 then Refusing else Marking) m)
      | Refusing \<Rightarrow> Some (goto t (Returned (-1)) (m\<lparr>monitorMutex := None\<rparr>))
      | Marking \<Rightarrow> Some (goto t Marked (m\<lparr>rtems_monitor_task_id := t\<rparr>))
      | Marked \<Rightarrow> Some (goto t Running (m\<lparr>monitorMutex := None\<rparr>))
      | Running \<Rightarrow> if session_ends i then Some (goto t Leaving m) else None
      | Leaving \<Rightarrow> if monitorMutex m = None then Some (goto t Unmarking (m\<lparr>monitorMutex := Some t\<rparr>)) else None
      | Unmarking \<Rightarrow> Some (goto t Unmarked (m\<lparr>rtems_monitor_task_id := 0\<rparr>))
      | Unmarked \<Rightarrow> Some (goto t (Returned 0) (m\<lparr>monitorMutex := None\<rparr>))
      | Returned _ \<Rightarrow> None)"

definition mon_start :: mon where
  "mon_start = \<lparr>monitorMutex = None, rtems_monitor_task_id = 0, pcs = (\<lambda>_. Idle)\<rparr>"

inductive mon_reach :: "mon \<Rightarrow> bool" where
  start: "mon_reach mon_start"
| step: "mon_reach m \<Longrightarrow> t \<noteq> 0 \<Longrightarrow> mon_step i t m = Some m' \<Longrightarrow> mon_reach m'"
| again: "mon_reach m \<Longrightarrow> pcs m t = Returned r \<Longrightarrow> mon_reach (goto t Idle m)"   \<comment> \<open>another call\<close>

fun mon_run :: "(nat \<Rightarrow> mon_env \<times> input list) \<Rightarrow> nat list \<Rightarrow> mon \<Rightarrow> mon option" where
  \<comment> \<open>the tasks make a step each, in this order; \<open>ss t\<close> is the session of \<open>t\<close>\<close>
  "mon_run ss [] m = Some m"
| "mon_run ss (t # ts) m = Option.bind (mon_step (ss t) t m) (mon_run ss ts)"

section \<open>Construction and destruction\<close>

record call_utils =
  nest :: int
  mutex_created :: bool
  commands :: "command_entry list"

definition CallUtils :: "call_utils \<Rightarrow> call_utils" where
  "CallUtils c =
     (let n = nest c; c = c\<lparr>nest := n + 1\<rparr> in
      if n \<noteq> 0 then c else c\<lparr>mutex_created := True, commands := commands c @ entries\<rparr>)"

definition delete_CallUtils :: "bool \<Rightarrow> call_utils \<Rightarrow> call_utils" where
  \<comment> \<open>\<open>no_erase\<close>: RTEMS 4.9.99 and later, which have no \<open>rtems_monitor_erase_cmd\<close>\<close>
  "delete_CallUtils no_erase c =
     (let n = nest c - 1; c = c\<lparr>nest := n\<rparr> in
      if n \<noteq> 0 then c
      else if no_erase then c\<lparr>nest := n + 1\<rparr>
      else c\<lparr>commands := fold remove1 entries (commands c), mutex_created := False\<rparr>)"

section \<open>Memory usage\<close>

datatype mu_ev = Disable_dispatch | Get_information | Enable_dispatch | Mu_line string

definition memUsageDump :: "bool \<Rightarrow> int \<Rightarrow> int \<Rightarrow> int \<times> mu_ev list" where
  \<comment> \<open>whether the workspace information fails, the result of \<open>malloc_free_space\<close>, and the argument\<close>
  "memUsageDump info_fails heapsz doit =
     (if doit = 0 then (-1, [Mu_line ''WARNING'', Mu_line ''bailing out''])
      else
        (let rval = (if info_fails then 1 else 0);
             evs = [Mu_line ''WARNING'', Disable_dispatch, Get_information, Enable_dispatch,
                    Mu_line (if rval \<noteq> 0 then ''ERROR: workspace'' else ''Workspace usage'')] in
         if heapsz = -1 then (-1, evs @ [Mu_line ''ERROR: heap'']) else (rval, evs @ [Mu_line ''Free space''])))"

section \<open>Stack trace\<close>

abbreviation STACKBUF_SIZE :: nat where "STACKBUF_SIZE \<equiv> 30"

function print_trace :: "u32 list \<Rightarrow> nat \<Rightarrow> u32 list res" where
  \<comment> \<open>the addresses printed by the last loop of \<open>taskStack\<close>, which reads \<open>stackbuf[i]\<close> before it tests \<open>i\<close>\<close>
  "print_trace stackbuf i =
     (if length stackbuf \<le> i then Inl OutOfBounds
      else if stackbuf ! i \<noteq> 0 \<and> i < STACKBUF_SIZE then map_sum (\<lambda>f. f) ((#) (stackbuf ! i)) (print_trace stackbuf (Suc i))
      else Inr [])"
  by pat_completeness auto
termination
  by (relation "measure (\<lambda>(b, i). length b - i)") auto

record tcb_t =
  reg_pc :: u32
  reg_gpr1 :: u32

datatype st_ev = Thread_get | Thread_enable_dispatch | Snapshot u32 u32

definition taskStack :: "(u32 \<Rightarrow> u32 \<Rightarrow> u32 list) \<Rightarrow> bool \<Rightarrow> tcb_t option \<Rightarrow> bool \<Rightarrow> (int \<times> u32 list) res \<times> st_ev list" where
  \<comment> \<open>\<open>snapshot pc sp\<close> is what \<open>CPU_stack_take_snapshot\<close> leaves in \<open>stackbuf\<close>; the thread found and whether it is
     local and the running one\<close>
  "taskStack snapshot loc tcb executing =
     (case tcb of
        None \<Rightarrow> (Inr (-1, []), [Thread_get])
      | Some th \<Rightarrow>
          if \<not> loc then (Inr (-1, []), [Thread_get, Thread_enable_dispatch])
          else
            (let ctx = (if executing then (0, 0) else (reg_pc th, reg_gpr1 th)) in
             (map_sum (\<lambda>f. f) (Pair 0) (print_trace (snapshot (fst ctx) (snd ctx)) 0),
              [Thread_get, Snapshot (fst ctx) (snd ctx), Thread_enable_dispatch])))"

section \<open>Mutual exclusion\<close>

fun in_critical :: "pc \<Rightarrow> bool" where
  "in_critical Checking = True"
| "in_critical Refusing = True"
| "in_critical Marking = True"
| "in_critical Marked = True"
| "in_critical Unmarking = True"
| "in_critical Unmarked = True"
| "in_critical _ = False"

fun in_monitor :: "pc \<Rightarrow> bool" where
  "in_monitor Marked = True"
| "in_monitor Running = True"
| "in_monitor Leaving = True"
| "in_monitor Unmarking = True"
| "in_monitor _ = False"

definition mon_inv :: "mon \<Rightarrow> bool" where
  "mon_inv m \<longleftrightarrow>
     (\<forall>t. in_critical (pcs m t) \<longleftrightarrow> monitorMutex m = Some t) \<and>
     (\<forall>t. in_monitor (pcs m t) \<longleftrightarrow> rtems_monitor_task_id m = t \<and> t \<noteq> 0) \<and>
     (\<forall>t. pcs m t = Marking \<longrightarrow> rtems_monitor_task_id m = 0) \<and>
     pcs m 0 = Idle"

lemma mon_invD:
  assumes "mon_inv m"
  shows "in_critical (pcs m v) \<longleftrightarrow> monitorMutex m = Some v"
    and "in_monitor (pcs m v) \<longleftrightarrow> rtems_monitor_task_id m = v \<and> v \<noteq> 0"
    and "pcs m v = Marking \<Longrightarrow> rtems_monitor_task_id m = 0"
    and "pcs m 0 = Idle"
  using assms unfolding mon_inv_def by blast+

lemma mon_step_inv:
  assumes inv: "mon_inv m" and t: "t \<noteq> 0" and s: "mon_step i t m = Some m'"
  shows "mon_inv m'"
proof -
  note at = mon_invD(1,2,3) [OF inv, of t]
  have "in_critical (pcs m' v) \<longleftrightarrow> monitorMutex m' = Some v" for v
    using s t at mon_invD(1) [OF inv, of v]
    by (cases "pcs m t"; cases "v = t") (auto simp: mon_step_def goto_def split: if_splits)
  moreover have "in_monitor (pcs m' v) \<longleftrightarrow> rtems_monitor_task_id m' = v \<and> v \<noteq> 0" for v
    using s t at mon_invD(2) [OF inv, of v]
    by (cases "pcs m t"; cases "v = t") (auto simp: mon_step_def goto_def split: if_splits)
  moreover have "rtems_monitor_task_id m' = 0" if "pcs m' v = Marking" for v
    using s t at that mon_invD(1,3) [OF inv, of v]
    by (cases "pcs m t"; cases "v = t") (auto simp: mon_step_def goto_def split: if_splits)
  moreover have "pcs m' 0 = Idle"
    using s t mon_invD(4) [OF inv] by (cases "pcs m t") (auto simp: mon_step_def goto_def split: if_splits)
  ultimately show ?thesis unfolding mon_inv_def by blast
qed

lemma mon_again_inv:
  assumes inv: "mon_inv m" and r: "pcs m t = Returned r"
  shows "mon_inv (goto t Idle m)"
proof -
  have "in_critical (pcs (goto t Idle m) v) = in_critical (pcs m v)"
    "in_monitor (pcs (goto t Idle m) v) = in_monitor (pcs m v)"
    "pcs (goto t Idle m) v = Marking \<longleftrightarrow> pcs m v = Marking" for v using r by (auto simp: goto_def)
  moreover have "pcs (goto t Idle m) 0 = Idle" using mon_invD(4) [OF inv] by (simp add: goto_def)
  ultimately show ?thesis using inv unfolding mon_inv_def by (simp add: goto_def)
qed

lemma mon_reach_inv [inv_intros]: "mon_reach m \<Longrightarrow> mon_inv m"
proof (induction rule: mon_reach.induct)
  case start
  then show ?case by (auto simp: mon_inv_def mon_start_def)
next
  case (step m t i m')
  then show ?case using mon_step_inv by blast
next
  case (again m t r)
  then show ?case using mon_again_inv by blast
qed

text \<open>C37: The monitor is run by one task at a time: in every interleaving, statement by statement, of any number
  of tasks calling \<open>rtemsMonitor\<close>, with the test of the busy mark and its setting as separate statements, two
  tasks between setting and clearing the mark are the same task, the mark is that task's identifier, and the
  mutex is held by at most one task.\<close>
theorem monitor_exclusive:
  assumes "mon_reach m" "in_monitor (pcs m t)" "in_monitor (pcs m u)"
  shows "t = u \<and> rtems_monitor_task_id m = t \<and>
         (\<forall>v w. in_critical (pcs m v) \<longrightarrow> in_critical (pcs m w) \<longrightarrow> v = w)"
  using mon_invD(1,2) [OF mon_reach_inv [OF assms(1)]] assms(2,3) by auto

section \<open>Progress\<close>

fun rank :: "pc \<Rightarrow> nat" where
  \<comment> \<open>a bound on the statements still to be executed\<close>
  "rank Idle = 9"
| "rank Checking = 8"
| "rank Refusing = 1"
| "rank Marking = 7"
| "rank Marked = 6"
| "rank Running = 5"
| "rank Leaving = 4"
| "rank Unmarking = 3"
| "rank Unmarked = 2"
| "rank (Returned r) = 0"

lemma rank_le: "rank l \<le> 9"
  by (cases l) simp_all

lemma mon_step_rank:
  assumes "mon_step i t m = Some m'"
  shows "rank (pcs m' t) < rank (pcs m t)" and "u \<noteq> t \<Longrightarrow> pcs m' u = pcs m u"
  using assms by (cases "pcs m t"; auto simp: mon_step_def goto_def split: if_splits)+

lemma mon_run_reach:
  "mon_run ss ts m = Some m' \<Longrightarrow> mon_reach m \<Longrightarrow> 0 \<notin> set ts \<Longrightarrow> mon_reach m'"
proof (induction ts arbitrary: m)
  case (Cons t ts)
  then obtain n where n: "mon_step (ss t) t m = Some n" "mon_run ss ts n = Some m'" by (auto simp: bind_eq_Some_conv)
  then show ?case using Cons.IH [OF n(2)] mon_reach.step [OF Cons.prems(2) _ n(1)] Cons.prems(3) by auto
qed simp

lemma mon_run_rank:
  assumes "finite T"
  shows "mon_run ss ts m = Some m' \<Longrightarrow> set ts \<subseteq> T \<Longrightarrow>
    length ts + (\<Sum>t\<in>T. rank (pcs m' t)) \<le> (\<Sum>t\<in>T. rank (pcs m t)) \<and> (\<forall>u. u \<notin> T \<longrightarrow> pcs m' u = pcs m u)"
proof (induction ts arbitrary: m)
  case (Cons t ts)
  then obtain n where n: "mon_step (ss t) t m = Some n" "mon_run ss ts n = Some m'" by (auto simp: bind_eq_Some_conv)
  have "(\<Sum>t\<in>T. rank (pcs n t)) < (\<Sum>t\<in>T. rank (pcs m t))"
  proof (rule sum_strict_mono_ex1 [OF assms])
    show "\<forall>u\<in>T. rank (pcs n u) \<le> rank (pcs m u)" using mon_step_rank [OF n(1)] by (metis nle_le order_less_imp_le)
    show "\<exists>u\<in>T. rank (pcs n u) < rank (pcs m u)" using mon_step_rank(1) [OF n(1)] Cons.prems(2) by auto
  qed
  moreover have "pcs n u = pcs m u" if "u \<notin> T" for u
    using mon_step_rank(2) [OF n(1), of u] Cons.prems(2) that by (cases "u = t") auto
  ultimately show ?case using Cons.IH [OF n(2)] Cons.prems(2) by auto
qed simp

lemma mon_blocked:
  assumes "mon_inv m" "mon_step i t m = None" "monitorMutex m = None \<or> monitorMutex m = Some t"
  shows "(\<exists>r. pcs m t = Returned r) \<or> pcs m t = Running \<and> \<not> session_ends i"
  using assms(2,3) mon_invD(1) [OF assms(1), of t] by (cases "pcs m t") (auto simp: mon_step_def split: if_splits)

lemma mon_stuck_free:
  assumes inv: "mon_inv m" and stuck: "\<forall>t\<in>T. mon_step (ss t) t m = None"
    and others: "\<forall>t. t \<notin> T \<longrightarrow> pcs m t = Idle \<or> (\<exists>r. pcs m t = Returned r)"
  shows "monitorMutex m = None"
proof (rule ccontr)
  assume "monitorMutex m \<noteq> None"
  then obtain v where v: "monitorMutex m = Some v" by blast
  then have c: "in_critical (pcs m v)" using mon_invD(1) [OF inv] by simp
  then have "v \<in> T" using others by fastforce
  then show False using mon_blocked [OF inv stuck [rule_format]] v c by fastforce
qed

text \<open>C38: Callers of \<open>rtemsMonitor\<close> that call it once each all return, unless a session does not end. From any
  reachable state, with the steps of a finite set of tasks scheduled in any order, nine steps for each task are
  a bound on the run; and when none of them can make a step any more, the mutex is free and each of them has
  returned, except the one that the busy mark names if it is in its session and that session waits for a line
  or has stopped at a fault. If all sessions end, all have returned and the mark is clear for the next
  caller.\<close>
theorem monitor_progress:
  assumes "mon_reach m" "finite T" "0 \<notin> T" "\<forall>t. t \<notin> T \<longrightarrow> pcs m t = Idle \<or> (\<exists>r. pcs m t = Returned r)"
    and "mon_run ss ts m = Some m'" "set ts \<subseteq> T"
  shows "length ts \<le> 9 * card T \<and>
    ((\<forall>t\<in>T. mon_step (ss t) t m' = None) \<longrightarrow>
       monitorMutex m' = None \<and>
       (\<forall>t\<in>T. (\<exists>r. pcs m' t = Returned r) \<or>
               pcs m' t = Running \<and> \<not> session_ends (ss t) \<and> rtems_monitor_task_id m' = t) \<and>
       ((\<forall>t\<in>T. session_ends (ss t)) \<longrightarrow> (\<forall>t\<in>T. \<exists>r. pcs m' t = Returned r) \<and> rtems_monitor_task_id m' = 0))"
proof (rule conjI)
  note run = mon_run_rank [OF assms(2,5,6)]
  have "(\<Sum>t\<in>T. rank (pcs m t)) \<le> 9 * card T"
    using sum_bounded_above [of T "\<lambda>t. rank (pcs m t)" 9] rank_le by (simp add: mult.commute)
  then show "length ts \<le> 9 * card T" using run by linarith
  have inv: "mon_inv m'" using mon_reach_inv [OF mon_run_reach [OF assms(5,1)]] assms(3,6) by blast
  have others: "\<forall>t. t \<notin> T \<longrightarrow> pcs m' t = Idle \<or> (\<exists>r. pcs m' t = Returned r)" using run assms(4) by auto
  show "(\<forall>t\<in>T. mon_step (ss t) t m' = None) \<longrightarrow>
       monitorMutex m' = None \<and>
       (\<forall>t\<in>T. (\<exists>r. pcs m' t = Returned r) \<or>
               pcs m' t = Running \<and> \<not> session_ends (ss t) \<and> rtems_monitor_task_id m' = t) \<and>
       ((\<forall>t\<in>T. session_ends (ss t)) \<longrightarrow> (\<forall>t\<in>T. \<exists>r. pcs m' t = Returned r) \<and> rtems_monitor_task_id m' = 0)"
  proof
    assume stuck: "\<forall>t\<in>T. mon_step (ss t) t m' = None"
    note free = mon_stuck_free [OF inv stuck others]
    have st: "(\<exists>r. pcs m' t = Returned r) \<or> pcs m' t = Running \<and> \<not> session_ends (ss t) \<and> rtems_monitor_task_id m' = t"
      if "t \<in> T" for t
      using mon_blocked [OF inv stuck [rule_format, OF that]] free mon_invD(2) [OF inv, of t] by auto
    have "rtems_monitor_task_id m' = 0" if "\<forall>t\<in>T. \<exists>r. pcs m' t = Returned r"
    proof (rule ccontr)
      assume "rtems_monitor_task_id m' \<noteq> 0"
      then have "in_monitor (pcs m' (rtems_monitor_task_id m'))" using mon_invD(2) [OF inv] by blast
      then show False using that others by (cases "rtems_monitor_task_id m' \<in> T") fastforce+
    qed
    then show "monitorMutex m' = None \<and>
       (\<forall>t\<in>T. (\<exists>r. pcs m' t = Returned r) \<or>
               pcs m' t = Running \<and> \<not> session_ends (ss t) \<and> rtems_monitor_task_id m' = t) \<and>
       ((\<forall>t\<in>T. session_ends (ss t)) \<longrightarrow> (\<forall>t\<in>T. \<exists>r. pcs m' t = Returned r) \<and> rtems_monitor_task_id m' = 0)"
      using free st by blast
  qed
qed

section \<open>Resources of a session\<close>

lemma run_command_resources [simp]: "run_command cmd argv \<notin> {Strdup, Free_buf, New_editor, Del_editor}"
  by (simp add: run_command_def split: option.split cmd_function.split)


lemma session_loop_line:
  assumes "session_loop e buf (Line s ok # ins) = Some (Inr (evs, b))"
  obtains (no_memory) "evs = free_evs buf @ [No_memory]" "\<not> b"
  | (quit) "evs = free_evs buf @ [Strdup]" "b"
  | (next_line) es c where "session_loop e True ins = Some (Inr (es, b))" "evs = free_evs buf @ [Strdup, c] @ es"
      "c \<notin> {Strdup, Free_buf, New_editor, Del_editor}"
proof (cases "ok \<and> length (make_argv e s) < 20")
  case False
  then show ?thesis using assms no_memory by (auto split: if_splits)
next
  case True
  then obtain a as where av: "make_argv e s = a # as" using assms by (cases "make_argv e s") auto
  show ?thesis
  proof (cases "a = ''exit'' \<or> a = ''quit''")
    case True
    then show ?thesis using assms av quit \<open>ok \<and> _\<close> by auto
  next
    case False
    then obtain es where "session_loop e True ins = Some (Inr (es, b))"
      "evs = free_evs buf @ [Strdup, run_command (lookup e a) (a # as)] @ es"
      using assms av \<open>ok \<and> _\<close> by (cases "session_loop e True ins") (auto simp: map_sum_def split: sum.splits)
    then show ?thesis by (rule next_line) (rule run_command_resources)
  qed
qed

lemma session_loop_buf:
  "session_loop e buf ins = Some (Inr (evs, b)) \<Longrightarrow>
     count_list evs Strdup + (if buf then 1 else 0) = count_list evs Free_buf + (if b then 1 else 0) \<and>
     New_editor \<notin> set evs \<and> Del_editor \<notin> set evs"
proof (induction ins arbitrary: evs buf)
  case (Cons i ins evs buf)
  show ?case
  proof (cases i)
    case (Line s ok)
    from Cons.prems [unfolded Line] show ?thesis
    proof (cases rule: session_loop_line)
      case (next_line es c)
      then show ?thesis using Cons.IH [OF next_line(1)] by (auto simp: free_evs_def)
    qed (auto simp: free_evs_def)
  qed (use Cons.prems in auto)
qed simp

text \<open>A session that ends gives back what it allocated: every copy of a line is freed, and the line editor
  is deleted exactly when it was created, on every way out.\<close>
theorem session_balanced:
  assumes "session e ins = Some (Inr evs)"
  shows "count_list evs Strdup = count_list evs Free_buf \<and>
         count_list evs New_editor = count_list evs Del_editor \<and>
         count_list evs New_editor = (if editor_ok e then 1 else 0)"
proof (cases "editor_ok e")
  case False
  then show ?thesis using assms by (auto simp: session_def)
next
  case True
  then obtain es b where loop: "session_loop e False ins = Some (Inr (es, b))"
      and evs: "evs = [Load_symbols, New_editor] @ es @ [Del_editor] @ free_evs b"
    using assms by (cases "session_loop e False ins") (auto simp: session_def map_sum_def split: sum.splits prod.splits)
  then show ?thesis using session_loop_buf [OF loop] True by (auto simp: free_evs_def)
qed

definition command_line :: "mon_env \<Rightarrow> string \<Rightarrow> bool" where
  "command_line e s \<longleftrightarrow> (\<exists>a as. make_argv e s = a # as \<and> length as < 19 \<and> a \<noteq> ''exit'' \<and> a \<noteq> ''quit'')"

definition run_of :: "mon_env \<Rightarrow> string \<Rightarrow> mon_ev" where
  "run_of e s = run_command (lookup e (hd (make_argv e s))) (make_argv e s)"

fun outcome :: "mon_ev \<Rightarrow> bool" where
  "outcome (Call _ _) = True"
| "outcome (Run _ _) = True"
| "outcome (Not_found _) = True"
| "outcome _ = False"

lemma outcome_run_command [simp]: "outcome (run_command cmd argv)"
  by (simp add: run_command_def split: option.split cmd_function.split)

lemma session_loop_runs:
  "\<forall>s\<in>set ls. command_line e s \<Longrightarrow>
     \<exists>evs b. session_loop e buf (map (\<lambda>s. Line s True) ls @ No_line # rest) = Some (Inr (evs, b)) \<and>
             filter outcome evs = map (run_of e) ls"
proof (induction ls arbitrary: buf)
  case (Cons s ls)
  then obtain evs b where IH: "session_loop e True (map (\<lambda>s. Line s True) ls @ No_line # rest) = Some (Inr (evs, b))"
    "filter outcome evs = map (run_of e) ls" by fastforce
  have "command_line e s" using Cons.prems by simp
  then obtain a as where "make_argv e s = a # as" "length as < 19" "a \<noteq> ''exit''" "a \<noteq> ''quit''"
    by (auto simp: command_line_def)
  then show ?case using IH by (auto simp: run_of_def free_evs_def)
qed simp

text \<open>A session whose lines each have between one and nineteen words and none of which is a request to leave
  ends when the line editor reports the end of input, and has then run the commands, or reported them as
  unknown, once for each line and in order.\<close>
theorem session_runs:
  assumes "editor_ok e" "\<forall>s\<in>set ls. command_line e s"
  shows "\<exists>evs. session e (map (\<lambda>s. Line s True) ls @ No_line # rest) = Some (Inr evs) \<and>
               filter outcome evs = map (run_of e) ls"
proof -
  obtain es b where "session_loop e False (map (\<lambda>s. Line s True) ls @ No_line # rest) = Some (Inr (es, b))"
    "filter outcome es = map (run_of e) ls" using session_loop_runs [OF assms(2)] by blast
  then show ?thesis using assms(1) by (simp add: session_def free_evs_def)
qed

text \<open>A line without a word makes the loop compare a null pointer.\<close>
lemma session_empty_line:
  "editor_ok e \<Longrightarrow> make_argv e s = [] \<Longrightarrow> session e (Line s True # ins) = Some (Inl NullDeref)"
  by (simp add: session_def)

section \<open>Registration of the commands\<close>

lemma digits_end: "snd (digits b s v) \<le> length s"
  by (induction s arbitrary: v) (auto simp: split_beta split: option.split)

lemma strtol_end: "snd (strtol s) \<le> length s"
proof -
  let ?b = "length (takeWhile isspace s)"
  let ?sg = "snd (sign (drop ?b s))"
  let ?t = "drop ?sg (drop ?b s)"
  have *: "snd (digits base (drop pre ?t) 0) \<noteq> 0 \<Longrightarrow> ?b + ?sg + pre + snd (digits base (drop pre ?t) 0) \<le> length s" for base pre
    using digits_end [of base "drop pre ?t" 0] by simp
  show ?thesis
    using * [of 16 2] * [of 8 0] * [of 10 0] by (auto simp: strtol_def Let_def split_beta)
qed

lemma find_distinct: "distinct (map f xs) \<Longrightarrow> x \<in> set xs \<Longrightarrow> find (\<lambda>y. f y = f x) xs = Some x"
  by (induction xs) (auto simp: rev_image_eqI)

lemma entries_ours:
  "distinct (map command entries)"
  "list_all (\<lambda>x. command_function x = Fnwrap \<and> command x \<noteq> ''exit'' \<and> command x \<noteq> ''quit'') entries"
  by (simp_all add: entries_def command_entry_builder_def)

lemma find_append: "find P (xs @ ys) = (case find P xs of None \<Rightarrow> find P ys | Some x \<Rightarrow> Some x)"
  by (induction xs) simp_all

fun cu_run :: "bool \<Rightarrow> bool list \<Rightarrow> call_utils \<Rightarrow> call_utils option" where
  \<comment> \<open>constructors (\<open>True\<close>) and destructors; \<open>None\<close> if more objects are destroyed than exist\<close>
  "cu_run no_erase [] c = Some c"
| "cu_run no_erase (True # ops) c = cu_run no_erase ops (CallUtils c)"
| "cu_run no_erase (False # ops) c = (if nest c \<le> 0 then None else cu_run no_erase ops (delete_CallUtils no_erase c))"

definition cu_inv :: "command_entry list \<Rightarrow> call_utils \<Rightarrow> bool" where
  "cu_inv cs c \<longleftrightarrow> 0 \<le> nest c \<and> mutex_created c = (0 < nest c) \<and>
     commands c = (if 0 < nest c then cs @ entries else cs)"

lemma erase_entries: "set cs \<inter> set entries = {} \<Longrightarrow> fold remove1 entries (cs @ entries) = cs"
  by (auto simp: entries_def command_entry_builder_def remove1_append)

lemma cu_run_inv:
  assumes "set cs \<inter> set entries = {}"
  shows "cu_inv cs c \<Longrightarrow> cu_run no_erase ops c = Some c' \<Longrightarrow> cu_inv cs c'"
proof (induction no_erase ops c rule: cu_run.induct)
  case (2 no_erase ops c)
  have "cu_inv cs (CallUtils c)" using "2.prems"(1) by (auto simp: cu_inv_def CallUtils_def Let_def)
  then show ?case using 2 by simp
next
  case (3 no_erase ops c)
  have "0 < nest c \<Longrightarrow> cu_inv cs (delete_CallUtils no_erase c)"
    using "3.prems"(1) erase_entries [OF assms] by (auto simp: cu_inv_def delete_CallUtils_def Let_def)
  then show ?case using 3 by (auto split: if_splits)
qed simp

text \<open>However objects of class \<open>CallUtils\<close> come and go, the four commands are registered exactly once while
  one exists, the mutex exists exactly then, and after the last one is gone the table of commands is what it
  was before; with RTEMS versions that cannot remove commands the count never falls back to zero.\<close>
theorem call_utils_once:
  assumes "set cs \<inter> set entries = {}"
    and "cu_run no_erase ops \<lparr>nest = 0, mutex_created = False, commands = cs\<rparr> = Some c"
  shows "0 \<le> nest c \<and> mutex_created c = (0 < nest c) \<and> commands c = (if 0 < nest c then cs @ entries else cs)"
  using cu_run_inv [OF assms(1) _ assms(2)] by (simp add: cu_inv_def)

text \<open>The commands as they are used. While an object of class \<open>CallUtils\<close> exists and the lookup finds the
  registered command of a given name, a line whose first word is one of the four names, which no other
  command has, calls that command's function through \<open>fnwrap\<close>: with the number its second word stands for,
  with 0 when there is none, and not at all when that word is no number.\<close>
theorem monitor_calls_command:
  assumes "cu_run no_erase ops \<lparr>nest = 0, mutex_created = False, commands = cs\<rparr> = Some c" "0 < nest c"
    and "lookup e = (\<lambda>a. find (\<lambda>x. command x = a) (commands c))" "x \<in> set entries"
    and "command ` set cs \<inter> command ` set entries = {}"
    and "editor_ok e" "make_argv e s = command x # as" "length as < 19"
  shows "\<exists>evs. session e [Line s True, No_line] = Some (Inr evs) \<and>
    filter outcome evs = [Call (command_arg x)
      (case as of [] \<Rightarrow> Called_with 0
       | a # _ \<Rightarrow> if a \<noteq> [] \<and> snd (strtol a) = length a then Called_with (word_of_int (fst (strtol a))) else Invalid_argument)]"
proof -
  have "set cs \<inter> set entries = {}" using assms(5) by auto
  then have "commands c = cs @ entries"
    using cu_run_inv [OF _ _ assms(1)] assms(2) by (simp add: cu_inv_def)
  moreover have "find (\<lambda>y. command y = command x) cs = None" using assms(4,5) by (auto simp: find_None_iff)
  moreover have "find (\<lambda>y. command y = command x) entries = Some x"
    using entries_ours(1) assms(4) by (rule find_distinct)
  ultimately have l: "lookup e (command x) = Some x" by (simp add: assms(3) find_append)
  have f: "command_function x = Fnwrap" "command x \<noteq> ''exit''" "command x \<noteq> ''quit''"
    using assms(4) entries_ours(2) by (auto simp: list_all_iff)
  have "snd (strtol a) < length a \<longleftrightarrow> snd (strtol a) \<noteq> length a" for a using strtol_end [of a] by auto
  then have "run_command (Some x) (command x # as) = Call (command_arg x)
      (case as of [] \<Rightarrow> Called_with 0
       | a # _ \<Rightarrow> if a \<noteq> [] \<and> snd (strtol a) = length a then Called_with (word_of_int (fst (strtol a))) else Invalid_argument)"
    using f(1) by (auto simp: run_command_def fnwrap_def argv_at_def split_beta split: list.split)
  then show ?thesis using assms(6-8) f l by (simp add: session_def free_evs_def)
qed

section \<open>Stack trace and memory usage\<close>

lemma print_trace_ends:
  "i \<le> length buf \<Longrightarrow> length buf \<le> STACKBUF_SIZE \<Longrightarrow> 0 \<in> set (drop i buf) \<Longrightarrow>
     print_trace buf i = Inr (takeWhile (\<lambda>a. a \<noteq> 0) (drop i buf))"
proof (induction buf i rule: print_trace.induct)
  case (1 buf i)
  then have lt: "i < length buf" by (cases "i = length buf") auto
  then have d: "drop i buf = buf ! i # drop (Suc i) buf" by (simp add: Cons_nth_drop_Suc)
  show ?case
  proof (cases "buf ! i = 0")
    case True
    then show ?thesis using lt d by (subst print_trace.simps) simp
  next
    case False
    then show ?thesis using 1 lt d by (subst print_trace.simps) (simp del: print_trace.simps)
  qed
qed

lemma print_trace_full:
  "i \<le> length buf \<Longrightarrow> length buf \<le> STACKBUF_SIZE \<Longrightarrow> 0 \<notin> set (drop i buf) \<Longrightarrow> print_trace buf i = Inl OutOfBounds"
proof (induction buf i rule: print_trace.induct)
  case (1 buf i)
  show ?case
  proof (cases "i = length buf")
    case True
    then show ?thesis by (subst print_trace.simps) simp
  next
    case False
    then have "drop i buf = buf ! i # drop (Suc i) buf" "i < length buf" using 1 by (simp_all add: Cons_nth_drop_Suc)
    then show ?thesis using 1 by (subst print_trace.simps) (simp del: print_trace.simps)
  qed
qed

text \<open>\<open>taskStack\<close> prints the frames of the snapshot up to the first null and returns 0, with thread dispatching
  enabled again after the snapshot; a snapshot that fills all thirty entries makes the printing loop read
  past the end of the array.\<close>
theorem taskStack_trace:
  assumes "length (snapshot (reg_pc th) (reg_gpr1 th)) = STACKBUF_SIZE"
  shows "taskStack snapshot True (Some th) False =
    ((if 0 \<in> set (snapshot (reg_pc th) (reg_gpr1 th))
      then Inr (0, takeWhile (\<lambda>a. a \<noteq> 0) (snapshot (reg_pc th) (reg_gpr1 th))) else Inl OutOfBounds),
     [Thread_get, Snapshot (reg_pc th) (reg_gpr1 th), Thread_enable_dispatch])"
proof -
  let ?b = "snapshot (reg_pc th) (reg_gpr1 th)"
  have "print_trace ?b 0 = (if 0 \<in> set ?b then Inr (takeWhile (\<lambda>a. a \<noteq> 0) ?b) else Inl OutOfBounds)"
    using assms print_trace_ends [of 0 ?b] print_trace_full [of 0 ?b] by simp
  then show ?thesis by (simp add: taskStack_def del: print_trace.simps)
qed

fun dispatch_step :: "mu_ev \<Rightarrow> bool \<Rightarrow> bool option" where
  \<comment> \<open>the state tells whether dispatching is disabled; nothing is printed then\<close>
  "dispatch_step Disable_dispatch d = (if d then None else Some True)"
| "dispatch_step Get_information d = (if d then Some True else None)"
| "dispatch_step Enable_dispatch d = (if d then Some False else None)"
| "dispatch_step (Mu_line l) d = (if d then None else Some False)"

interpretation dispatching: discipline dispatch_step False
  "\<lambda>e. of_bool (e = Disable_dispatch)" "\<lambda>e. of_bool (e = Enable_dispatch)" of_bool
proof
  show "of_bool s = (0 :: nat) \<longleftrightarrow> s = False" for s by simp
  show "dispatch_step e s = Some s' \<Longrightarrow>
      of_bool s' + of_bool (e = Enable_dispatch) = (of_bool s + of_bool (e = Disable_dispatch) :: nat)" for e s s'
    by (cases e) (auto split: if_splits)
qed

text \<open>The heap is examined with dispatching disabled, nothing is printed meanwhile, and dispatching is enabled
  again on every path; 0 is returned exactly when both queries succeed.\<close>
lemma memUsageDump_dispatch:
  assumes "memUsageDump info_fails heapsz doit = (r, evs)"
  shows "accept dispatch_step evs False = Some False"
    and "r = 0 \<longleftrightarrow> doit \<noteq> 0 \<and> \<not> info_fails \<and> heapsz \<noteq> -1"
  using assms by (auto simp: memUsageDump_def Let_def split: if_splits)

section \<open>Concrete instances\<close>

definition one_inside :: mon where
  "one_inside = \<lparr>monitorMutex = Some 5, rtems_monitor_task_id = 5, pcs = (\<lambda>_. Idle)(5 := Marked)\<rparr>"

lemma one_inside_reach: "mon_reach one_inside"
proof -
  have "mon_reach (goto 5 Checking (mon_start\<lparr>monitorMutex := Some 5\<rparr>))"
    by (rule mon_reach.step [OF mon_reach.start, of 5]) (simp_all add: mon_step_def mon_start_def)
  then have "mon_reach (goto 5 Marking (mon_start\<lparr>monitorMutex := Some 5\<rparr>))"
    by (rule mon_reach.step [of _ 5]) (simp_all add: mon_step_def mon_start_def goto_def)
  then show ?thesis
    by (rule mon_reach.step [of _ 5]) (simp_all add: mon_step_def mon_start_def goto_def one_inside_def)
qed

theorem monitor_exclusive_witness:
  "mon_reach one_inside \<and> in_monitor (pcs one_inside 5) \<and> rtems_monitor_task_id one_inside = 5"
proof -
  have "in_monitor (pcs one_inside 5)" by (simp add: one_inside_def)
  then show ?thesis using monitor_exclusive [OF one_inside_reach] one_inside_reach by blast
qed

definition no_editor :: "nat \<Rightarrow> mon_env \<times> input list" where
  "no_editor t = (\<lparr>editor_ok = False, make_argv = (\<lambda>_. []), lookup = (\<lambda>_. None)\<rparr>, [])"

definition both_back :: mon where
  \<comment> \<open>task 5 has run its session, task 7 came meanwhile and was refused\<close>
  "both_back = \<lparr>monitorMutex = None, rtems_monitor_task_id = 0, pcs = (\<lambda>_. Idle)(5 := Returned 0, 7 := Returned (-1))\<rparr>"

lemma no_editor_ends [simp]: "session_ends (no_editor t)"
  by (simp add: session_ends_def no_editor_def session_def)

lemma both_back_run: "mon_run no_editor [5, 7, 7, 7, 5, 5, 5, 5] one_inside = Some both_back"
  by (simp add: mon_step_def goto_def one_inside_def both_back_def fun_eq_iff)

theorem monitor_progress_witness:
  "mon_run no_editor [5, 7, 7, 7, 5, 5, 5, 5] one_inside = Some both_back \<and>
   (\<exists>r s. pcs both_back 5 = Returned r \<and> pcs both_back 7 = Returned s) \<and> rtems_monitor_task_id both_back = 0"
proof -
  have "\<forall>t. t \<notin> {5, 7} \<longrightarrow> pcs one_inside t = Idle \<or> (\<exists>r. pcs one_inside t = Returned r)" by (simp add: one_inside_def)
  moreover have "\<forall>t\<in>{5, 7}. mon_step (no_editor t) t both_back = None" by (simp add: mon_step_def both_back_def)
  ultimately show ?thesis
    using monitor_progress [OF one_inside_reach, of "{5, 7}" no_editor "[5, 7, 7, 7, 5, 5, 5, 5]" both_back] both_back_run by auto
qed

definition sample_env :: mon_env where
  "sample_env = \<lparr>editor_ok = True, make_argv = strtok_blank, lookup = (\<lambda>s. find (\<lambda>c. command c = s) entries)\<rparr>"

lemma sample_commands:
  "run_command (lookup sample_env ''memUsageDump'') [''memUsageDump'', ''1''] = Call Fn_memUsageDump (Called_with 1)"
  "run_command (lookup sample_env ''foo'') [''foo''] = Not_found ''foo''"
  by (simp_all add: sample_env_def entries_def command_entry_builder_def run_command_def fnwrap_def argv_at_def strtol_def
      sign_def isspace_def digit_val_def)

theorem session_balanced_witness:
  "session sample_env [Line ''memUsageDump 1'' True, Line ''foo'' True, Line ''quit'' True] =
     Some (Inr [Load_symbols, New_editor, Strdup, Call Fn_memUsageDump (Called_with 1), Free_buf, Strdup, Not_found ''foo'',
                Free_buf, Strdup, Del_editor, Free_buf]) \<and>
   count_list [Load_symbols, New_editor, Strdup, Call Fn_memUsageDump (Called_with 1), Free_buf, Strdup, Not_found ''foo'',
                Free_buf, Strdup, Del_editor, Free_buf] Free_buf = 3"
proof -
  have *: "session sample_env [Line ''memUsageDump 1'' True, Line ''foo'' True, Line ''quit'' True] =
     Some (Inr [Load_symbols, New_editor, Strdup, Call Fn_memUsageDump (Called_with 1), Free_buf, Strdup, Not_found ''foo'',
                Free_buf, Strdup, Del_editor, Free_buf])"
    using sample_commands by (simp add: session_def sample_env_def free_evs_def)
  show ?thesis using session_balanced [OF *] * by simp
qed

theorem session_runs_witness:
  "editor_ok sample_env \<and> command_line sample_env ''memUsageDump 1'' \<and>
   (\<exists>evs. session sample_env [Line ''memUsageDump 1'' True, No_line] = Some (Inr evs) \<and>
          filter outcome evs = [Call Fn_memUsageDump (Called_with 1)])"
proof -
  have *: "editor_ok sample_env" "\<forall>s\<in>set [''memUsageDump 1'']. command_line sample_env s"
    by (simp_all add: sample_env_def command_line_def)
  then show ?thesis using session_runs [OF *, of "[]"] sample_commands(1) by (simp add: run_of_def) (simp add: sample_env_def)
qed

definition help_entry :: command_entry where
  "help_entry = \<lparr>command = ''help'', usage = [], arguments_required = 0, command_function = Rtems_function 0, command_arg = Fn_other 0\<rparr>"

theorem call_utils_once_witness:
  "set [help_entry] \<inter> set entries = {} \<and>
   (\<exists>c. cu_run False [True, True, False, False] \<lparr>nest = 0, mutex_created = False, commands = [help_entry]\<rparr> = Some c \<and>
        commands c = (if 0 < nest c then [help_entry] @ entries else [help_entry]))"
proof -
  have d: "set [help_entry] \<inter> set entries = {}" by (simp add: entries_def command_entry_builder_def help_entry_def)
  obtain c where "cu_run False [True, True, False, False] \<lparr>nest = 0, mutex_created = False, commands = [help_entry]\<rparr> = Some c"
    by (simp add: CallUtils_def delete_CallUtils_def)
  then show ?thesis using call_utils_once [OF d] d by blast
qed

theorem taskStack_trace_witness:
  "length (replicate 30 (0x1000 :: u32)) = STACKBUF_SIZE \<and>
   fst (taskStack (\<lambda>_ _. replicate 30 0x1000) True (Some \<lparr>reg_pc = 4, reg_gpr1 = 8\<rparr>) False) = Inl OutOfBounds"
  using taskStack_trace [of "\<lambda>_ _. replicate 30 0x1000" "\<lparr>reg_pc = 4, reg_gpr1 = 8\<rparr>"] by simp

end
