(* ===== verification/Listings.thy ===== *)
theory Listings
  imports Monitor MemUtils Digits
begin

unbundle bit_operations_syntax

text \<open>
  What the display functions print: the registers and the trace of \<open>taskStack\<close> in \<^verbatim>\<open>monitor/stack.c\<close>, the frames of
  \<open>sdump\<close> in \<^verbatim>\<open>altivec/ppc_stack_probe.c\<close>, the task list and the scheduler limits of \<^verbatim>\<open>miscUtils/miscTools.c\<close>, and the
  heap statistics and translation registers of \<^verbatim>\<open>miscUtils/memUtils.c\<close>. What RTEMS and Cexp report is a set of
  parameters. A line is a string without its line feed.
\<close>

section \<open>Registers\<close>

type_synonym gprs = "nat \<Rightarrow> u32"

record cpu_regs =
  gpr :: gprs
  cr :: u32
  msr_reg :: u32

definition x8 :: "u32 \<Rightarrow> string" where
  "x8 w = ''0x'' @ hexn 8 (unat w)"

definition listed :: "nat list" where
  \<comment> \<open>the general purpose registers a context keeps\<close>
  "listed = [1, 2, 13, 14, 15, 16, 17, 18, 19, 20, 21, 22, 23, 24, 25, 26, 27, 28, 29, 30, 31]"

definition taskStack_regs :: "cpu_regs \<Rightarrow> cpu_regs \<Rightarrow> bool \<Rightarrow> cpu_regs" where
  \<comment> \<open>the saved registers of the thread, or the current ones of the running thread; the others are zero\<close>
  "taskStack_regs saved live executing =
     (if executing then \<lparr>gpr = \<lambda>n. if n \<in> set listed then gpr live n else 0, cr = cr live, msr_reg = msr_reg live\<rparr>
      else saved)"

definition taskStack_layout :: "(string \<times> nat) list list" where
  "taskStack_layout =
     [[(''GPR1:  '', 1)],
      [(''GPR2:  '', 2), (''GPR13: '', 13), (''GPR14: '', 14), (''GPR15: '', 15)],
      [(''GPR16: '', 16), (''GPR17: '', 17), (''GPR18: '', 18), (''GPR19: '', 19)],
      [(''GPR20: '', 20), (''GPR21: '', 21), (''GPR22: '', 22), (''GPR23: '', 23)],
      [(''GPR24: '', 24), (''GPR25: '', 25), (''GPR26: '', 26), (''GPR27: '', 27)],
      [(''GPR28: '', 28), (''GPR29: '', 29), (''GPR30: '', 30), (''GPR31: '', 31)]]"

fun comma :: "string list \<Rightarrow> string" where
  "comma [] = []"
| "comma [s] = s"
| "comma (s # t # ts) = s @ '', '' @ comma (t # ts)"

definition taskStack_show :: "cpu_regs \<Rightarrow> string list" where
  "taskStack_show r =
     [[], ''Registers:''] @
     map (\<lambda>l. comma (map (\<lambda>(lab, n). lab @ x8 (gpr r n)) l)) taskStack_layout @
     [[], ''CR:    '' @ x8 (cr r), ''MSR:   '' @ x8 (msr_reg r), [], ''Stack Trace:'']"

definition trace_line :: "(u32 \<Rightarrow> (u32 \<times> string) option) \<Rightarrow> u32 \<Rightarrow> string" where
  \<comment> \<open>\<open>cexpAddrFind\<close> gives the address and the name of the symbol at or below an address\<close>
  "trace_line cexpAddrFind a =
     x8 a @
     (case cexpAddrFind a of None \<Rightarrow> []
      | Some (symaddr, nm) \<Rightarrow>
          (let diff = a - symaddr in
           '' == <'' @ nm @ (if diff \<noteq> 0 then '' + 0x'' @ base_chars 16 (unat diff) else []) @ ''>''))"

section \<open>Stack frames\<close>

partial_function (option) sdump_loop :: "(u32 \<Rightarrow> u32 \<times> u32) \<Rightarrow> u32 \<Rightarrow> u32 \<Rightarrow> (u32 \<times> u32) list option" where
  \<comment> \<open>\<open>frame r\<close> has the back chain and the link register saved at \<open>r\<close>; the pairs of frame and return address printed\<close>
  "sdump_loop frame r1 lr =
     (if fst (frame r1) = 0 then Some []
      else Option.bind (sdump_loop frame (fst (frame r1)) (snd (frame (fst (frame r1))))) (\<lambda>fs. Some ((r1, lr) # fs)))"

definition sdump :: "(u32 \<Rightarrow> u32 \<times> u32) \<Rightarrow> u32 \<Rightarrow> u32 \<Rightarrow> string list option" where
  "sdump frame r1 lr =
     map_option (map (\<lambda>(r, l). ''R1: '' @ x8 r @ ''; return addr '' @ x8 l)) (sdump_loop frame r1 lr)"

section \<open>Tasks and schedulers\<close>

record task_info =
  object_name :: string       \<comment> \<open>what \<open>rtems_object_get_name\<close> stores in the 32 bytes\<close>
  initial_priority :: int
  current_priority :: int
  real_priority :: int

definition pad6 :: "string \<Rightarrow> string" where
  \<comment> \<open>\<open>%6s\<close>\<close>
  "pad6 s = replicate (6 - length s) (CHR '' '') @ s"

definition per_thread :: "task_info \<Rightarrow> string" where
  "per_thread tcb =
     pad6 (object_name tcb) @ '' initial_prio='' @ dec (initial_priority tcb) @
     '', current_prio='' @ dec (current_priority tcb) @ '', real_prio='' @ dec (real_priority tcb)"

definition taskList :: "task_info list \<Rightarrow> string list" where
  \<comment> \<open>\<open>rtems_iterate_over_all_threads\<close> visits the threads in this order\<close>
  "taskList threads = map per_thread threads"

definition posixSchedInfo :: "(string \<Rightarrow> int) \<Rightarrow> (string \<Rightarrow> int) \<Rightarrow> string list" where
  "posixSchedInfo prio_min prio_max =
     map (\<lambda>p. p @ '': min='' @ dec (prio_min p) @ '', max='' @ dec (prio_max p)) [''SCHED_RR'', ''SCHED_FIFO'', ''SCHED_OTHER'']"

section \<open>Heap statistics and translation registers\<close>

record malloc_statistics =
  malloc_calls :: nat
  calloc_calls :: nat
  realloc_calls :: nat
  memalign_calls :: nat
  free_calls :: nat
  lifetime_allocated :: nat
  lifetime_freed :: nat
  max_depth :: nat
  space_available :: nat

definition mallocStats :: "malloc_statistics \<Rightarrow> string list" where
  "mallocStats s =
     [''Malloc stats:'',
      ''  malloc calls: '' @ base_chars 10 (malloc_calls s),
      ''  calloc calls: '' @ base_chars 10 (calloc_calls s),
      ''  realloc calls: '' @ base_chars 10 (realloc_calls s),
      ''  memalign calls: '' @ base_chars 10 (memalign_calls s),
      ''  free calls: '' @ base_chars 10 (free_calls s),
      ''  total bytes alloc'' @ [CHR 0x27] @ ''ed: '' @ base_chars 10 (lifetime_allocated s),
      ''  total bytes freed: '' @ base_chars 10 (lifetime_freed s),
      ''  max alloc size: '' @ base_chars 10 (max_depth s),
      ''  space available: '' @ base_chars 10 (space_available s)]"

definition workspaceUsage :: "nat \<Rightarrow> nat \<Rightarrow> nat \<times> nat \<times> nat" where
  \<comment> \<open>used, free and total, each shown in units of 1024 bytes with two decimals\<close>
  "workspaceUsage used free = (used, free, free + used)"

definition getdbat :: "(bool \<Rightarrow> nat \<Rightarrow> u32 \<times> u32) \<Rightarrow> nat \<Rightarrow> bat_info option" where
  "getdbat regs i = pbat regs i True"

definition getibat :: "(bool \<Rightarrow> nat \<Rightarrow> u32 \<times> u32) \<Rightarrow> nat \<Rightarrow> bat_info option" where
  "getibat regs i = pbat regs i False"

section \<open>Properties\<close>

lemma strtoul_x8: "strtoul (x8 w) = (w, 10)"
  using strtoul_hexn [of "unat w" 8] unsigned_less [of w] by (simp add: x8_def)

lemma comma_item: "s \<in> set ss \<Longrightarrow> \<exists>pre post. comma ss = pre @ s @ post"
proof (induction ss rule: comma.induct)
  case (2 s')
  then show ?case by (intro exI [of _ "[]"]) simp
next
  case (3 s' t ts)
  show ?case
  proof (cases "s = s'")
    case True
    then show ?thesis by (intro exI [of _ "[]"] exI [of _ "'', '' @ comma (t # ts)"]) simp
  next
    case False
    with 3 obtain pre post where "comma (t # ts) = pre @ s @ post" by auto
    then show ?thesis by (intro exI [of _ "s' @ '', '' @ pre"] exI [of _ post]) simp
  qed
qed simp

lemma layout_registers: "map snd (concat taskStack_layout) = listed"
  by (simp add: taskStack_layout_def listed_def)

text \<open>The register display is complete and readable: each register a context keeps has one place in it, and the
  text behind its label is read back as its value.\<close>

lemma taskStack_registers:
  assumes "n \<in> set listed"
  shows "\<exists>lab line pre post. line \<in> set (taskStack_show r) \<and> line = pre @ lab @ x8 (gpr r n) @ post \<and>
    [p \<leftarrow> concat taskStack_layout. snd p = n] = [(lab, n)] \<and> strtoul (x8 (gpr r n)) = (gpr r n, 10)"
proof -
  from assms have one: "\<exists>lab. [p \<leftarrow> concat taskStack_layout. snd p = n] = [(lab, n)]"
    by (auto simp: listed_def taskStack_layout_def)
  then obtain lab where lab: "[p \<leftarrow> concat taskStack_layout. snd p = n] = [(lab, n)]" by blast
  then have "(lab, n) \<in> set (concat taskStack_layout)" 
    by (metis (no_types, lifting) filter_is_subset list.set_intros(1) subsetD)
  then obtain l where l: "l \<in> set taskStack_layout" "(lab, n) \<in> set l" by auto
  let ?f = "\<lambda>(lab, n). lab @ x8 (gpr r n)"
  obtain pre post where "comma (map ?f l) = pre @ (lab @ x8 (gpr r n)) @ post"
    using comma_item [of "lab @ x8 (gpr r n)" "map ?f l"] l(2) by force
  moreover have "comma (map ?f l) \<in> set (taskStack_show r)" using l(1) by (auto simp: taskStack_show_def)
  ultimately show ?thesis using lab strtoul_x8 by (metis append.assoc)
qed

text \<open>Frames that grow upwards, as the stack does, are followed to the last one.\<close>

lemma sdump_returns:
  assumes "\<And>r. fst (frame r) \<noteq> 0 \<Longrightarrow> r < fst (frame r)"
  shows "\<exists>fs. sdump_loop frame r1 lr = Some fs"
proof (induction "2 ^ 32 - unat r1" arbitrary: r1 lr rule: less_induct)
  case less
  show ?case
  proof (cases "fst (frame r1) = 0")
    case False
    have "unat r1 < unat (fst (frame r1))" using assms [OF False] by (simp add: word_less_nat_alt)
    moreover have "unat (fst (frame r1)) < 2 ^ 32" using unsigned_less [of "fst (frame r1)"] by simp
    ultimately obtain fs where "sdump_loop frame (fst (frame r1)) (snd (frame (fst (frame r1)))) = Some fs"
      using less [of "fst (frame r1)" "snd (frame (fst (frame r1)))"] by (auto simp: diff_less_mono2)
    then show ?thesis using False by (simp add: sdump_loop.simps [of frame r1])
  qed (simp add: sdump_loop.simps [of frame r1])
qed

text \<open>A trace line names a symbol and the distance from it, which add up to the address.\<close>

lemma trace_line_address:
  assumes "addr_find a = Some (s0, nm)" "s0 \<noteq> a"
  shows "\<exists>diff. trace_line addr_find a = x8 a @ '' == <'' @ nm @ '' + 0x'' @ base_chars 16 (unat diff) @ ''>'' \<and> s0 + diff = a \<and>
    fst (digits 16 (base_chars 16 (unat diff)) 0) = unat diff"
  using assms digits_base_chars [of 16 "unat (a - s0)"] by (intro exI [of _ "a - s0"]) (simp add: trace_line_def Let_def)

end
