(* ===== verification/Utils.thy ===== *)
theory Utils
  imports Prelude
begin

text \<open>
  The file and terminal utilities: \<open>cat\<close> of \<^verbatim>\<open>miscUtils/fileUtils.c\<close> and \<open>sttyspeed\<close> of
  \<^verbatim>\<open>miscUtils/ttyconfi.c\<close>. What the system calls return is given; the calls made are a trace.
\<close>

section \<open>Printing a file\<close>

datatype rd = Data "u8 list" | Read_error       \<comment> \<open>\<open>Data []\<close> is the end of the file\<close>

abbreviation BUF_SIZE :: nat where "BUF_SIZE \<equiv> 4096"

fun cat_loop :: "rd list \<Rightarrow> u8 list res option" where
  \<comment> \<open>the bytes written to \<open>stdout\<close>; storing the zero behind the data may leave the buffer; \<open>None\<close>: still reading\<close>
  "cat_loop [] = None"
| "cat_loop (Read_error # rs) = Some (Inr [])"
| "cat_loop (Data d # rs) =
     (if d = [] then Some (Inr [])
      else if length d \<ge> BUF_SIZE then Some (Inl OutOfBounds)
      else map_option (map_sum (\<lambda>f. f) ((@) d)) (cat_loop rs))"

definition cat :: "int \<Rightarrow> rd list \<Rightarrow> (int \<times> u8 list \<times> int list) res option" where
  \<comment> \<open>the result, the output and the descriptors closed; \<open>fd\<close> is what \<open>open\<close> returns\<close>
  "cat fd rs =
     (if fd < 0 then Some (Inr (-1, [], []))
      else map_option (map_sum (\<lambda>f. f) (\<lambda>out. (0, out, [fd]))) (cat_loop rs))"

definition chunk :: "u8 list \<Rightarrow> bool" where
  \<comment> \<open>what a \<open>read\<close> of \<open>BUF_SIZE - 1\<close> bytes can return before the end of the file\<close>
  "chunk d \<longleftrightarrow> 0 < length d \<and> length d \<le> BUF_SIZE - 1"

lemma cat_loop_chunks:
  "\<forall>d\<in>set ds. chunk d \<Longrightarrow> cat_loop (map Data ds @ Data [] # rest) = Some (Inr (concat ds))"
  by (induction ds) (auto simp: chunk_def)

text \<open>\<open>cat\<close> prints a file completely, however the reads cut it up: the zero byte it appends stays inside the
  buffer, the output is the contents of the file, and the descriptor is closed.\<close>
theorem cat_prints_file:
  assumes "0 \<le> fd" "\<forall>d\<in>set ds. chunk d"
  shows "cat fd (map Data ds @ Data [] # rest) = Some (Inr (0, concat ds, [fd]))"
  using assms cat_loop_chunks [of ds rest] by (simp add: cat_def)

text \<open>A read error in the middle of the file is not reported.\<close>
lemma cat_ignores_error:
  assumes "0 \<le> fd" "chunk d"
  shows "cat fd [Data d, Read_error] = Some (Inr (0, d, [fd]))"
  using assms by (auto simp: cat_def chunk_def)

section \<open>Speed of a terminal\<close>

record termios_speed =
  c_ispeed :: int            \<comment> \<open>a speed constant is named by its rate\<close>
  c_ospeed :: int

record tty_env =
  tty_fd :: int
  is_a_tty :: bool
  tty_attr :: "termios_speed option"
  ispeed_ok :: bool
  ospeed_ok :: bool
  setattr_ok :: bool

datatype tty_ev = Tty_open string | Tty_set termios_speed | Tty_close int | Tty_error string

definition speeds :: "int list" where
  "speeds = [0, 50, 75, 110, 134, 150, 200, 300, 600, 1200, 1800, 2400, 4800, 9600, 19200, 38400, 57600, 115200, 230400]"

definition sttyspeed :: "tty_env \<Rightarrow> int \<Rightarrow> string option \<Rightarrow> int \<times> tty_ev list" where
  "sttyspeed e speed ttynam =
     (let nam = (case ttynam of None \<Rightarrow> ''/dev/console'' | Some n \<Rightarrow> n) in
      if speed \<notin> set speeds then (-1, [Tty_error ''invalid speed''])
      else if tty_fd e < 0 then (-1, [Tty_open nam, Tty_error ''error opening''])
      else
        (let bail = (\<lambda>rval evs. (rval, [Tty_open nam] @ evs @ [Tty_close (tty_fd e)])) in
         if \<not> is_a_tty e then bail (-1) [Tty_error ''not a terminal'']
         else
           (case tty_attr e of None \<Rightarrow> bail (-1) [Tty_error ''tcgetattr'']
            | Some ta \<Rightarrow>
                if \<not> ispeed_ok e \<or> \<not> ospeed_ok e then bail (-1) [Tty_error ''setting speed'']
                else
                  (let ta = ta\<lparr>c_ispeed := speed, c_ospeed := speed\<rparr> in
                   if \<not> setattr_ok e then bail (-1) [Tty_set ta, Tty_error ''tcsetattr'']
                   else bail 0 [Tty_set ta]))))"

text \<open>\<open>sttyspeed\<close> closes the terminal on every path on which it opened it, changes the attributes only with
  both speeds set to one of the nineteen rates it knows, and returns 0 exactly when no step failed.\<close>
theorem sttyspeed_paths:
  assumes "sttyspeed e speed ttynam = (r, evs)"
  shows "(Tty_close (tty_fd e) \<in> set evs \<longleftrightarrow> (\<exists>n. Tty_open n \<in> set evs) \<and> 0 \<le> tty_fd e) \<and>
         (\<forall>ta. Tty_set ta \<in> set evs \<longrightarrow> speed \<in> set speeds \<and> c_ispeed ta = speed \<and> c_ospeed ta = speed) \<and>
         (r = 0 \<longleftrightarrow> (\<exists>ta. Tty_set ta \<in> set evs) \<and> (\<forall>x. Tty_error x \<notin> set evs)) \<and> (r = 0 \<or> r = -1)"
  using assms unfolding sttyspeed_def
  by (auto simp: Let_def split: if_splits option.splits)

section \<open>Concrete instances\<close>

theorem cat_prints_file_witness:
  "(0 :: int) \<le> 3 \<and> chunk [104, 105] \<and> chunk [10] \<and>
   cat 3 [Data [104, 105], Data [10], Data []] = Some (Inr (0, [104, 105, 10], [3]))"
proof -
  have *: "(0 :: int) \<le> 3" "\<forall>d\<in>set [[104, 105], [10]]. chunk d" by (simp_all add: chunk_def)
  then show ?thesis using cat_prints_file [OF *, of "[]"] by simp
qed

definition sample_tty :: tty_env where
  "sample_tty = \<lparr>tty_fd = 4, is_a_tty = True, tty_attr = Some \<lparr>c_ispeed = 9600, c_ospeed = 9600\<rparr>,
                 ispeed_ok = True, ospeed_ok = True, setattr_ok = True\<rparr>"

theorem sttyspeed_paths_witness:
  "sttyspeed sample_tty 115200 None =
     (0, [Tty_open ''/dev/console'', Tty_set \<lparr>c_ispeed = 115200, c_ospeed = 115200\<rparr>, Tty_close 4]) \<and> (115200 :: int) \<in> set speeds"
proof -
  have *: "sttyspeed sample_tty 115200 None =
     (0, [Tty_open ''/dev/console'', Tty_set \<lparr>c_ispeed = 115200, c_ospeed = 115200\<rparr>, Tty_close 4])"
    by (simp add: sttyspeed_def sample_tty_def speeds_def)
  then show ?thesis using sttyspeed_paths [OF *] by auto
qed

end
