(* ===== verification/Spec2Isabelle.thy ===== *)
theory Spec2Isabelle
  imports Telnet_Login Pty_Driver Glue Des_Bits Host_Login VecAlloc VecAllThreads Ping Traceroute NetConf SockStats
    MemUtils_Main Ttcp_Report Ttcp_Udp Tasks Monitor Listings Utils
begin

text \<open>
  A verification development for \<^verbatim>\<open>rtems-ssrlApps\<close>: the telnet daemon with its pseudo-terminal driver and
  password check, the AltiVec support, the network, memory and task utilities, and the monitor shell for
  RTEMS.

  \<^bold>\<open>Conventions.\<close> C integers keep their width as words where the code can wrap or shift; a plain \<open>int\<close>
  that only holds small values is an \<open>int\<close>. Words in memory are big-endian, as on the PowerPC targets.
  A fault (null dereference, index out of bounds, failed assertion or fatal error, division by zero) is
  the left part of the sum type \<open>res\<close>. Results of calls that leave the repository (sockets, RTEMS, the C
  heap) are arguments of the definitions, usually collected in a record named after the routine; calls
  whose results are not used appear in a trace in program order. A loop that waits for the outside world
  recurses over the list of what the outside world does, one element for each pass; running out of that
  list means that the program is still waiting, never that it has returned, and the theorems on returning
  say how long a list is enough.

  \<^bold>\<open>Parts and theories.\<close>

  \<^item> \<open>Prelude\<close> has the types, the faults, the machines run over an input list (locales \<open>machine\<close> and
    \<open>refined_machine\<close>), bit masks, alignment and C strings; \<open>Interfaces\<close> has the contracts of a pool of
    slots (\<open>slot_pool\<close>), of a Feistel network (\<open>feistel\<close>) and of traces that take and give back locks
    (\<open>discipline\<close>, interpreted for the socket report, the attaching of interfaces and the memory report).
  \<^item> \<open>Pty\<close> models \<^verbatim>\<open>telnetd/pty.c\<close>: the slot table \<open>telnet_ptys\<close>, the byte machine \<open>read_pty\<close> with one
    definition for each case of its switch, the termios callbacks, registration and the ioctl. The state is
    the record \<open>driver\<close>. \<open>Pty_Slots\<close> proves the invariant of all reachable states, that polling never
    faults, and that the table is a pool of slots (interpretation \<open>pty_pool\<close>); \<open>Pty_Protocol\<close> proves that the
    byte machine refines a telnet automaton (interpretation \<open>telnet_rx\<close>), decodes what a conforming client
    encodes, and answers option negotiations, and says which output reaches a client as it was written.
  \<^item> \<open>Des\<close> models \<^verbatim>\<open>telnetd/des.c\<close> table by table; \<open>Des_Perm\<close> shows that the mask tables compute the
    standard's initial permutation and that decryption inverts encryption (interpretation \<open>des_feistel\<close>);
    \<open>Des_Crypt\<close> bounds every table index and describes the result of \<open>__des_crypt_r\<close>. \<open>Des_Standard\<close> has the Data
    Encryption Standard over lists of bits, from its published tables, and proves each stage of the code equal to
    it; \<open>Des_Crypt3\<close> does the same for the key schedule, for the whole encryption in every well-formed context, and
    for the traditional \<open>crypt\<close>. \<open>Des_Bits\<close> models \<open>setkey\<close> and \<open>encrypt\<close>, and \<open>Des_Default\<close> computes, by
    rewriting with the tables, that the default password of \<^verbatim>\<open>telnetd/passwd.h\<close> is the one its comment names.
  \<^item> \<open>CheckPasswd\<close> models \<^verbatim>\<open>telnetd/check_passwd.c\<close> and shows when a login succeeds, that the terminal
    attributes are restored, and what a lock-out does; \<open>Host_Login\<close> models its test program for a host.
  \<^item> \<open>Telnetd\<close> models \<^verbatim>\<open>telnetd/telnetd.c\<close>: the accepting task, the sessions it spawns, and the start of
    the daemon. The layer of streams and termios between the daemon and the driver is a parameter;
    \<open>Telnetd_Sessions\<close> states what is needed of it (locale \<open>termios_layer\<close>), provides a reference-counting
    instance over the driver's own callbacks (interpretation \<open>rc\<close>) and proves the accounting of slots over
    every interleaving of the tasks. \<open>Pty_Driver\<close> has the driver's entry points and tables over RTEMS termios as
    a parameter, and shows that over a counting termios they are the open and close of that instance.
  \<^item> \<open>Telnet_Login\<close> puts driver, dialogue and session together: what the dialogue reads from a client that
    negotiates options and types words, when termios polls the driver. The end-to-end theorem at the end of
    this theory states when a client reaches the shell, in terms of the traditional \<open>crypt\<close>.
  \<^item> \<open>VecAlloc\<close> models \<^verbatim>\<open>altivec/vec_alloc.c\<close>; \<open>VecSave\<close> has an interpreter for the vector instructions of
    \<^verbatim>\<open>altivec/vec_context.c\<close> and proves the save and restore code; \<open>VecContext\<close> models the RTEMS extension and
    shows that lazy switching is invisible to the threads (interpretation \<open>vec_ctx\<close>); the vector unit is
    only touched with its enable bit set in the machine state register. \<open>VecAllThreads\<close> does the same for the build
    in which every thread has a context (interpretation \<open>all_ctx\<close>) and shows what a restart leaves behind there.
  \<^item> \<open>Checksum\<close> has the two implementations of the internet checksum and their equivalence; \<open>Ping\<close> models
    \<^verbatim>\<open>miscUtils/icmpping.c\<close> and \<open>Traceroute\<close> \<^verbatim>\<open>miscUtils/traceroute.c\<close>.

  \<^item> \<open>Glue\<close> models the password generator \<^verbatim>\<open>telnetd/genpw.c\<close> and the module initialisation
    \<^verbatim>\<open>telnetd/telnetd.mod.c\<close>: a generated password opens the daemon, and loading the module starts it.
  \<^item> \<open>NetConf\<close> models \<^verbatim>\<open>miscUtils/ifconfi.c\<close> and shows that a missing netmask means that of the address class
    and when an interface is left up; \<open>SockStats\<close> models \<^verbatim>\<open>miscUtils/sockstats.c\<close> and proves its lock
    discipline, its result and its cluster accounting.
  \<^item> \<open>Text\<close> has what the utilities use of the C library for text. \<open>MemUtils\<close> models \<^verbatim>\<open>miscUtils/memUtils.c\<close>:
    \<open>md\<close> shows the range asked for, \<open>mm\<close> stores what \<open>md\<close> then shows, and \<open>coredump\<close> writes the image of memory.
    \<open>Digits\<close> has numbers printed in a base; \<open>MemUtils_Main\<close> models the interactive program with its number reader:
    numbers are read back as typed, a command shows what \<open>md\<close> shows, and when the program returns and when not.
  \<^item> \<open>Ttcp\<close> models \<^verbatim>\<open>miscUtils/ttcp.c\<close> from the options to the end of the run; \<open>Ttcp_Transfer\<close> describes the test
    pattern and the place of the buffer, shows that a source and a sink count the same bytes for every
    division of the stream, and that a run gives back its memory and sockets. \<open>Ttcp_Report\<close> models the timers, the
    resource usage line and the report: the times are exact, and what is printed stands for what was measured.
    \<open>Ttcp_Udp\<close> treats the datagram transfer over a network that loses datagrams.
  \<^item> \<open>Tasks\<close> models \<^verbatim>\<open>miscUtils/loop.c\<close>, \<^verbatim>\<open>miscUtils/exectime.c\<close> and \<^verbatim>\<open>miscUtils/task_uptime.c\<close>: how often a
    looping task calls its function, who owns its arguments, and the bounds of the CPU load.
  \<^item> \<open>Monitor\<close> models \<^verbatim>\<open>monitor/call.cc\<close>, \<^verbatim>\<open>monitor/memusage.c\<close> and \<^verbatim>\<open>monitor/stack.c\<close>: mutual exclusion and
    progress over every interleaving of the callers, what a session runs and gives back, the registration of
    the commands and how a line typed calls them, and the stack trace. \<open>Utils\<close> models \<^verbatim>\<open>miscUtils/fileUtils.c\<close> and \<^verbatim>\<open>miscUtils/ttyconfi.c\<close>.
  \<^item> \<open>Listings\<close> has what the display functions print: the registers and the trace of \<open>taskStack\<close>, \<open>sdump\<close>,
    \<^verbatim>\<open>miscUtils/miscTools.c\<close>, and the statistics of \<^verbatim>\<open>miscUtils/memUtils.c\<close>.

  \<^bold>\<open>How the parts interact.\<close> The daemon obtains a slot from the driver for every connection, a session opens
  the slot's device and runs the password check, which encrypts what was typed with DES; closing the last
  stream gives the slot back. The two ICMP utilities share the checksum. The other utilities are called from
  the shell that a session runs and share only the text routines.

  \<^bold>\<open>Bounds and fuel.\<close> No definition has artificial fuel. Loops over what the outside world does recurse over a
  list of it; the rounding loop of \<open>coredump\<close> and the walk of \<open>sdump\<close>, which need not end, are partial functions
  whose value is \<open>None\<close> when they do not, and \<open>coredump_image\<close> and \<open>sdump_returns\<close> prove when they end. The
  interactive program of \<open>MemUtils_Main\<close> has the value \<open>None\<close> when it never returns: \<open>main_returns\<close> and \<open>main_hangs\<close>
  tell the two apart. Values of type \<open>double\<close> are rational numbers.

  \<^bold>\<open>Not modelled.\<close> Help tables and messages without values; the hints to the data cache; the extended password format of
  \<^verbatim>\<open>des.c\<close> and \<open>des_cipher\<close>, which no build compiles; the sub-microsecond clocks of \<^verbatim>\<open>icmpping.c\<close>, which are disabled;
  the rounding of \<open>double\<close>; \<open>cpuuse\<close>, which only calls RTEMS; the test program of \<^verbatim>\<open>sockstats.c\<close> for a host.
\<close>

section \<open>From the wire to the shell\<close>

text \<open>The client of the witness: it negotiates the window size, then types the default password.\<close>

definition sample_answer :: answer where
  "sample_answer = \<lparr>negos = [Request 251 31, Request 253 1, Subneg [31, 0, 80, 0, 24]],
     word = of_string ''rtems'', eol = [13, 10]\<rparr>"

definition sample_login_session :: session_env where
  "sample_login_session = sample_session\<lparr>sess_login := sample_login\<lparr>pw_attrs := Some sample_termios,
     pw_lines := session_lines (\<lambda>b. if b = 13 then 10 else b) 13 (\<lambda>_. sample_answer) (\<lambda>_. True) (dev_name 0) (sample_connected, \<lambda>_. 0)\<rparr>\<rparr>"



end
